(* ===== verification/Prelude.thy ===== *)
theory Prelude
  imports Main "HOL-Library.List_Lexorder" "HOL-Library.Char_ord" "HOL-Library.Product_Lexorder" "HOL-Library.Code_Target_Nat"
begin

text \<open>
  What every theory of the development shares: the collections its proofs draw on, the
  saturating machine arithmetic of the sources (\<open>u32\<close>, \<open>u64\<close> and \<open>i64\<close>), results as sums
  whose left side is the error, the builder chains the declarations are written with, and a
  few facts on lists.

  Strings are byte strings: Rust compares \<open>str\<close> by bytes, and the order of
  \<open>List_Lexorder\<close> over \<open>Char_ord\<close> is that order.
\<close>

section \<open>Collections\<close>

named_theorems gate_simps \<open>what a gate answers, over the values its lookups find\<close>
named_theorems effect_simps \<open>the state an effect returns and the writes it leaves\<close>
named_theorems view_simps \<open>what of a handle a lookup leaves alone\<close>
named_theorems machine_defs \<open>the tables of the concrete machines\<close>

section \<open>Machine integers\<close>

text \<open>
  Versions and sequences are \<open>u64\<close>, tallies and quotas \<open>u32\<close>: natural numbers here, with every
  operation that could leave the width written out. Times are \<open>i64\<close> milliseconds or
  microseconds: integers, with the saturating operations the source calls.
\<close>

definition u32_max :: nat where
  "u32_max = 4294967295"

definition u64_max :: nat where
  "u64_max = 18446744073709551615"

definition i64_min :: int where
  "i64_min = - 9223372036854775808"

definition i64_max :: int where
  "i64_max = 9223372036854775807"

definition u32_sat_add :: "nat \<Rightarrow> nat \<Rightarrow> nat" where
  "u32_sat_add a b = min u32_max (a + b)"

definition u64_sat_add :: "nat \<Rightarrow> nat \<Rightarrow> nat" where
  "u64_sat_add a b = min u64_max (a + b)"

definition i64_clamp :: "int \<Rightarrow> int" where
  "i64_clamp a = max i64_min (min i64_max a)"

definition i64_sat_add :: "int \<Rightarrow> int \<Rightarrow> int" where
  "i64_sat_add a b = i64_clamp (a + b)"

definition i64_sat_sub :: "int \<Rightarrow> int \<Rightarrow> int" where
  "i64_sat_sub a b = i64_clamp (a - b)"

definition i64_sat_mul :: "int \<Rightarrow> int \<Rightarrow> int" where
  "i64_sat_mul a b = i64_clamp (a * b)"

definition i64 :: "int \<Rightarrow> bool" where
  "i64 a \<longleftrightarrow> i64_min \<le> a \<and> a \<le> i64_max"

section \<open>Builder chains\<close>

text \<open>
  The declarations of the source are method chains, \<open>x.f(..).g(..)\<close>. A chain is the list of
  its calls, applied in the order they are written.
\<close>

fun chained :: "'a \<Rightarrow> ('a \<Rightarrow> 'a) list \<Rightarrow> 'a" where
  "chained x [] = x"
| "chained x (f # fs) = chained (f x) fs"

section \<open>Results\<close>

text \<open>
  \<open>Result<T, E>\<close> is \<open>'e + 't\<close>, the error on the left.
\<close>

definition is_ok :: "'e + 'a \<Rightarrow> bool" where
  "is_ok r = (case r of Inl _ \<Rightarrow> False | Inr _ \<Rightarrow> True)"

text \<open>\<open>Iterator::try_for_each\<close> over a state: the first error ends it.\<close>

fun try_fold :: "('a \<Rightarrow> 's \<Rightarrow> 'e + 's) \<Rightarrow> 'a list \<Rightarrow> 's \<Rightarrow> 'e + 's" where
  "try_fold f [] s = Inr s"
| "try_fold f (x # xs) s = (case f x s of Inl e \<Rightarrow> Inl e | Inr s' \<Rightarrow> try_fold f xs s')"

section \<open>Lemmas\<close>

lemmas width_defs = u32_max_def u64_max_def i64_min_def i64_max_def

lemma i64_clamp_id [simp]: "i64 a \<Longrightarrow> i64_clamp a = a"
  by (simp add: i64_clamp_def i64_def)

lemma i64_clamp_range [simp]: "i64 (i64_clamp a)"
  by (simp add: i64_clamp_def i64_def width_defs)

lemma i64_clamp_mono: "a \<le> b \<Longrightarrow> i64_clamp a \<le> i64_clamp b"
  by (simp add: i64_clamp_def)

lemma i64_clamp_nonneg: "0 \<le> a \<Longrightarrow> i64_clamp a = min i64_max a"
  by (simp add: i64_clamp_def i64_min_def i64_max_def min_def max_def)

lemma i64_sat_mul_nonneg: "0 \<le> a * b \<Longrightarrow> i64_sat_mul a b = min i64_max (a * b)"
  by (simp add: i64_sat_mul_def i64_clamp_nonneg)

lemma u64_sat_add_le [simp]: "u64_sat_add a b \<le> u64_max"
  by (simp add: u64_sat_add_def)

lemma u64_sat_add_ge: "a \<le> u64_max \<Longrightarrow> a \<le> u64_sat_add a b"
  by (simp add: u64_sat_add_def)

lemma u64_sat_add_less: "a < u64_max \<Longrightarrow> 0 < b \<Longrightarrow> a < u64_sat_add a b"
  by (simp add: u64_sat_add_def)

lemma u32_sat_add_le [simp]: "u32_sat_add a b \<le> u32_max"
  by (simp add: u32_sat_add_def)

lemma u32_sat_add_pos [simp]: "0 < b \<Longrightarrow> 0 < u32_sat_add a b"
  by (simp add: u32_sat_add_def width_defs)

lemma u32_sat_add_ge: "a \<le> u32_max \<Longrightarrow> a \<le> u32_sat_add a b"
  by (simp add: u32_sat_add_def)

lemma is_ok_simps [simp]: "is_ok (Inr x)" "\<not> is_ok (Inl e)"
  by (simp_all add: is_ok_def)

lemma is_ok_iff: "is_ok r \<longleftrightarrow> (\<exists>x. r = Inr x)"
  by (cases r) auto

lemma try_fold_append:
  "try_fold f (xs @ ys) s =
    (case try_fold f xs s of Inl e \<Rightarrow> Inl e | Inr s' \<Rightarrow> try_fold f ys s')"
  by (induction xs arbitrary: s) (auto split: sum.splits)

text \<open>An invariant every successful step keeps is kept by the whole fold.\<close>

lemma try_fold_invariant:
  assumes "try_fold f xs s = Inr t" and "I s"
    and "\<And>x s t. x \<in> set xs \<Longrightarrow> I s \<Longrightarrow> f x s = Inr t \<Longrightarrow> I t"
  shows "I t"
  using assms
proof (induction xs arbitrary: s)
  case (Cons x xs)
  then obtain u where "f x s = Inr u" "try_fold f xs u = Inr t"
    by (auto split: sum.splits)
  with Cons show ?case
    by (metis list.set_intros(1,2))
qed simp

end
