(* ===== verification/Ordered_Map.thy ===== *)
theory Ordered_Map
  imports Prelude
begin

text \<open>
  \<open>BTreeMap\<close> and \<open>BTreeSet\<close> of the Rust standard library, as the sources use them: a map is
  the association list its iterator yields, keys strictly rising, and a set the strictly rising
  list of its elements. Iteration order is part of what the program does (the order of recorded
  reads, of reported errors, of a fair placement), so the order is kept rather than abstracted
  to a function.

  The locale \<open>ordered_map\<close> is the contract the components rely on; its interpretation on the
  list operations below discharges it.
\<close>

section \<open>Definitions\<close>

type_synonym ('k, 'v) btree_map = "('k \<times> 'v) list"

type_synonym 'a btree_set = "'a list"

definition bm_inv :: "('k::linorder, 'v) btree_map \<Rightarrow> bool" where
  "bm_inv m \<longleftrightarrow> sorted_wrt (<) (map fst m)"

fun bm_insert :: "'k::linorder \<Rightarrow> 'v \<Rightarrow> ('k, 'v) btree_map \<Rightarrow> ('k, 'v) btree_map" where
  "bm_insert k v [] = [(k, v)]"
| "bm_insert k v ((k', v') # m) =
    (if k < k' then (k, v) # (k', v') # m
     else if k = k' then (k, v) # m
     else (k', v') # bm_insert k v m)"

definition bm_remove :: "'k \<Rightarrow> ('k, 'v) btree_map \<Rightarrow> ('k, 'v) btree_map" where
  "bm_remove k m = filter (\<lambda>kv. fst kv \<noteq> k) m"

abbreviation bm_get :: "('k, 'v) btree_map \<Rightarrow> 'k \<Rightarrow> 'v option" where
  "bm_get \<equiv> map_of"

definition bm_contains :: "('k, 'v) btree_map \<Rightarrow> 'k \<Rightarrow> bool" where
  "bm_contains m k \<longleftrightarrow> k \<in> set (map fst m)"

definition bs_inv :: "'a::linorder btree_set \<Rightarrow> bool" where
  "bs_inv s \<longleftrightarrow> sorted_wrt (<) s"

definition bs_insert :: "'a::linorder \<Rightarrow> 'a btree_set \<Rightarrow> 'a btree_set" where
  "bs_insert x s = insort_insert x s"

definition bs_of_list :: "'a::linorder list \<Rightarrow> 'a btree_set" where
  "bs_of_list xs = sort (remdups xs)"

section \<open>The contract\<close>

locale ordered_map =
  fixes empty :: 'm
    and insert_at :: "'k \<Rightarrow> 'v \<Rightarrow> 'm \<Rightarrow> 'm"
    and remove :: "'k \<Rightarrow> 'm \<Rightarrow> 'm"
    and get :: "'m \<Rightarrow> 'k \<Rightarrow> 'v option"
    and inv :: "'m \<Rightarrow> bool"
  assumes get_empty: "get empty k = None"
    and get_insert: "inv m \<Longrightarrow> get (insert_at k v m) = (get m)(k \<mapsto> v)"
    and get_remove: "inv m \<Longrightarrow> get (remove k m) = (get m)(k := None)"
    and inv_empty: "inv empty"
    and inv_insert: "inv m \<Longrightarrow> inv (insert_at k v m)"
    and inv_remove: "inv m \<Longrightarrow> inv (remove k m)"
    and canonical: "inv m \<Longrightarrow> inv m' \<Longrightarrow> get m = get m' \<Longrightarrow> m = m'"
begin

lemma insert_same: "inv m \<Longrightarrow> get m k = Some v \<Longrightarrow> insert_at k v m = m"
  by (intro canonical inv_insert) (auto simp: get_insert fun_eq_iff)

lemma remove_absent: "inv m \<Longrightarrow> get m k = None \<Longrightarrow> remove k m = m"
  by (intro canonical inv_remove) (auto simp: get_remove fun_eq_iff)

lemma remove_insert: "inv m \<Longrightarrow> get m k = None \<Longrightarrow> remove k (insert_at k v m) = m"
  by (intro canonical inv_remove inv_insert) (auto simp: get_remove get_insert inv_insert fun_eq_iff)

lemma insert_twice: "inv m \<Longrightarrow> insert_at k w (insert_at k v m) = insert_at k w m"
  by (intro canonical inv_insert) (auto simp: get_insert inv_insert)

lemma insert_back: "inv m \<Longrightarrow> get m k = Some v \<Longrightarrow> insert_at k v (insert_at k w m) = m"
  by (intro canonical inv_insert) (auto simp: get_insert inv_insert fun_eq_iff)

lemma insert_commute:
  "inv m \<Longrightarrow> k \<noteq> l \<Longrightarrow> insert_at k v (insert_at l w m) = insert_at l w (insert_at k v m)"
  by (intro canonical inv_insert) (auto simp: get_insert inv_insert fun_eq_iff)

end

section \<open>Lemmas\<close>

lemma bm_inv_Nil [simp]: "bm_inv []"
  by (simp add: bm_inv_def)

lemma bm_inv_Cons: "bm_inv ((k, v) # m) \<longleftrightarrow> (\<forall>k' \<in> fst ` set m. k < k') \<and> bm_inv m"
  by (simp add: bm_inv_def)

lemma bm_inv_distinct: "bm_inv m \<Longrightarrow> distinct (map fst m)"
  by (simp add: bm_inv_def strict_sorted_iff)

lemma keys_bm_insert [simp]: "fst ` set (bm_insert k v m) = insert k (fst ` set m)"
  by (induction k v m rule: bm_insert.induct) auto

lemma bm_inv_insert [simp]: "bm_inv m \<Longrightarrow> bm_inv (bm_insert k v m)"
  by (induction k v m rule: bm_insert.induct) (auto simp: bm_inv_Cons)

lemma bm_inv_filter [simp]: "bm_inv m \<Longrightarrow> bm_inv (filter P m)"
  by (induction m) (auto simp: bm_inv_Cons)

lemma bm_inv_remove [simp]: "bm_inv m \<Longrightarrow> bm_inv (bm_remove k m)"
  by (simp add: bm_remove_def)

lemma bm_get_insert [simp]: "bm_get (bm_insert k v m) = (bm_get m)(k \<mapsto> v)"
  by (induction k v m rule: bm_insert.induct) (auto simp: fun_eq_iff)

lemma bm_get_remove [simp]: "bm_get (bm_remove k m) = (bm_get m)(k := None)"
  by (induction m) (auto simp: bm_remove_def fun_eq_iff)

lemma bm_contains_iff: "bm_contains m k \<longleftrightarrow> bm_get m k \<noteq> None"
  by (simp add: bm_contains_def map_of_eq_None_iff)

lemma bm_get_in_set: "bm_inv m \<Longrightarrow> bm_get m k = Some v \<longleftrightarrow> (k, v) \<in> set m"
  by (simp add: bm_inv_distinct)

lemma bm_canonical:
  assumes "bm_inv m" "bm_inv m'" "bm_get m = bm_get m'"
  shows "m = m'"
proof (rule map_sorted_distinct_set_unique [where f = fst])
  show "inj_on fst (set m \<union> set m')"
    using assms by (auto simp: inj_on_def simp flip: bm_get_in_set)
  show "sorted (map fst m)" "distinct (map fst m)" "sorted (map fst m')" "distinct (map fst m')"
    using assms by (auto simp: bm_inv_def strict_sorted_iff)
  show "set m = set m'"
    using assms by (metis bm_get_in_set prod.exhaust subsetI subset_antisym)
qed

interpretation bm: ordered_map "[]" bm_insert bm_remove bm_get bm_inv
  by unfold_locales (auto intro: bm_canonical)

lemma bs_inv_insert [simp]: "bs_inv s \<Longrightarrow> bs_inv (bs_insert x s)"
  by (simp add: bs_inv_def bs_insert_def strict_sorted_iff sorted_insort distinct_insort
      insort_insert_key_def)

lemma set_bs_insert [simp]: "set (bs_insert x s) = insert x (set s)"
  by (simp add: bs_insert_def set_insort_insert)

lemma set_bs_of_list [simp]: "set (bs_of_list xs) = set xs"
  by (simp add: bs_of_list_def)

lemma bs_inv_of_list [simp]: "bs_inv (bs_of_list xs)"
  by (simp add: bs_inv_def bs_of_list_def strict_sorted_iff)

lemma bs_inv_Nil [simp]: "bs_inv []"
  by (simp add: bs_inv_def)

end
