(* ===== verification/Records.thy ===== *)
theory Records
  imports Ordered_Map
begin

text \<open>
  The value types of \<open>src/crates/flotilla-schema/src\<close> the engine builds on: append-only record
  tables (\<open>records.rs\<close>), stored times (\<open>time.rs\<close>) and a materialised state with the time its
  label was entered (\<open>state.rs\<close>).

  A record table is the list of its rows. Positions are \<open>u32\<close>, so a table holds at most
  \<open>u32::MAX + 1\<close> rows and refuses the next; the lemmas show that positions are dense and that no
  operation of the type moves or drops a row.
\<close>

section \<open>Times and states\<close>

type_synonym timestamp = int

definition timestamp_saturating_add :: "timestamp \<Rightarrow> int \<Rightarrow> timestamp" where
  "timestamp_saturating_add t micros = i64_sat_add t micros"

definition timestamp_since :: "timestamp \<Rightarrow> timestamp \<Rightarrow> int" where
  "timestamp_since t earlier = i64_sat_sub t earlier"

record 's state_at =
  st_value :: 's
  st_since :: timestamp

section \<open>Record tables\<close>

record 'r record_row =
  row_position :: nat
  row_version :: nat
  row_record :: 'r

type_synonym 'r records = "'r record_row list"

datatype records_full = RecordsFull

definition records_append :: "nat \<Rightarrow> 'r \<Rightarrow> 'r records \<Rightarrow> records_full + 'r records" where
  "records_append version r rows =
    (if length rows \<le> u32_max
     then Inr (rows @ [\<lparr>row_position = length rows, row_version = version, row_record = r\<rparr>])
     else Inl RecordsFull)"

definition records_restamp :: "nat \<Rightarrow> 'r records \<Rightarrow> 'r records" where
  "records_restamp version rows = map (row_version_update (\<lambda>_. version)) rows"

definition records_is_full :: "'r records \<Rightarrow> bool" where
  "records_is_full rows \<longleftrightarrow> \<not> length rows \<le> u32_max"

definition records_get :: "nat \<Rightarrow> 'r records \<Rightarrow> 'r record_row option" where
  "records_get position rows = (if position < length rows then Some (rows ! position) else None)"

text \<open>\<open>get_mut\<close> hands out the record to change in place; the caller's change is the function.\<close>

definition records_get_mut :: "nat \<Rightarrow> ('r \<Rightarrow> 'r) \<Rightarrow> 'r records \<Rightarrow> 'r records option" where
  "records_get_mut position f rows =
    (if position < length rows
     then Some (rows[position := row_record_update f (rows ! position)])
     else None)"

text \<open>
  Deserialisation refuses the first row whose position is not its index, naming the position found
  and the one expected.
\<close>

fun records_check :: "nat \<Rightarrow> 'r records \<Rightarrow> (nat \<times> nat) option" where
  "records_check expected [] = None"
| "records_check expected (row # rows) =
    (if row_position row \<noteq> expected then Some (row_position row, expected)
     else records_check (Suc expected) rows)"

definition records_deserialize :: "'r record_row list \<Rightarrow> (nat \<times> nat) + 'r records" where
  "records_deserialize rows =
    (case records_check 0 rows of Some e \<Rightarrow> Inl e | None \<Rightarrow> Inr rows)"

definition records_dense :: "'r records \<Rightarrow> bool" where
  "records_dense rows \<longleftrightarrow>
    map row_position rows = [0..<length rows] \<and> length rows \<le> Suc u32_max"

section \<open>Lemmas\<close>

lemma records_dense_Nil [simp]: "records_dense []"
  by (simp add: records_dense_def)

lemma records_append_dense:
  "records_dense rows \<Longrightarrow> records_append v r rows = Inr rows' \<Longrightarrow> records_dense rows'"
  by (auto simp: records_dense_def records_append_def split: if_splits)

lemma records_append_prefix:
  "records_append v r rows = Inr rows' \<Longrightarrow>
    take (length rows) rows' = rows \<and> length rows' = Suc (length rows)"
  by (auto simp: records_append_def split: if_splits)

lemma records_append_full: "records_append v r rows = Inl RecordsFull \<longleftrightarrow> records_is_full rows"
  by (simp add: records_append_def records_is_full_def)

lemma map_row_record_append:
  "records_append v r rows = Inr rows' \<Longrightarrow> map row_record rows' = map row_record rows @ [r]"
  by (auto simp: records_append_def split: if_splits)

lemma records_restamp_dense: "records_dense rows \<Longrightarrow> records_dense (records_restamp v rows)"
  by (simp add: records_dense_def records_restamp_def comp_def)

lemma map_position_get_mut:
  "p < length rows \<Longrightarrow>
    map row_position (rows[p := row_record_update f (rows ! p)]) = map row_position rows"
  by (simp add: map_update) (metis list_update_id nth_map map_update)

lemma records_get_mut_dense:
  "records_dense rows \<Longrightarrow> records_get_mut p f rows = Some rows' \<Longrightarrow> records_dense rows'"
  by (auto simp: records_dense_def records_get_mut_def map_position_get_mut split: if_splits)

lemma records_dense_nth: "records_dense rows \<Longrightarrow> p < length rows \<Longrightarrow> row_position (rows ! p) = p"
  by (metis records_dense_def add_0 nth_map nth_upt)

lemma records_get_dense:
  "records_dense rows \<Longrightarrow> records_get p rows = Some row \<Longrightarrow> row_position row = p"
  by (auto simp: records_get_def records_dense_nth split: if_splits)

lemma records_check_None:
  "records_check n rows = None \<longleftrightarrow> map row_position rows = [n..<n + length rows]"
  by (induction n rows rule: records_check.induct) (auto simp: upt_rec)

lemma timestamp_since_add:
  assumes "i64 t" "i64 d" "i64 (t + d)"
  shows "timestamp_since (timestamp_saturating_add t d) t = d"
  using assms
  by (simp add: timestamp_since_def timestamp_saturating_add_def i64_sat_add_def i64_sat_sub_def)

lemma timestamp_saturating_add_le:
  "i64 t \<Longrightarrow> 0 \<le> d \<Longrightarrow> t \<le> timestamp_saturating_add t d"
  by (auto simp: timestamp_saturating_add_def i64_sat_add_def i64_clamp_def i64_def)

end
