(* ===== verification/Reads.thy ===== *)
theory Reads
  imports Records
begin

text \<open>
  Recorded reads: \<open>src/crates/flotilla-state-machines/src/read.rs\<close>, with the resource of
  \<open>home.rs\<close> a handle stands on.

  A kind pairs its name with the lookup the world serves (\<open>Source<K>\<close>), which answers a version
  and a value or nothing. A world is whatever the machine declares: a record of such lookups. A
  handle is the state a gate, an effect or a judgement threads: every read through it appends an
  \<open>input_read\<close> unless it is already there. The lemmas give the two facts every machine rests on: a
  read answers what the world holds, and it changes nothing of a handle but the recorded reads.
\<close>

section \<open>Versions, kinds and tables\<close>

type_synonym version = nat

definition version_next :: "version \<Rightarrow> version" where
  "version_next v = u64_sat_add v 1"

record ('wd, 'v) kind =
  k_name :: string
  k_lookup :: "'wd \<Rightarrow> string \<Rightarrow> (version \<times> 'v) option"

record 'v table =
  t_rows :: "(string, version \<times> 'v) btree_map"
  t_clock :: version

definition table_new :: "'v table" where
  "table_new = \<lparr>t_rows = [], t_clock = 0\<rparr>"

definition table_select :: "string list \<Rightarrow> 'v table \<Rightarrow> 'v table" where
  "table_select names t =
    \<lparr>t_rows = fold (\<lambda>name rows. case bm_get (t_rows t) name of
                 None \<Rightarrow> rows | Some row \<Rightarrow> bm_insert name row rows) names [],
     t_clock = t_clock t\<rparr>"

definition table_put :: "string \<Rightarrow> 'v \<Rightarrow> 'v table \<Rightarrow> version \<times> 'v table" where
  "table_put name v t =
    (let clock = version_next (t_clock t)
     in (clock, \<lparr>t_rows = bm_insert name (clock, v) (t_rows t), t_clock = clock\<rparr>))"

definition table_put_at :: "string \<Rightarrow> 'v \<Rightarrow> version \<Rightarrow> 'v table \<Rightarrow> 'v table" where
  "table_put_at name v version t =
    \<lparr>t_rows = bm_insert name (version, v) (t_rows t), t_clock = max (t_clock t) version\<rparr>"

definition table_remove :: "string \<Rightarrow> 'v table \<Rightarrow> 'v option \<times> 'v table" where
  "table_remove name t =
    (map_option snd (bm_get (t_rows t) name), t\<lparr>t_rows := bm_remove name (t_rows t)\<rparr>)"

definition table_lookup :: "'v table \<Rightarrow> string \<Rightarrow> (version \<times> 'v) option" where
  "table_lookup t name = bm_get (t_rows t) name"

definition table_inv :: "'v table \<Rightarrow> bool" where
  "table_inv t \<longleftrightarrow> bm_inv (t_rows t) \<and> (\<forall>row \<in> set (t_rows t). fst (snd row) \<le> t_clock t)"

section \<open>Recorded reads\<close>

record input_read =
  r_kind :: string
  r_name :: string
  r_version :: "version option"

definition record_once :: "input_read \<Rightarrow> input_read list \<Rightarrow> input_read list" where
  "record_once r reads = (if r \<in> set reads then reads else reads @ [r])"

definition input_read_of :: "('wd, 'v) kind \<Rightarrow> 'wd \<Rightarrow> string \<Rightarrow> input_read" where
  "input_read_of k world name =
    \<lparr>r_kind = k_name k, r_name = name, r_version = map_option fst (k_lookup k world name)\<rparr>"

record 'wd admission =
  a_world :: 'wd
  a_now :: timestamp
  a_reads :: "input_read list"

definition admission_new :: "'wd \<Rightarrow> timestamp \<Rightarrow> 'wd admission" where
  "admission_new world now = \<lparr>a_world = world, a_now = now, a_reads = []\<rparr>"

definition admission_read ::
  "('wd, 'v) kind \<Rightarrow> string \<Rightarrow> 'wd admission \<Rightarrow> 'v option \<times> 'wd admission" where
  "admission_read k name a =
    (map_option snd (k_lookup k (a_world a) name),
     a\<lparr>a_reads := record_once (input_read_of k (a_world a) name) (a_reads a)\<rparr>)"

section \<open>Resources and handles\<close>

record ('sp, 's) resource =
  res_name :: string
  res_spec :: 'sp
  res_state :: "'s state_at"
  res_version :: version

definition resource_stored :: "string \<Rightarrow> 'sp \<Rightarrow> 's state_at \<Rightarrow> version \<Rightarrow> ('sp, 's) resource" where
  "resource_stored name spec state version =
    \<lparr>res_name = name, res_spec = spec, res_state = state, res_version = version\<rparr>"

record ('sp, 's, 'wd, 'w) handle =
  h_own :: "string option"
  h_spec :: 'sp
  h_state :: 's
  h_world :: 'wd
  h_now :: timestamp
  h_reads :: "input_read list"
  h_valid_until :: "timestamp option"
  h_writes :: "'w list"

definition handle_new :: "'sp \<Rightarrow> 's \<Rightarrow> 'wd \<Rightarrow> timestamp \<Rightarrow> ('sp, 's, 'wd, 'w) handle" where
  "handle_new spec state world now =
    \<lparr>h_own = None, h_spec = spec, h_state = state, h_world = world, h_now = now,
     h_reads = [], h_valid_until = None, h_writes = []\<rparr>"

definition handle_on :: "('sp, 's) resource \<Rightarrow> 'wd \<Rightarrow> timestamp \<Rightarrow> ('sp, 's, 'wd, 'w) handle" where
  "handle_on resource world now =
    \<lparr>h_own = Some (res_name resource), h_spec = res_spec resource,
     h_state = st_value (res_state resource), h_world = world, h_now = now,
     h_reads = [], h_valid_until = None, h_writes = []\<rparr>"

definition handle_name :: "('sp, 's, 'wd, 'w) handle \<Rightarrow> string" where
  "handle_name h = (case h_own h of None \<Rightarrow> [] | Some name \<Rightarrow> name)"

definition handle_record ::
  "input_read \<Rightarrow> ('sp, 's, 'wd, 'w) handle \<Rightarrow> ('sp, 's, 'wd, 'w) handle" where
  "handle_record r h = h\<lparr>h_reads := record_once r (h_reads h)\<rparr>"

definition handle_read ::
  "('wd, 'v) kind \<Rightarrow> string \<Rightarrow> ('sp, 's, 'wd, 'w) handle
    \<Rightarrow> 'v option \<times> ('sp, 's, 'wd, 'w) handle" where
  "handle_read k name h =
    (map_option snd (k_lookup k (h_world h) name),
     handle_record (input_read_of k (h_world h) name) h)"

definition handle_until ::
  "timestamp \<Rightarrow> ('sp, 's, 'wd, 'w) handle \<Rightarrow> ('sp, 's, 'wd, 'w) handle" where
  "handle_until moment h =
    h\<lparr>h_valid_until :=
        Some (case h_valid_until h of None \<Rightarrow> moment | Some current \<Rightarrow> min current moment)\<rparr>"

definition handle_write :: "'w \<Rightarrow> ('sp, 's, 'wd, 'w) handle \<Rightarrow> ('sp, 's, 'wd, 'w) handle" where
  "handle_write w h = h\<lparr>h_writes := h_writes h @ [w]\<rparr>"

definition handle_take_writes ::
  "('sp, 's, 'wd, 'w) handle \<Rightarrow> 'w list \<times> ('sp, 's, 'wd, 'w) handle" where
  "handle_take_writes h = (h_writes h, h\<lparr>h_writes := []\<rparr>)"

record 'a judged =
  j_value :: 'a
  j_valid_until :: "timestamp option"
  j_reads :: "input_read list"

definition handle_judged :: "('sp, 's, 'wd, 'w) handle \<Rightarrow> 'a \<Rightarrow> 'a judged" where
  "handle_judged h v =
    \<lparr>j_value = v, j_valid_until = h_valid_until h, j_reads = h_reads h\<rparr>"

definition resource_judge ::
  "('sp, 's) resource \<Rightarrow> 'wd \<Rightarrow> timestamp
    \<Rightarrow> (('sp, 's, 'wd, 'w) handle \<Rightarrow> 'a \<times> ('sp, 's, 'wd, 'w) handle) \<Rightarrow> 'a judged" where
  "resource_judge resource world now judgement =
    (case judgement (handle_on resource world now) of (v, h) \<Rightarrow> handle_judged h v)"

text \<open>
  \<open>look\<close> is the value a read finds, without its record; \<open>same_view h h'\<close> says that \<open>h'\<close> differs
  from \<open>h\<close> at most in the reads recorded and the validity declared, and has dropped none of the
  former.
\<close>

definition look :: "('wd, 'v) kind \<Rightarrow> string \<Rightarrow> ('sp, 's, 'wd, 'w) handle \<Rightarrow> 'v option" where
  "look k name h = map_option snd (k_lookup k (h_world h) name)"

definition same_view :: "('sp, 's, 'wd, 'w) handle \<Rightarrow> ('sp, 's, 'wd, 'w) handle \<Rightarrow> bool" where
  "same_view h h' \<longleftrightarrow>
    h_own h' = h_own h \<and> h_spec h' = h_spec h \<and> h_state h' = h_state h \<and> h_world h' = h_world h
    \<and> h_now h' = h_now h \<and> h_writes h' = h_writes h \<and> set (h_reads h) \<subseteq> set (h_reads h')"

section \<open>Lemmas\<close>

lemma set_record_once [simp]: "set (record_once r reads) = insert r (set reads)"
  by (auto simp: record_once_def)

lemma distinct_record_once: "distinct reads \<Longrightarrow> distinct (record_once r reads)"
  by (simp add: record_once_def)

lemma handle_record_view [simp, view_simps]:
  "h_own (handle_record r h) = h_own h"
  "h_spec (handle_record r h) = h_spec h"
  "h_state (handle_record r h) = h_state h"
  "h_world (handle_record r h) = h_world h"
  "h_now (handle_record r h) = h_now h"
  "h_valid_until (handle_record r h) = h_valid_until h"
  "h_writes (handle_record r h) = h_writes h"
  "h_reads (handle_record r h) = record_once r (h_reads h)"
  by (simp_all add: handle_record_def)

lemma handle_until_view [simp, view_simps]:
  "h_own (handle_until m h) = h_own h"
  "h_spec (handle_until m h) = h_spec h"
  "h_state (handle_until m h) = h_state h"
  "h_world (handle_until m h) = h_world h"
  "h_now (handle_until m h) = h_now h"
  "h_reads (handle_until m h) = h_reads h"
  "h_writes (handle_until m h) = h_writes h"
  by (simp_all add: handle_until_def)

lemma handle_write_view [simp, view_simps]:
  "h_own (handle_write w h) = h_own h"
  "h_spec (handle_write w h) = h_spec h"
  "h_state (handle_write w h) = h_state h"
  "h_world (handle_write w h) = h_world h"
  "h_now (handle_write w h) = h_now h"
  "h_reads (handle_write w h) = h_reads h"
  "h_writes (handle_write w h) = h_writes h @ [w]"
  by (simp_all add: handle_write_def)

lemma handle_name_view [simp, view_simps]:
  "handle_name (handle_record r h) = handle_name h"
  "handle_name (handle_until m h) = handle_name h"
  "handle_name (handle_write w h) = handle_name h"
  by (simp_all add: handle_name_def)

lemma look_view [simp, view_simps]:
  "look k n (handle_record r h) = look k n h"
  "look k n (handle_until m h) = look k n h"
  "look k n (handle_write w h) = look k n h"
  by (simp_all add: look_def)

lemma handle_on_view [simp, view_simps]:
  "h_own (handle_on res w t) = Some (res_name res)"
  "h_spec (handle_on res w t) = res_spec res"
  "h_state (handle_on res w t) = st_value (res_state res)"
  "h_world (handle_on res w t) = w"
  "h_now (handle_on res w t) = t"
  "h_reads (handle_on res w t) = []"
  "h_writes (handle_on res w t) = []"
  "handle_name (handle_on res w t) = res_name res"
  by (simp_all add: handle_on_def handle_name_def)

lemma handle_read_eq:
  "handle_read k n h = (look k n h, handle_record (input_read_of k (h_world h) n) h)"
  by (simp add: handle_read_def look_def)

lemma same_view_refl [simp, intro]: "same_view h h"
  by (simp add: same_view_def)

lemma same_view_trans [trans]: "same_view a b \<Longrightarrow> same_view b c \<Longrightarrow> same_view a c"
  by (auto simp: same_view_def)

lemma same_view_record [simp]: "same_view h (handle_record r h')" if "same_view h h'"
  using that by (auto simp: same_view_def)

lemma same_view_until [simp]: "same_view h (handle_until m h')" if "same_view h h'"
  using that by (auto simp: same_view_def)

lemma same_view_look: "same_view h h' \<Longrightarrow> look k n h' = look k n h"
  by (simp add: same_view_def look_def)

lemma same_viewD:
  "same_view h h' \<Longrightarrow> h_own h' = h_own h" "same_view h h' \<Longrightarrow> h_spec h' = h_spec h"
  "same_view h h' \<Longrightarrow> h_state h' = h_state h" "same_view h h' \<Longrightarrow> h_world h' = h_world h"
  "same_view h h' \<Longrightarrow> h_now h' = h_now h" "same_view h h' \<Longrightarrow> h_writes h' = h_writes h"
  "same_view h h' \<Longrightarrow> handle_name h' = handle_name h"
  by (simp_all add: same_view_def handle_name_def)

lemma table_inv_new: "table_inv table_new"
  by (simp add: table_inv_def table_new_def)

lemma set_bm_insert_subset: "set (bm_insert k v m) \<subseteq> insert (k, v) (set m)"
  by (induction k v m rule: bm_insert.induct) auto

lemma table_put_inv: "table_inv t \<Longrightarrow> t_clock t \<le> u64_max \<Longrightarrow> table_inv (snd (table_put n v t))"
  using set_bm_insert_subset [of n "(version_next (t_clock t), v)" "t_rows t"]
  by (fastforce simp: table_inv_def table_put_def Let_def version_next_def
      intro: order_trans [OF _ u64_sat_add_ge])

lemma table_put_at_inv: "table_inv t \<Longrightarrow> table_inv (table_put_at n v ver t)"
  using set_bm_insert_subset [of n "(ver, v)" "t_rows t"]
  by (fastforce simp: table_inv_def table_put_at_def)

lemma table_lookup_put:
  "table_lookup (snd (table_put n v t)) m =
    (if m = n then Some (version_next (t_clock t), v) else table_lookup t m)"
  by (simp add: table_lookup_def table_put_def Let_def)

lemma table_lookup_put_at:
  "table_lookup (table_put_at n v ver t) m = (if m = n then Some (ver, v) else table_lookup t m)"
  by (simp add: table_lookup_def table_put_at_def)

lemma table_lookup_remove:
  "table_lookup (snd (table_remove n t)) m = (if m = n then None else table_lookup t m)"
  by (simp add: table_lookup_def table_remove_def)

lemma get_select_fold:
  "bm_get (fold (\<lambda>name rows. case f name of None \<Rightarrow> rows | Some row \<Rightarrow> bm_insert name row rows) names rows) m
    = (if m \<in> set names \<and> f m \<noteq> None then f m else bm_get rows m)"
  by (induction names arbitrary: rows) (auto split: option.splits)

lemma table_lookup_select:
  "table_lookup (table_select names t) m = (if m \<in> set names then table_lookup t m else None)"
  by (cases "bm_get (t_rows t) m") (auto simp: table_lookup_def table_select_def get_select_fold)

text \<open>A put version is newer than every version the table held.\<close>

lemma table_put_newer:
  assumes "table_inv t" and "t_clock t < u64_max" and "table_lookup t m = Some (ver, x)"
  shows "ver < fst (table_put n v t)"
proof -
  have "(m, ver, x) \<in> set (t_rows t)"
    using assms(1,3) by (simp add: table_inv_def table_lookup_def bm_get_in_set)
  with assms(1) have "ver \<le> t_clock t"
    by (force simp: table_inv_def)
  with assms(2) show ?thesis
    by (simp add: table_put_def Let_def version_next_def u64_sat_add_def)
qed

end
