(* ===== verification/Machine.thy ===== *)
theory Machine
  imports Reads
begin

text \<open>
  The engine: \<open>src/crates/flotilla-state-machines/src/code.rs\<close> and \<open>machine.rs\<close>.

  The trait \<open>Machine\<close>, with the traits of its associated types (\<open>StateValue\<close>, \<open>Edge\<close>, \<open>Coded\<close>,
  \<open>RecordWrite\<close>) and the conversions its refusal supports, is the record \<open>machine\<close>: a concrete
  machine is a value of it. A gate or an effect is a function that threads a handle; an argument
  projection that misses (\<open>EdgeArg::project\<close>) is \<open>None\<close>, as in a release build. \<open>step\<close> is the
  engine's fixed order, \<open>validate\<close> the rules a declaration must keep, reported in the order Rust
  derives for \<open>DefError\<close>.

  The lemmas show what an accepted step guarantees whatever the gates and effects do, that the
  search of \<open>validate\<close> computes reachability over declared edges, and what a validated
  declaration therefore has.
\<close>

section \<open>State values\<close>

definition changed :: "(string \<times> 'd) list \<Rightarrow> (string \<times> 'd) list \<Rightarrow> string btree_set" where
  "changed before after =
    bs_of_list (map fst (filter (\<lambda>(name, v).
      \<not> list_ex (\<lambda>(old, held). old = name \<and> held = v) before) after))"

section \<open>Declarations\<close>

datatype ('sp, 's, 'wd, 'w, 'e, 'r) check =
  Gate string "('sp, 's, 'wd, 'w) handle \<Rightarrow> 'e \<Rightarrow> ('r + unit) option \<times> ('sp, 's, 'wd, 'w) handle"
| Ungated string

record ('l, 'k, 's, 'e, 'sp, 'wd, 'w, 'r) declared_edge =
  d_kind :: 'k
  d_from :: "'l list"
  d_to :: "'l list"
  d_changes :: "string list"
  d_writes :: "string list"
  d_check :: "('sp, 's, 'wd, 'w, 'e, 'r) check option"
  d_effect :: "(('sp, 's, 'wd, 'w) handle \<Rightarrow> 's \<Rightarrow> 'e \<Rightarrow> 's option \<times> ('sp, 's, 'wd, 'w) handle) option"
  d_master :: "('e \<Rightarrow> string option) option"

record ('l, 'k, 's, 'e, 'sp, 'wd, 'w, 'r) machine_def =
  md_initial :: 'l
  md_edges :: "('l, 'k, 's, 'e, 'sp, 'wd, 'w, 'r) declared_edge list"
  md_ends :: "('l \<times> string) list"
  md_by_kind :: "('k \<times> nat) list"

definition edge_new :: "'k \<Rightarrow> ('l, 'k, 's, 'e, 'sp, 'wd, 'w, 'r) declared_edge" where
  "edge_new kind =
    \<lparr>d_kind = kind, d_from = [], d_to = [], d_changes = [], d_writes = [],
     d_check = None, d_effect = None, d_master = None\<rparr>"

definition edge_from where
  "edge_from labels e = e\<lparr>d_from := d_from e @ labels\<rparr>"

definition edge_to where
  "edge_to labels e = e\<lparr>d_to := d_to e @ labels\<rparr>"

definition edge_changes where
  "edge_changes names e = e\<lparr>d_changes := d_changes e @ names\<rparr>"

definition edge_writes where
  "edge_writes names e = e\<lparr>d_writes := d_writes e @ names\<rparr>"

text \<open>
  A gate or an effect over an edge's own argument, lifted to the edge: \<open>None\<close> when the projection
  misses.
\<close>

definition lift_gate ::
  "('e \<Rightarrow> 'a option)
    \<Rightarrow> (('sp, 's, 'wd, 'w) handle \<Rightarrow> 'a \<Rightarrow> ('r + unit) \<times> ('sp, 's, 'wd, 'w) handle)
    \<Rightarrow> ('sp, 's, 'wd, 'w) handle \<Rightarrow> 'e \<Rightarrow> ('r + unit) option \<times> ('sp, 's, 'wd, 'w) handle" where
  "lift_gate project gate h edge =
    (case project edge of
       None \<Rightarrow> (None, h)
     | Some arg \<Rightarrow> (case gate h arg of (r, h') \<Rightarrow> (Some r, h')))"

definition lift_effect ::
  "('e \<Rightarrow> 'a option)
    \<Rightarrow> (('sp, 's, 'wd, 'w) handle \<Rightarrow> 's \<Rightarrow> 'a \<Rightarrow> 's \<times> ('sp, 's, 'wd, 'w) handle)
    \<Rightarrow> ('sp, 's, 'wd, 'w) handle \<Rightarrow> 's \<Rightarrow> 'e \<Rightarrow> 's option \<times> ('sp, 's, 'wd, 'w) handle" where
  "lift_effect project effect h state edge =
    (case project edge of
       None \<Rightarrow> (None, h)
     | Some arg \<Rightarrow> (case effect h state arg of (s, h') \<Rightarrow> (Some s, h')))"

definition edge_gate ::
  "('e \<Rightarrow> 'a option) \<Rightarrow> string
    \<Rightarrow> (('sp, 's, 'wd, 'w) handle \<Rightarrow> 'a \<Rightarrow> ('r + unit) \<times> ('sp, 's, 'wd, 'w) handle)
    \<Rightarrow> ('l, 'k, 's, 'e, 'sp, 'wd, 'w, 'r) declared_edge
    \<Rightarrow> ('l, 'k, 's, 'e, 'sp, 'wd, 'w, 'r) declared_edge" where
  "edge_gate project doc gate e = e\<lparr>d_check := Some (Gate doc (lift_gate project gate))\<rparr>"

definition edge_ungated where
  "edge_ungated reason e = e\<lparr>d_check := Some (Ungated reason)\<rparr>"

definition edge_effect ::
  "('e \<Rightarrow> 'a option)
    \<Rightarrow> (('sp, 's, 'wd, 'w) handle \<Rightarrow> 's \<Rightarrow> 'a \<Rightarrow> 's \<times> ('sp, 's, 'wd, 'w) handle)
    \<Rightarrow> ('l, 'k, 's, 'e, 'sp, 'wd, 'w, 'r) declared_edge
    \<Rightarrow> ('l, 'k, 's, 'e, 'sp, 'wd, 'w, 'r) declared_edge" where
  "edge_effect project effect e = e\<lparr>d_effect := Some (lift_effect project effect)\<rparr>"

definition edge_about where
  "edge_about project master e = e\<lparr>d_master := Some (\<lambda>edge. map_option master (project edge))\<rparr>"

definition machine_new :: "'l \<Rightarrow> ('l, 'k, 's, 'e, 'sp, 'wd, 'w, 'r) machine_def" where
  "machine_new initial = \<lparr>md_initial = initial, md_edges = [], md_ends = [], md_by_kind = []\<rparr>"

definition machine_edge ::
  "('l, 'k, 's, 'e, 'sp, 'wd, 'w, 'r) declared_edge
    \<Rightarrow> ('l, 'k, 's, 'e, 'sp, 'wd, 'w, 'r) machine_def
    \<Rightarrow> ('l, 'k, 's, 'e, 'sp, 'wd, 'w, 'r) machine_def" where
  "machine_edge e d =
    d\<lparr>md_by_kind :=
        (if map_of (md_by_kind d) (d_kind e) = None
         then (d_kind e, length (md_edges d)) # md_by_kind d else md_by_kind d),
      md_edges := md_edges d @ [e]\<rparr>"

definition machine_end where
  "machine_end label reason d = d\<lparr>md_ends := md_ends d @ [(label, reason)]\<rparr>"

definition find_edge ::
  "('l, 'k, 's, 'e, 'sp, 'wd, 'w, 'r) machine_def \<Rightarrow> 'k
    \<Rightarrow> ('l, 'k, 's, 'e, 'sp, 'wd, 'w, 'r) declared_edge option" where
  "find_edge d kind = map_option (nth (md_edges d)) (map_of (md_by_kind d) kind)"

definition end_reason :: "('l, 'k, 's, 'e, 'sp, 'wd, 'w, 'r) machine_def \<Rightarrow> 'l \<Rightarrow> string option" where
  "end_reason d label = map_option snd (find (\<lambda>e. fst e = label) (md_ends d))"

section \<open>The trait\<close>

datatype no_records = NoRecords

record ('l, 'k, 's, 'e, 'sp, 'wd, 'w, 'r, 'd, 'rq) machine =
  m_name :: string
  m_label :: "'s \<Rightarrow> 'l"
  m_data :: "'s \<Rightarrow> (string \<times> 'd) list"
  m_fields :: "'l \<Rightarrow> string list"
  m_labels :: "'l list"
  m_label_name :: "'l \<Rightarrow> string"
  m_label_code :: "'l \<Rightarrow> string"
  m_kind :: "'e \<Rightarrow> 'k"
  m_kinds :: "'k list"
  m_kind_name :: "'k \<Rightarrow> string"
  m_kind_code :: "'k \<Rightarrow> string"
  m_write_field :: "'w \<Rightarrow> string"
  m_write_apply :: "'w \<Rightarrow> nat \<Rightarrow> 'sp \<Rightarrow> records_full + 'sp"
  m_ended :: "'l \<Rightarrow> string \<Rightarrow> 'r"
  m_wrong_state :: "'l \<Rightarrow> 'k \<Rightarrow> 'r"
  m_definition :: "('l, 'k, 's, 'e, 'sp, 'wd, 'w, 'r) machine_def"
  m_admit :: "'wd admission \<Rightarrow> 'rq \<Rightarrow> ('r + 'sp \<times> 's) \<times> 'wd admission"

definition master ::
  "('l, 'k, 's, 'e, 'sp, 'wd, 'w, 'r, 'd, 'rq) machine \<Rightarrow> 'e \<Rightarrow> string option" where
  "master M edge =
    Option.bind (find_edge (m_definition M) (m_kind M edge))
      (\<lambda>declared. Option.bind (d_master declared) (\<lambda>f. f edge))"

section \<open>Steps\<close>

datatype ('l, 'k) fault =
  Undeclared 'k
| Target 'k 'l
| Changes 'k "string list"
| Writes 'k "string list"
| Initial 'l

datatype ('l, 'k, 'r) step_error = Refused 'r | Fault "('l, 'k) fault"

text \<open>What follows an accepted check: the effect, then the three checks on what it did.\<close>

definition step_effect ::
  "('l, 'k, 's, 'e, 'sp, 'wd, 'w, 'r, 'd, 'rq) machine
    \<Rightarrow> ('l, 'k, 's, 'e, 'sp, 'wd, 'w, 'r) declared_edge \<Rightarrow> nat \<Rightarrow> 's \<Rightarrow> 'e
    \<Rightarrow> ('sp, 's, 'wd, 'w) handle \<Rightarrow> (('l, 'k, 'r) step_error + 's) \<times> ('sp, 's, 'wd, 'w) handle" where
  "step_effect M declared written state edge h =
    (let kind = m_kind M edge in
     if length (h_writes h) \<noteq> written
     then (Inl (Fault (Writes kind (map (m_write_field M) (drop written (h_writes h))))), h)
     else (case d_effect declared of
       None \<Rightarrow> (Inl (Fault (Undeclared kind)), h)
     | Some effect \<Rightarrow> (case effect h state edge of
         (None, h') \<Rightarrow> (Inl (Fault (Undeclared kind)), h')
       | (Some next, h') \<Rightarrow>
           (let stray = filter (\<lambda>f. f \<notin> set (d_writes declared))
                          (map (m_write_field M) (drop written (h_writes h')));
                stray_data = filter (\<lambda>n. n \<notin> set (d_changes declared))
                          (changed (m_data M state) (m_data M next))
            in if stray \<noteq> [] then (Inl (Fault (Writes kind stray)), h')
               else if m_label M next \<notin> set (d_to declared)
               then (Inl (Fault (Target kind (m_label M next))), h')
               else if stray_data \<noteq> [] then (Inl (Fault (Changes kind stray_data)), h')
               else (Inr next, h')))))"

definition step ::
  "('l, 'k, 's, 'e, 'sp, 'wd, 'w, 'r, 'd, 'rq) machine \<Rightarrow> 'e
    \<Rightarrow> ('sp, 's, 'wd, 'w) handle \<Rightarrow> (('l, 'k, 'r) step_error + 's) \<times> ('sp, 's, 'wd, 'w) handle" where
  "step M edge h =
    (let state = h_state h; label = m_label M state; kind = m_kind M edge;
         d = m_definition M; written = length (h_writes h)
     in case end_reason d label of
       Some reason \<Rightarrow> (Inl (Refused (m_ended M label reason)), h)
     | None \<Rightarrow> (case find_edge d kind of
         None \<Rightarrow> (Inl (Fault (Undeclared kind)), h)
       | Some declared \<Rightarrow>
           if label \<notin> set (d_from declared)
           then (Inl (Refused (m_wrong_state M label kind)), h)
           else (case d_check declared of
             None \<Rightarrow> (Inl (Fault (Undeclared kind)), h)
           | Some (Ungated reason) \<Rightarrow> step_effect M declared written state edge h
           | Some (Gate doc gate) \<Rightarrow> (case gate h edge of
               (None, h') \<Rightarrow> (Inl (Fault (Undeclared kind)), h')
             | (Some (Inl refusal), h') \<Rightarrow> (Inl (Refused refusal), h')
             | (Some (Inr u), h') \<Rightarrow> step_effect M declared written state edge h'))))"

section \<open>Validation\<close>

datatype def_error =
  DuplicateEdge string
| UndeclaredEdge string
| NameClash string
| UngatedEdge string
| UngatedWithoutReason string
| EdgeWithoutEffect string
| EdgeWithoutTarget string
| EdgeWithoutSource string
| InertEdge string
| UnknownData string string
| EdgeLeavesEnd string string
| EndWithoutReason string
| DuplicateEnd string
| UnreachableState string
| DeadState string
| DuplicateStateCode string
| DuplicateEdgeCode string

text \<open>The order \<open>derive(Ord)\<close> gives: the variant's place, then its fields.\<close>

fun def_error_key :: "def_error \<Rightarrow> nat \<times> string \<times> string" where
  "def_error_key (DuplicateEdge a) = (0, a, [])"
| "def_error_key (UndeclaredEdge a) = (1, a, [])"
| "def_error_key (NameClash a) = (2, a, [])"
| "def_error_key (UngatedEdge a) = (3, a, [])"
| "def_error_key (UngatedWithoutReason a) = (4, a, [])"
| "def_error_key (EdgeWithoutEffect a) = (5, a, [])"
| "def_error_key (EdgeWithoutTarget a) = (6, a, [])"
| "def_error_key (EdgeWithoutSource a) = (7, a, [])"
| "def_error_key (InertEdge a) = (8, a, [])"
| "def_error_key (UnknownData a b) = (9, a, b)"
| "def_error_key (EdgeLeavesEnd a b) = (10, a, b)"
| "def_error_key (EndWithoutReason a) = (11, a, [])"
| "def_error_key (DuplicateEnd a) = (12, a, [])"
| "def_error_key (UnreachableState a) = (13, a, [])"
| "def_error_key (DeadState a) = (14, a, [])"
| "def_error_key (DuplicateStateCode a) = (15, a, [])"
| "def_error_key (DuplicateEdgeCode a) = (16, a, [])"

lemma def_error_key_inject: "def_error_key a = def_error_key b \<Longrightarrow> a = b"
  by (cases a; cases b) simp_all

instantiation def_error :: linorder
begin

definition less_eq_def_error :: "def_error \<Rightarrow> def_error \<Rightarrow> bool" where
  "less_eq_def_error a b \<longleftrightarrow> def_error_key a \<le> def_error_key b"

definition less_def_error :: "def_error \<Rightarrow> def_error \<Rightarrow> bool" where
  "less_def_error a b \<longleftrightarrow> def_error_key a < def_error_key b"

instance
  by standard
    (auto simp: less_eq_def_error_def less_def_error_def def_error_key_inject less_le_not_le)

end

text \<open>\<open>str::trim\<close> leaves nothing of a string of (ASCII) white space.\<close>

definition blank :: "string \<Rightarrow> bool" where
  "blank s = list_all (\<lambda>c. let n = (of_char c :: nat) in n = 32 \<or> (9 \<le> n \<and> n \<le> 13)) s"

definition to_ascii_lowercase :: "char \<Rightarrow> char" where
  "to_ascii_lowercase c =
    (let n = (of_char c :: nat) in if 65 \<le> n \<and> n \<le> 90 then char_of (n + 32) else c)"

definition squash :: "string \<Rightarrow> string" where
  "squash name = map to_ascii_lowercase (filter (\<lambda>c. c \<noteq> CHR ''_'') name)"

text \<open>The elements a \<open>BTreeSet::insert\<close> loop finds already there.\<close>

fun repeats :: "'a list \<Rightarrow> 'a list \<Rightarrow> 'a list" where
  "repeats seen [] = []"
| "repeats seen (x # xs) = (if x \<in> set seen then [x] else []) @ repeats (x # seen) xs"

type_synonym 'l arcs = "('l list \<times> 'l list) list"

definition successors :: "'l arcs \<Rightarrow> 'l \<Rightarrow> 'l list" where
  "successors arcs label = concat (map snd (filter (\<lambda>arc. label \<in> set (fst arc)) arcs))"

text \<open>
  The search of \<open>validate\<close> over the edges' labels: \<open>frontier\<close> is a stack whose last element is
  popped.
\<close>

function search :: "'l arcs \<Rightarrow> 'l list \<Rightarrow> 'l list \<Rightarrow> 'l list" where
  "search arcs frontier reached =
    (if frontier = [] then reached
     else if last frontier \<in> set reached then search arcs (butlast frontier) reached
     else search arcs (butlast frontier @ successors arcs (last frontier)) (last frontier # reached))"
  by pat_completeness auto

definition arcs_of ::
  "('l, 'k, 's, 'e, 'sp, 'wd, 'w, 'r) declared_edge list \<Rightarrow> 'l arcs" where
  "arcs_of edges = map (\<lambda>e. (d_from e, d_to e)) edges"

definition edge_errors ::
  "('l, 'k, 's, 'e, 'sp, 'wd, 'w, 'r, 'd, 'rq) machine
    \<Rightarrow> ('l, 'k, 's, 'e, 'sp, 'wd, 'w, 'r) declared_edge \<Rightarrow> def_error list" where
  "edge_errors M e =
    (let name = m_kind_name M (d_kind e); ends = md_ends (m_definition M) in
       (if squash name \<in> set (map (squash \<circ> m_label_name M) (m_labels M)) then [NameClash name] else [])
     @ (case d_check e of
          None \<Rightarrow> [UngatedEdge name]
        | Some (Ungated reason) \<Rightarrow> if blank reason then [UngatedWithoutReason name] else []
        | Some (Gate doc gate) \<Rightarrow> [])
     @ (if d_effect e = None then [EdgeWithoutEffect name] else [])
     @ (if d_to e = [] then [EdgeWithoutTarget name] else [])
     @ (if d_from e = [] then [EdgeWithoutSource name] else [])
     @ (if d_changes e = [] \<and> d_writes e = [] \<and> d_master e = None \<and> d_from e \<noteq> [] \<and> d_to e \<noteq> []
           \<and> list_all (\<lambda>f. list_all (\<lambda>t. f = t) (d_to e)) (d_from e)
        then [InertEdge name] else [])
     @ map (UnknownData name)
         (filter (\<lambda>n. \<not> list_ex (\<lambda>label. n \<in> set (m_fields M label)) (d_to e)) (d_changes e))
     @ map (\<lambda>end. EdgeLeavesEnd name (m_label_name M (fst end)))
         (filter (\<lambda>end. fst end \<in> set (d_from e)) ends))"

definition validate_errors ::
  "('l, 'k, 's, 'e, 'sp, 'wd, 'w, 'r, 'd, 'rq) machine \<Rightarrow> def_error list" where
  "validate_errors M =
    (let d = m_definition M; edges = md_edges d; ends = md_ends d;
         declared = map d_kind edges;
         reached = search (arcs_of edges) [md_initial d] []
     in map (DuplicateEdge \<circ> m_kind_name M) (repeats [] declared)
      @ concat (map (edge_errors M) edges)
      @ map (UndeclaredEdge \<circ> m_kind_name M) (filter (\<lambda>k. k \<notin> set declared) (m_kinds M))
      @ map (DuplicateEnd \<circ> m_label_name M) (repeats [] (map fst ends))
      @ map (EndWithoutReason \<circ> m_label_name M \<circ> fst) (filter (blank \<circ> snd) ends)
      @ map (UnreachableState \<circ> m_label_name M) (filter (\<lambda>l. l \<notin> set reached) (m_labels M))
      @ map (DeadState \<circ> m_label_name M)
          (filter (\<lambda>l. l \<notin> set (map fst ends) \<and> \<not> list_ex (\<lambda>e. l \<in> set (d_from e)) edges) (m_labels M))
      @ map DuplicateStateCode (repeats [] (map (m_label_code M) (m_labels M)))
      @ map DuplicateEdgeCode (repeats [] (map (m_kind_code M) (m_kinds M))))"

definition validate ::
  "('l, 'k, 's, 'e, 'sp, 'wd, 'w, 'r, 'd, 'rq) machine \<Rightarrow> def_error list + unit" where
  "validate M =
    (let errors = bs_of_list (validate_errors M) in if errors = [] then Inr () else Inl errors)"

section \<open>Lemmas: the search\<close>

lemma set_last_butlast: "xs \<noteq> [] \<Longrightarrow> set xs = insert (last xs) (set (butlast xs))"
  by (cases xs rule: rev_cases) auto

lemma successors_subset: "set (successors arcs l) \<subseteq> \<Union> (set ` snd ` set arcs)"
  by (auto simp: successors_def)

termination search
proof (relation "measures [\<lambda>(arcs, frontier, reached).
    card ((set frontier \<union> \<Union> (set ` snd ` set arcs)) - set reached),
    \<lambda>(arcs, frontier, reached). length frontier]", goal_cases)
  case (2 arcs frontier reached)
  let ?A = "(set frontier \<union> \<Union> (set ` snd ` set arcs)) - set reached"
  let ?B = "(set (butlast frontier) \<union> \<Union> (set ` snd ` set arcs)) - set reached"
  have "?B = ?A"
    using 2 by (simp add: set_last_butlast Un_Diff insert_Diff_if)
  with 2 show ?case
    by simp
next
  case (3 arcs frontier reached)
  let ?A = "(set frontier \<union> \<Union> (set ` snd ` set arcs)) - set reached"
  let ?B = "(set (butlast frontier @ successors arcs (last frontier))
        \<union> \<Union> (set ` snd ` set arcs)) - set (last frontier # reached)"
  have "?B \<subseteq> ?A"
    using successors_subset [of arcs "last frontier"] set_last_butlast [OF 3(1)] by fastforce
  moreover have "last frontier \<in> ?A" "last frontier \<notin> ?B"
    using 3 by simp_all
  ultimately have "?B \<subset> ?A"
    by blast
  then have "card ?B < card ?A"
    by (intro psubset_card_mono) simp_all
  then show ?case
    by simp
qed simp

declare search.simps [simp del]

lemma search_Nil: "search arcs [] reached = reached"
  by (simp add: search.simps)

lemma search_seen:
  "frontier \<noteq> [] \<Longrightarrow> last frontier \<in> set reached
    \<Longrightarrow> search arcs frontier reached = search arcs (butlast frontier) reached"
  by (subst search.simps) simp

lemma search_new:
  "frontier \<noteq> [] \<Longrightarrow> last frontier \<notin> set reached
    \<Longrightarrow> search arcs frontier reached
      = search arcs (butlast frontier @ successors arcs (last frontier)) (last frontier # reached)"
  by (subst search.simps) simp

text \<open>One label reaches another through a declared edge.\<close>

definition leads :: "'l arcs \<Rightarrow> ('l \<times> 'l) set" where
  "leads arcs = {(a, b). \<exists>(from_labels, to_labels) \<in> set arcs. a \<in> set from_labels \<and> b \<in> set to_labels}"

lemma successors_leads: "b \<in> set (successors arcs a) \<longleftrightarrow> (a, b) \<in> leads arcs"
  by (force simp: successors_def leads_def)

lemma search_sound:
  assumes "set frontier \<union> set reached \<subseteq> (leads arcs)\<^sup>* `` {i}"
  shows "set (search arcs frontier reached) \<subseteq> (leads arcs)\<^sup>* `` {i}"
  using assms
proof (induction arcs frontier reached rule: search.induct)
  case (1 arcs frontier reached)
  show ?case
  proof (cases "frontier = []")
    case True
    with 1 show ?thesis
      by (simp add: search.simps)
  next
    case False
    then have mem: "(i, last frontier) \<in> (leads arcs)\<^sup>*"
      using "1.prems" last_in_set by blast
    have "set (successors arcs (last frontier)) \<subseteq> (leads arcs)\<^sup>* `` {i}"
      using mem by (auto simp: successors_leads intro: rtrancl_into_rtrancl)
    with False mem show ?thesis
      using "1.IH" "1.prems" by (subst search.simps) (auto dest: in_set_butlastD)
  qed
qed

lemma search_complete:
  assumes "leads arcs `` set reached \<subseteq> set reached \<union> set frontier"
  shows "set frontier \<union> set reached \<subseteq> set (search arcs frontier reached)
    \<and> leads arcs `` set (search arcs frontier reached) \<subseteq> set (search arcs frontier reached)"
  using assms
proof (induction arcs frontier reached rule: search.induct)
  case (1 arcs frontier reached)
  consider (Nil) "frontier = []" | (seen) "frontier \<noteq> []" "last frontier \<in> set reached"
    | (fresh) "frontier \<noteq> []" "last frontier \<notin> set reached"
    by blast
  then show ?case
  proof cases
    case Nil
    with "1.prems" show ?thesis
      by (simp add: search_Nil)
  next
    case seen
    have "leads arcs `` set reached \<subseteq> set reached \<union> set (butlast frontier)"
      using "1.prems" seen(2) by (simp add: set_last_butlast [OF seen(1)] insert_absorb)
    from "1.IH"(1) [OF seen this] show ?thesis
      using set_last_butlast [OF seen(1)] seen(2) by (auto simp: search_seen [OF seen])
  next
    case fresh
    have "leads arcs `` set (last frontier # reached)
        \<subseteq> set (last frontier # reached) \<union> set (butlast frontier @ successors arcs (last frontier))"
      using "1.prems" set_last_butlast [OF fresh(1)] by (auto simp: successors_leads)
    from "1.IH"(2) [OF fresh this] show ?thesis
      using set_last_butlast [OF fresh(1)] by (simp add: search_new [OF fresh])
  qed
qed

lemma search_reachable: "set (search arcs [i] []) = (leads arcs)\<^sup>* `` {i}"
proof
  show "set (search arcs [i] []) \<subseteq> (leads arcs)\<^sup>* `` {i}"
    by (rule search_sound) auto
  have closed: "i \<in> set (search arcs [i] [])"
    "\<And>a b. a \<in> set (search arcs [i] []) \<Longrightarrow> (a, b) \<in> leads arcs \<Longrightarrow> b \<in> set (search arcs [i] [])"
    using search_complete [of arcs "[]" "[i]"] by auto
  have "l \<in> set (search arcs [i] [])" if "(i, l) \<in> (leads arcs)\<^sup>*" for l
    using that by (induction) (auto intro: closed)
  then show "(leads arcs)\<^sup>* `` {i} \<subseteq> set (search arcs [i] [])"
    by auto
qed

section \<open>Lemmas: declarations\<close>

lemmas edge_builder_defs = edge_new_def edge_from_def edge_to_def edge_changes_def edge_writes_def
  edge_gate_def edge_ungated_def edge_effect_def edge_about_def

lemmas machine_builder_defs = machine_new_def machine_edge_def machine_end_def

text \<open>
  What the builders keep: a kind's index is that of its first declaration, so \<open>find_edge\<close> finds
  it.
\<close>

definition def_inv :: "('l, 'k, 's, 'e, 'sp, 'wd, 'w, 'r) machine_def \<Rightarrow> bool" where
  "def_inv d \<longleftrightarrow>
    (\<forall>k. case map_of (md_by_kind d) k of
       None \<Rightarrow> k \<notin> d_kind ` set (md_edges d)
     | Some i \<Rightarrow> i < length (md_edges d) \<and> d_kind (md_edges d ! i) = k
         \<and> (\<forall>j < i. d_kind (md_edges d ! j) \<noteq> k))"

lemma def_inv_new: "def_inv (machine_new l)"
  by (simp add: def_inv_def machine_new_def)

lemma def_inv_end: "def_inv d \<Longrightarrow> def_inv (machine_end l r d)"
  by (simp add: def_inv_def machine_end_def cong: option.case_cong)

lemma def_inv_edge:
  assumes "def_inv d"
  shows "def_inv (machine_edge e d)"
  unfolding def_inv_def
proof
  fix k
  have d: "case map_of (md_by_kind d) k of
       None \<Rightarrow> k \<notin> d_kind ` set (md_edges d)
     | Some i \<Rightarrow> i < length (md_edges d) \<and> d_kind (md_edges d ! i) = k
         \<and> (\<forall>j < i. d_kind (md_edges d ! j) \<noteq> k)"
    using assms by (simp add: def_inv_def)
  have fresh: "d_kind (md_edges d ! j) \<noteq> k"
    if "k \<notin> d_kind ` set (md_edges d)" "j < length (md_edges d)" for j
    using that by auto
  show "case map_of (md_by_kind (machine_edge e d)) k of
       None \<Rightarrow> k \<notin> d_kind ` set (md_edges (machine_edge e d))
     | Some i \<Rightarrow> i < length (md_edges (machine_edge e d)) \<and> d_kind (md_edges (machine_edge e d) ! i) = k
         \<and> (\<forall>j < i. d_kind (md_edges (machine_edge e d) ! j) \<noteq> k)"
    using d fresh by (cases "map_of (md_by_kind d) k") (auto simp: machine_edge_def nth_append)
qed

lemmas def_inv_intros = def_inv_new def_inv_edge def_inv_end

lemma find_edge_SomeD:
  assumes "def_inv d" "find_edge d k = Some e"
  shows "e \<in> set (md_edges d)" "d_kind e = k"
proof -
  obtain i where "map_of (md_by_kind d) k = Some i" "e = md_edges d ! i"
    using assms(2) by (auto simp: find_edge_def)
  moreover have "case map_of (md_by_kind d) k of
       None \<Rightarrow> k \<notin> d_kind ` set (md_edges d)
     | Some i \<Rightarrow> i < length (md_edges d) \<and> d_kind (md_edges d ! i) = k
         \<and> (\<forall>j < i. d_kind (md_edges d ! j) \<noteq> k)"
    using assms(1) unfolding def_inv_def by blast
  ultimately show "e \<in> set (md_edges d)" "d_kind e = k"
    by simp_all
qed

lemma find_edge_None: "def_inv d \<Longrightarrow> find_edge d k = None \<longleftrightarrow> k \<notin> d_kind ` set (md_edges d)"
  unfolding find_edge_def def_inv_def
  by (drule spec [of _ k]) (auto split: option.splits)

lemma repeats_Nil_iff: "repeats seen xs = [] \<longleftrightarrow> distinct xs \<and> set xs \<inter> set seen = {}"
  by (induction xs arbitrary: seen) auto

lemma bs_of_list_Nil_iff [simp]: "bs_of_list xs = [] \<longleftrightarrow> xs = []"
  by (metis bs_of_list_def empty_set set_bs_of_list set_empty)

lemma validate_ok_iff: "validate M = Inr () \<longleftrightarrow> validate_errors M = []"
  by (simp add: validate_def Let_def)

lemma end_reason_None: "end_reason d l = None \<longleftrightarrow> l \<notin> fst ` set (md_ends d)"
  by (force simp: end_reason_def find_None_iff)

text \<open>What an edge without errors has.\<close>

lemma edge_errors_Nil:
  assumes "edge_errors M e = []"
  shows "d_check e \<noteq> None" "d_effect e \<noteq> None" "d_to e \<noteq> []" "d_from e \<noteq> []"
    "l \<in> set (d_from e) \<Longrightarrow> end_reason (m_definition M) l = None"
    "n \<in> set (d_changes e) \<Longrightarrow> \<exists>l \<in> set (d_to e). n \<in> set (m_fields M l)"
    "squash (m_kind_name M (d_kind e)) \<notin> squash ` m_label_name M ` set (m_labels M)"
  using assms
  by (auto simp: edge_errors_def Let_def end_reason_None filter_empty_conv list_ex_iff image_image
      split: if_splits option.splits)

section \<open>Lemmas: steps\<close>

text \<open>
  The inversion of an accepted step: everything the engine checked.
\<close>

lemma step_effect_InrD:
  assumes "step_effect M declared written state edge h = (Inr next, h')"
  obtains effect where "d_effect declared = Some effect" "effect h state edge = (Some next, h')"
    "length (h_writes h) = written"
    "m_write_field M ` set (drop written (h_writes h')) \<subseteq> set (d_writes declared)"
    "m_label M next \<in> set (d_to declared)"
    "set (changed (m_data M state) (m_data M next)) \<subseteq> set (d_changes declared)"
  using assms
  by (auto simp: step_effect_def Let_def filter_empty_conv split: if_splits option.splits prod.splits)

lemma step_InrD:
  assumes "step M edge h = (Inr next, h')"
  obtains declared effect h1 where
    "end_reason (m_definition M) (m_label M (h_state h)) = None"
    "find_edge (m_definition M) (m_kind M edge) = Some declared"
    "m_label M (h_state h) \<in> set (d_from declared)"
    "(\<exists>doc gate. d_check declared = Some (Gate doc gate) \<and> gate h edge = (Some (Inr ()), h1))
      \<or> (\<exists>reason. d_check declared = Some (Ungated reason) \<and> h1 = h)"
    "d_effect declared = Some effect" "effect h1 (h_state h) edge = (Some next, h')"
    "length (h_writes h1) = length (h_writes h)"
    "m_write_field M ` set (drop (length (h_writes h)) (h_writes h')) \<subseteq> set (d_writes declared)"
    "m_label M next \<in> set (d_to declared)"
    "set (changed (m_data M (h_state h)) (m_data M next)) \<subseteq> set (d_changes declared)"
  using assms unfolding step_def Let_def
  by (auto split: option.splits if_splits check.splits prod.splits sum.splits
      elim!: step_effect_InrD)

lemma step_ended:
  "end_reason (m_definition M) (m_label M (h_state h)) = Some reason
    \<Longrightarrow> step M edge h = (Inl (Refused (m_ended M (m_label M (h_state h)) reason)), h)"
  by (simp add: step_def Let_def)

lemma changed_refl [simp]: "changed d d = []"
  by (auto simp: changed_def filter_empty_conv list_ex_iff simp del: split_paired_Ex)

lemma set_changed: "set (changed before after) = fst ` (set after - set before)"
  by (force simp: changed_def list_ex_iff)

lemma changed_subset:
  "set (changed before after) \<subseteq> S
    \<longleftrightarrow> list_all (\<lambda>nv. fst nv \<in> S \<or> nv \<in> set before) after"
  by (auto simp: set_changed list_all_iff)

text \<open>
  A step over an edge declared with a gate and an effect, when the effect keeps to its
  declaration: the gate decides, and the effect is the answer. The concrete machines' steps are
  computed with it, so none of them faults.
\<close>

definition gated ::
  "('r + unit) \<times> ('sp, 's, 'wd, 'w) handle
    \<Rightarrow> (('sp, 's, 'wd, 'w) handle \<Rightarrow> 's \<times> ('sp, 's, 'wd, 'w) handle)
    \<Rightarrow> (('l, 'k, 'r) step_error + 's) \<times> ('sp, 's, 'wd, 'w) handle" where
  "gated gate effect =
    (case gate of
       (Inl r, h) \<Rightarrow> (Inl (Refused r), h)
     | (Inr _, h) \<Rightarrow> (case effect h of (s, h') \<Rightarrow> (Inr s, h')))"

lemma step_effect_fits:
  assumes "d_effect d = Some (lift_effect p eff)" "p edge = Some arg"
    and "length (h_writes h) = written" "eff h state arg = (n, h')"
    and "m_write_field M ` set (drop written (h_writes h')) \<subseteq> set (d_writes d)"
    and "m_label M n \<in> set (d_to d)"
    and "set (changed (m_data M state) (m_data M n)) \<subseteq> set (d_changes d)"
  shows "step_effect M d written state edge h = (Inr n, h')"
proof -
  have "filter (\<lambda>f. f \<notin> set (d_writes d)) (map (m_write_field M) (drop written (h_writes h'))) = []"
    "filter (\<lambda>n. n \<notin> set (d_changes d)) (changed (m_data M state) (m_data M n)) = []"
    using assms(5,7) by (auto simp: filter_empty_conv)
  with assms show ?thesis
    by (simp add: step_effect_def lift_effect_def Let_def)
qed

lemma step_of_gated:
  assumes "end_reason (m_definition M) (m_label M (h_state h)) = None"
    and "find_edge (m_definition M) (m_kind M edge) = Some d"
    and "m_label M (h_state h) \<in> set (d_from d)"
    and "d_check d = Some (Gate doc (lift_gate p gate))" "d_effect d = Some (lift_effect p eff)"
    and "p edge = Some arg" "same_view h (snd (gate h arg))"
    and fits: "\<And>h1. gate h arg = (Inr (), h1) \<Longrightarrow> same_view h h1 \<Longrightarrow>
      m_write_field M ` set (drop (length (h_writes h1)) (h_writes (snd (eff h1 (h_state h) arg))))
        \<subseteq> set (d_writes d)
      \<and> m_label M (fst (eff h1 (h_state h) arg)) \<in> set (d_to d)
      \<and> set (changed (m_data M (h_state h)) (m_data M (fst (eff h1 (h_state h) arg))))
        \<subseteq> set (d_changes d)"
  shows "step M edge h = gated (gate h arg) (\<lambda>h1. eff h1 (h_state h) arg)"
proof -
  obtain r h1 where g: "gate h arg = (r, h1)"
    by (cases "gate h arg")
  show ?thesis
  proof (cases r)
    case (Inl x)
    with assms g show ?thesis
      by (simp add: step_def gated_def lift_gate_def Let_def)
  next
    case (Inr u)
    obtain n h2 where e: "eff h1 (h_state h) arg = (n, h2)"
      by (cases "eff h1 (h_state h) arg")
    have "same_view h h1"
      using assms(7) g by simp
    with fits [of h1] g Inr
    have "step_effect M d (length (h_writes h)) (h_state h) edge h1 = (Inr n, h2)"
      using assms(5,6) e
      by (intro step_effect_fits [where p = p and eff = eff]) (simp_all add: same_view_def)
    with assms g Inr e show ?thesis
      by (simp add: step_def gated_def lift_gate_def Let_def)
  qed
qed

lemma step_of_ungated:
  assumes "end_reason (m_definition M) (m_label M (h_state h)) = None"
    and "find_edge (m_definition M) (m_kind M edge) = Some d"
    and "m_label M (h_state h) \<in> set (d_from d)"
    and "d_check d = Some (Ungated reason)" "d_effect d = Some (lift_effect p eff)"
    and "p edge = Some arg"
    and "m_write_field M ` set (drop (length (h_writes h)) (h_writes (snd (eff h (h_state h) arg))))
      \<subseteq> set (d_writes d)"
    and "m_label M (fst (eff h (h_state h) arg)) \<in> set (d_to d)"
    and "set (changed (m_data M (h_state h)) (m_data M (fst (eff h (h_state h) arg))))
      \<subseteq> set (d_changes d)"
  shows "step M edge h = (case eff h (h_state h) arg of (n, h') \<Rightarrow> (Inr n, h'))"
  using assms step_effect_fits [of d p eff edge arg h "length (h_writes h)" "h_state h"
      "fst (eff h (h_state h) arg)" "snd (eff h (h_state h) arg)" M]
  by (simp add: step_def Let_def split_beta)

lemma step_wrong_state:
  assumes "end_reason (m_definition M) (m_label M (h_state h)) = None"
    and "find_edge (m_definition M) (m_kind M edge) = Some d"
    and "m_label M (h_state h) \<notin> set (d_from d)"
  shows "step M edge h = (Inl (Refused (m_wrong_state M (m_label M (h_state h)) (m_kind M edge))), h)"
  using assms by (simp add: step_def Let_def)

lemma gated_Inr:
  "gated g eff = (Inr n, h') \<longleftrightarrow> (\<exists>h1. g = (Inr (), h1) \<and> eff h1 = (n, h'))"
  by (auto simp: gated_def split: prod.splits sum.splits)

lemma gated_no_fault [simp]: "fst (gated g eff) \<noteq> Inl (Fault f)"
  by (auto simp: gated_def split: prod.splits sum.splits)

lemma gated_accepts:
  assumes "is_ok (fst g)"
  shows "fst (gated g eff) = Inr (fst (eff (snd g)))"
  using assms by (cases g) (auto simp: gated_def is_ok_iff split: prod.splits)

lemma fst_gated: "fst (gated g (\<lambda>h. (s, h)))
    = (case fst g of Inl r \<Rightarrow> Inl (Refused r) | Inr u \<Rightarrow> Inr s)"
  by (auto simp: gated_def split: prod.splits sum.splits)

end
