(* ===== verification/Home.thy ===== *)
theory Home
  imports Machine
begin

text \<open>
  The single writer: \<open>src/crates/flotilla-state-machines/src/log.rs\<close>, \<open>record.rs\<close> and \<open>home.rs\<close>.

  The trait \<open>Log\<close> is the record \<open>log_ops\<close> over a log's own state; its two default methods are
  definitions, and \<open>MemoryLog\<close> is an instance. A home holds its resources by name and its log;
  every operation returns the outcome with the home it leaves, so that what a refusal leaves
  behind is a statement about values.

  The locale \<open>edge_log\<close> is what a home relies on of its log, and \<open>record_writes\<close> what it relies
  on of a machine's records writes. The first is discharged here for \<open>MemoryLog\<close>, the second by
  each machine. \<open>machine_invariant\<close> carries a property of one resource through every operation of
  a home; each machine's theory interprets it on its own invariant.
\<close>

section \<open>Events and logs\<close>

datatype transport = Turn | Notify | Mute

record 'e edge_payload =
  p_edge :: 'e
  p_reads :: "input_read list"

record ('l, 'k, 'e) edge_event =
  ev_edge :: 'k
  ev_from :: 'l
  ev_to :: 'l
  ev_at :: timestamp
  ev_arguments :: "'e edge_payload"

type_synonym log_error = string

record ('lg, 'sp, 's, 'w, 'l, 'k, 'e) log_ops =
  log_create_resource ::
    "string \<Rightarrow> timestamp \<Rightarrow> ('sp, 's) resource \<Rightarrow> input_read list \<Rightarrow> 'lg
      \<Rightarrow> (log_error + ('sp, 's) resource) \<times> 'lg"
  log_edge_with_writes ::
    "string \<Rightarrow> 's state_at \<Rightarrow> ('sp, 's) resource \<Rightarrow> ('l, 'k, 'e) edge_event \<Rightarrow> 'w list \<Rightarrow> 'lg
      \<Rightarrow> (log_error + version) \<times> 'lg"

definition default_create_resource ::
  "(string \<Rightarrow> timestamp \<Rightarrow> ('sp, 's) resource \<Rightarrow> input_read list \<Rightarrow> 'lg \<Rightarrow> (log_error + version) \<times> 'lg)
    \<Rightarrow> string \<Rightarrow> timestamp \<Rightarrow> ('sp, 's) resource \<Rightarrow> input_read list \<Rightarrow> 'lg
    \<Rightarrow> (log_error + ('sp, 's) resource) \<times> 'lg" where
  "default_create_resource create writer at resource reads lg =
    (case create writer at resource reads lg of
       (Inl e, lg') \<Rightarrow> (Inl e, lg')
     | (Inr v, lg') \<Rightarrow> (Inr (resource\<lparr>res_version := v\<rparr>), lg'))"

definition default_edge_with_writes ::
  "(string \<Rightarrow> 's state_at \<Rightarrow> ('sp, 's) resource \<Rightarrow> ('l, 'k, 'e) edge_event \<Rightarrow> 'lg
      \<Rightarrow> (log_error + version) \<times> 'lg)
    \<Rightarrow> string \<Rightarrow> 's state_at \<Rightarrow> ('sp, 's) resource \<Rightarrow> ('l, 'k, 'e) edge_event \<Rightarrow> 'w list \<Rightarrow> 'lg
    \<Rightarrow> (log_error + version) \<times> 'lg" where
  "default_edge_with_writes edge writer previous next event writes lg =
    (if writes \<noteq> [] then (Inl ''this log does not store records writes'', lg)
     else edge writer previous next event lg)"

record ('l, 'k, 'e) memory_log =
  ml_sequence :: nat
  ml_edges :: "(string \<times> nat, ('l, 'k, 'e) edge_event) btree_map"

definition memory_log_new :: "('l, 'k, 'e) memory_log" where
  "memory_log_new = \<lparr>ml_sequence = 0, ml_edges = []\<rparr>"

definition memory_log_next :: "version \<Rightarrow> ('l, 'k, 'e) memory_log \<Rightarrow> version \<times> ('l, 'k, 'e) memory_log" where
  "memory_log_next version lg =
    (let sequence = u64_sat_add (max (ml_sequence lg) version) 1
     in (sequence, lg\<lparr>ml_sequence := sequence\<rparr>))"

definition memory_log_create ::
  "string \<Rightarrow> timestamp \<Rightarrow> ('sp, 's) resource \<Rightarrow> input_read list \<Rightarrow> ('l, 'k, 'e) memory_log
    \<Rightarrow> (log_error + version) \<times> ('l, 'k, 'e) memory_log" where
  "memory_log_create writer at resource reads lg =
    (case memory_log_next 0 lg of (v, lg') \<Rightarrow> (Inr v, lg'))"

definition memory_log_edge ::
  "string \<Rightarrow> 's state_at \<Rightarrow> ('sp, 's) resource \<Rightarrow> ('l, 'k, 'e) edge_event \<Rightarrow> ('l, 'k, 'e) memory_log
    \<Rightarrow> (log_error + version) \<times> ('l, 'k, 'e) memory_log" where
  "memory_log_edge writer previous next event lg =
    (case memory_log_next (res_version next) lg of
       (v, lg') \<Rightarrow> (Inr v, lg'\<lparr>ml_edges := bm_insert (res_name next, v) event (ml_edges lg')\<rparr>))"

definition memory_log_edge_with_writes ::
  "string \<Rightarrow> 's state_at \<Rightarrow> ('sp, 's) resource \<Rightarrow> ('l, 'k, 'e) edge_event \<Rightarrow> 'w list
    \<Rightarrow> ('l, 'k, 'e) memory_log \<Rightarrow> (log_error + version) \<times> ('l, 'k, 'e) memory_log" where
  "memory_log_edge_with_writes writer previous next event writes lg =
    memory_log_edge writer previous next event lg"

definition memory_log_ops ::
  "(('l, 'k, 'e) memory_log, 'sp, 's, 'w, 'l, 'k, 'e) log_ops" where
  "memory_log_ops =
    \<lparr>log_create_resource = default_create_resource memory_log_create,
     log_edge_with_writes = memory_log_edge_with_writes\<rparr>"

text \<open>
  A page of a resource's history: the keys strictly after \<open>(name, after)\<close>, up to and including
  \<open>(name, u64::MAX)\<close>.
\<close>

definition memory_log_history ::
  "string \<Rightarrow> version \<Rightarrow> nat \<Rightarrow> ('l, 'k, 'e) memory_log \<Rightarrow> (version \<times> ('l, 'k, 'e) edge_event) list" where
  "memory_log_history name after limit lg =
    map (\<lambda>(key, event). (snd key, event))
      (take limit (filter (\<lambda>(key, event). (name, after) < key \<and> key \<le> (name, u64_max)) (ml_edges lg)))"

section \<open>Homes\<close>

datatype ('l, 'k, 'r) write_error =
  Unknown string
| Exists string
| Write_Refused 'r
| Write_Fault "('l, 'k) fault"
| Write_Log log_error

fun write_error_of :: "('l, 'k, 'r) step_error \<Rightarrow> ('l, 'k, 'r) write_error" where
  "write_error_of (Refused r) = Write_Refused r"
| "write_error_of (Fault f) = Write_Fault f"

record ('sp, 's, 'lg) home =
  hm_writer :: string
  hm_resources :: "(string, ('sp, 's) resource) btree_map"
  hm_log :: 'lg

definition home_with_log ::
  "('l, 'k, 's, 'e, 'sp, 'wd, 'w, 'r, 'd, 'rq) machine \<Rightarrow> string \<Rightarrow> 'lg
    \<Rightarrow> def_error list + ('sp, 's, 'lg) home" where
  "home_with_log M writer lg =
    (case validate M of
       Inl errors \<Rightarrow> Inl errors
     | Inr _ \<Rightarrow> Inr \<lparr>hm_writer = writer, hm_resources = [], hm_log = lg\<rparr>)"

definition home_evict :: "string \<Rightarrow> ('sp, 's, 'lg) home \<Rightarrow> ('sp, 's) resource option \<times> ('sp, 's, 'lg) home" where
  "home_evict name home =
    (bm_get (hm_resources home) name,
     home\<lparr>hm_resources := bm_remove name (hm_resources home)\<rparr>)"

definition home_create ::
  "('l, 'k, 's, 'e, 'sp, 'wd, 'w, 'r, 'd, 'rq) machine \<Rightarrow> ('lg, 'sp, 's, 'w, 'l, 'k, 'e) log_ops
    \<Rightarrow> string \<Rightarrow> 'rq \<Rightarrow> 'wd \<Rightarrow> timestamp \<Rightarrow> ('sp, 's, 'lg) home
    \<Rightarrow> (('l, 'k, 'r) write_error + ('sp, 's) resource \<times> input_read list) \<times> ('sp, 's, 'lg) home" where
  "home_create M L name request world now home =
    (if bm_contains (hm_resources home) name then (Inl (Exists name), home)
     else (case m_admit M (admission_new world now) request of
       (Inl refusal, a) \<Rightarrow> (Inl (Write_Refused refusal), home)
     | (Inr (spec, state), a) \<Rightarrow>
         if m_label M state \<noteq> md_initial (m_definition M)
         then (Inl (Write_Fault (Initial (m_label M state))), home)
         else (case log_create_resource L (hm_writer home) now
                 (resource_stored name spec \<lparr>st_value = state, st_since = now\<rparr> 0)
                 (a_reads a) (hm_log home) of
             (Inl e, lg) \<Rightarrow> (Inl (Write_Log e), home\<lparr>hm_log := lg\<rparr>)
           | (Inr resource, lg) \<Rightarrow>
               (Inr (resource, a_reads a),
                home\<lparr>hm_resources := bm_insert name resource (hm_resources home), hm_log := lg\<rparr>))))"

definition home_restore ::
  "('sp, 's) resource \<Rightarrow> ('sp, 's, 'lg) home
    \<Rightarrow> (('l, 'k, 'r) write_error + ('sp, 's) resource) \<times> ('sp, 's, 'lg) home" where
  "home_restore resource home =
    (if bm_contains (hm_resources home) (res_name resource)
     then (Inl (Exists (res_name resource)), home)
     else (Inr resource,
           home\<lparr>hm_resources := bm_insert (res_name resource) resource (hm_resources home)\<rparr>))"

text \<open>The trial of the writes, and their application once the log has taken them.\<close>

definition trial_writes ::
  "('w \<Rightarrow> nat \<Rightarrow> 'sp \<Rightarrow> records_full + 'sp) \<Rightarrow> nat \<Rightarrow> 'w list \<Rightarrow> 'sp \<Rightarrow> records_full + 'sp" where
  "trial_writes apply_write version = try_fold (\<lambda>w. apply_write w version)"

definition apply_writes ::
  "('w \<Rightarrow> nat \<Rightarrow> 'sp \<Rightarrow> records_full + 'sp) \<Rightarrow> nat \<Rightarrow> 'w list \<Rightarrow> 'sp \<Rightarrow> 'sp" where
  "apply_writes apply_write version =
    fold (\<lambda>w spec. case apply_write w version spec of Inl _ \<Rightarrow> spec | Inr spec' \<Rightarrow> spec')"

definition records_full_text :: string where
  "records_full_text = ''a record table holds at most u32::MAX + 1 rows''"

text \<open>
  The resource in its next state, entered now only if the label changes, and the event of the move.
\<close>

definition resource_moved ::
  "('l, 'k, 's, 'e, 'sp, 'wd, 'w, 'r, 'd, 'rq) machine \<Rightarrow> timestamp \<Rightarrow> 's \<Rightarrow> ('sp, 's) resource
    \<Rightarrow> ('sp, 's) resource" where
  "resource_moved M now next_state r =
    r\<lparr>res_state := \<lparr>st_value = next_state,
        st_since = (if m_label M (st_value (res_state r)) = m_label M next_state
                    then st_since (res_state r) else now)\<rparr>\<rparr>"

definition edge_event_of ::
  "('l, 'k, 's, 'e, 'sp, 'wd, 'w, 'r, 'd, 'rq) machine \<Rightarrow> 'e \<Rightarrow> timestamp \<Rightarrow> 's \<Rightarrow> input_read list
    \<Rightarrow> ('sp, 's) resource \<Rightarrow> ('l, 'k, 'e) edge_event" where
  "edge_event_of M edge now next_state reads r =
    \<lparr>ev_edge = m_kind M edge, ev_from = m_label M (st_value (res_state r)),
     ev_to = m_label M next_state, ev_at = now,
     ev_arguments = \<lparr>p_edge = edge, p_reads = reads\<rparr>\<rparr>"

definition home_apply ::
  "('l, 'k, 's, 'e, 'sp, 'wd, 'w, 'r, 'd, 'rq) machine \<Rightarrow> ('lg, 'sp, 's, 'w, 'l, 'k, 'e) log_ops
    \<Rightarrow> string \<Rightarrow> 'e \<Rightarrow> 'wd \<Rightarrow> timestamp \<Rightarrow> ('sp, 's, 'lg) home
    \<Rightarrow> (('l, 'k, 'r) write_error + ('l, 'k, 'e) edge_event) \<times> ('sp, 's, 'lg) home" where
  "home_apply M L name edge world now home =
    (case bm_get (hm_resources home) name of
       None \<Rightarrow> (Inl (Unknown name), home)
     | Some resource \<Rightarrow> (case step M edge (handle_on resource world now) of
         (Inl err, h) \<Rightarrow> (Inl (write_error_of err), home)
       | (Inr next_state, h) \<Rightarrow>
          (let (writes, h') = handle_take_writes h;
               reads = j_reads (handle_judged h' ());
               trial = (if writes = [] then Inr (res_spec resource)
                        else trial_writes (m_write_apply M) 0 writes (res_spec resource))
           in case trial of
             Inl full \<Rightarrow> (Inl (Write_Log records_full_text), home)
           | Inr spec' \<Rightarrow>
              (let previous = res_state resource;
                   moved = resource_moved M now next_state resource;
                   event = edge_event_of M edge now next_state reads resource
               in case log_edge_with_writes L (hm_writer home) previous moved event writes (hm_log home) of
                 (Inl e, lg) \<Rightarrow> (Inl (Write_Log e), home\<lparr>hm_log := lg\<rparr>)
               | (Inr version, lg) \<Rightarrow>
                   (Inr event,
                    home\<lparr>hm_resources := bm_insert name
                           (moved\<lparr>res_version := version,
                                  res_spec := apply_writes (m_write_apply M) version writes (res_spec moved)\<rparr>)
                           (hm_resources home),
                         hm_log := lg\<rparr>)))))"

definition home_judge ::
  "string \<Rightarrow> 'wd \<Rightarrow> timestamp
    \<Rightarrow> (('sp, 's, 'wd, 'w) handle \<Rightarrow> 'a \<times> ('sp, 's, 'wd, 'w) handle) \<Rightarrow> ('sp, 's, 'lg) home
    \<Rightarrow> ('l, 'k, 'r) write_error + 'a judged" where
  "home_judge name world now judgement home =
    (case bm_get (hm_resources home) name of
       None \<Rightarrow> Inl (Unknown name)
     | Some resource \<Rightarrow> Inr (resource_judge resource world now judgement))"

text \<open>
  A run of a home: creates, edges and evictions in any order, each against whatever the world
  holds then. A refused operation is a step too: it may still have moved the log. \<open>home_writes\<close>
  is a run in which nothing is evicted.
\<close>

inductive home_run ::
  "('l, 'k, 's, 'e, 'sp, 'wd, 'w, 'r, 'd, 'rq) machine \<Rightarrow> ('lg, 'sp, 's, 'w, 'l, 'k, 'e) log_ops
    \<Rightarrow> ('sp, 's, 'lg) home \<Rightarrow> ('sp, 's, 'lg) home \<Rightarrow> bool"
  for M L where
  run_start: "home_run M L home home"
| run_create: "home_run M L home home' \<Longrightarrow>
    home_run M L home (snd (home_create M L name request world now home'))"
| run_apply: "home_run M L home home' \<Longrightarrow>
    home_run M L home (snd (home_apply M L name edge world now home'))"
| run_evict: "home_run M L home home' \<Longrightarrow> home_run M L home (snd (home_evict name home'))"

inductive home_writes ::
  "('l, 'k, 's, 'e, 'sp, 'wd, 'w, 'r, 'd, 'rq) machine \<Rightarrow> ('lg, 'sp, 's, 'w, 'l, 'k, 'e) log_ops
    \<Rightarrow> ('sp, 's, 'lg) home \<Rightarrow> ('sp, 's, 'lg) home \<Rightarrow> bool"
  for M L where
  writes_start: "home_writes M L home home"
| writes_create: "home_writes M L home home' \<Longrightarrow>
    home_writes M L home (snd (home_create M L name request world now home'))"
| writes_apply: "home_writes M L home home' \<Longrightarrow>
    home_writes M L home (snd (home_apply M L name edge world now home'))"

definition home_all :: "('sp \<Rightarrow> 's \<Rightarrow> bool) \<Rightarrow> ('sp, 's, 'lg) home \<Rightarrow> bool" where
  "home_all I home \<longleftrightarrow>
    bm_inv (hm_resources home)
    \<and> (\<forall>(name, r) \<in> set (hm_resources home). res_name r = name \<and> I (res_spec r) (st_value (res_state r)))"

text \<open>A log that keeps the default create: the resource back, with its version set.\<close>

definition log_keeps :: "('lg, 'sp, 's, 'w, 'l, 'k, 'e) log_ops \<Rightarrow> bool" where
  "log_keeps L \<longleftrightarrow>
    (\<forall>w t r reads lg r' lg'. log_create_resource L w t r reads lg = (Inr r', lg')
      \<longrightarrow> (\<exists>v. r' = r\<lparr>res_version := v\<rparr>))"

text \<open>
  The events of one resource as a walk between labels, each entered where the previous ended.
\<close>

fun trail :: "'l \<Rightarrow> ('l, 'k, 'e) edge_event list \<Rightarrow> 'l \<Rightarrow> bool" where
  "trail a [] b \<longleftrightarrow> a = b"
| "trail a (ev # evs) b \<longleftrightarrow> ev_from ev = a \<and> trail (ev_to ev) evs b"

section \<open>Contracts\<close>

locale edge_log =
  fixes L :: "('lg, 'sp, 's, 'w, 'l, 'k, 'e) log_ops"
    and valid :: "'lg \<Rightarrow> bool"
    and highest :: "'lg \<Rightarrow> nat"
    and events :: "'lg \<Rightarrow> string \<Rightarrow> (version \<times> ('l, 'k, 'e) edge_event) list"
  assumes create_ok: "valid lg \<Longrightarrow> log_create_resource L w t r reads lg = (Inr r', lg') \<Longrightarrow>
      r' = r\<lparr>res_version := highest lg'\<rparr> \<and> valid lg' \<and> events lg' = events lg \<and> highest lg \<le> highest lg'
      \<and> (highest lg < u64_max \<longrightarrow> highest lg < highest lg')"
    and create_error: "valid lg \<Longrightarrow> log_create_resource L w t r reads lg = (Inl e, lg') \<Longrightarrow>
      valid lg' \<and> events lg' = events lg \<and> highest lg \<le> highest lg'"
    and edge_step: "valid lg \<Longrightarrow> log_edge_with_writes L w p r ev ws lg = (res, lg') \<Longrightarrow>
      valid lg' \<and> highest lg \<le> highest lg'"
    and edge_ok: "valid lg \<Longrightarrow> max (highest lg) (res_version r) < u64_max \<Longrightarrow>
      log_edge_with_writes L w p r ev ws lg = (Inr v, lg') \<Longrightarrow>
      highest lg' = v \<and> highest lg < v \<and> res_version r < v
      \<and> events lg' = (events lg)(res_name r := events lg (res_name r) @ [(v, ev)])"
    and edge_error: "valid lg \<Longrightarrow> log_edge_with_writes L w p r ev ws lg = (Inl e, lg') \<Longrightarrow>
      events lg' = events lg"
    and events_rise: "valid lg \<Longrightarrow> sorted_wrt (<) (map fst (events lg n))"
    and events_top: "valid lg \<Longrightarrow> entry \<in> set (events lg n) \<Longrightarrow> fst entry \<le> highest lg"

locale record_writes =
  fixes apply_write :: "'w \<Rightarrow> nat \<Rightarrow> 'sp \<Rightarrow> records_full + 'sp"
    and shape :: "'sp \<Rightarrow> 'q"
  assumes same_ok: "shape sp = shape sp' \<Longrightarrow>
      is_ok (apply_write w v sp) \<longleftrightarrow> is_ok (apply_write w v' sp')"
    and same_shape: "shape sp = shape sp' \<Longrightarrow> apply_write w v sp = Inr a \<Longrightarrow>
      apply_write w v' sp' = Inr b \<Longrightarrow> shape a = shape b"
begin

lemma trial_any_version:
  assumes "shape sp = shape sp'" "trial_writes apply_write v ws sp = Inr a"
  obtains b where "trial_writes apply_write v' ws sp' = Inr b" "shape a = shape b"
  using assms
proof (induction ws arbitrary: sp sp' thesis)
  case Nil
  then show ?case
    by (auto simp: trial_writes_def)
next
  case (Cons w ws)
  obtain c where c: "apply_write w v sp = Inr c" "trial_writes apply_write v ws c = Inr a"
    using Cons.prems(3) by (auto simp: trial_writes_def split: sum.splits)
  then obtain c' where c': "apply_write w v' sp' = Inr c'"
    using same_ok [OF Cons.prems(2), of w v v'] by (auto simp: is_ok_iff)
  have "shape c = shape c'"
    by (rule same_shape [OF Cons.prems(2) c(1) c'])
  from Cons.IH [OF _ this c(2)] Cons.prems(1) c' show ?case
    by (auto simp: trial_writes_def)
qed

lemma apply_after_trial:
  assumes "trial_writes apply_write v ws sp = Inr a"
  shows "trial_writes apply_write v' ws sp = Inr (apply_writes apply_write v' ws sp)"
proof -
  have fold: "apply_writes apply_write v' ws sp = b" if "trial_writes apply_write v' ws sp = Inr b" for b
    using that
    by (induction ws arbitrary: sp) (auto simp: trial_writes_def apply_writes_def split: sum.splits)
  show ?thesis
    using trial_any_version [OF refl assms, of v'] fold by metis
qed

end

section \<open>Lemmas: the memory log\<close>

lemma bm_insert_split:
  assumes "bm_inv m"
  shows "bm_insert k v m = filter (\<lambda>kv. fst kv < k) m @ (k, v) # filter (\<lambda>kv. k < fst kv) m"
  using assms
proof (induction m)
  case (Cons kv m)
  obtain k' v' where kv: "kv = (k', v')"
    by (cases kv)
  have less: "\<forall>x \<in> set m. k' < fst x" and m: "bm_inv m"
    using Cons.prems by (auto simp: kv bm_inv_Cons)
  have none: "filter (\<lambda>x. fst x < k) m = []" "filter (\<lambda>x. k < fst x) m = m" if "k \<le> k'"
    using less that by (auto simp: filter_empty_conv filter_id_conv)
  show ?case
    using Cons.IH [OF m] none by (cases "k < k'"; cases "k = k'") (auto simp: kv)
qed simp

definition memory_log_inv :: "('l, 'k, 'e) memory_log \<Rightarrow> bool" where
  "memory_log_inv lg \<longleftrightarrow>
    bm_inv (ml_edges lg) \<and> ml_sequence lg \<le> u64_max
    \<and> (\<forall>kv \<in> set (ml_edges lg). 0 < snd (fst kv) \<and> snd (fst kv) \<le> ml_sequence lg)"

definition memory_log_events ::
  "('l, 'k, 'e) memory_log \<Rightarrow> string \<Rightarrow> (version \<times> ('l, 'k, 'e) edge_event) list" where
  "memory_log_events lg n = map (\<lambda>(key, ev). (snd key, ev)) (filter (\<lambda>kv. fst (fst kv) = n) (ml_edges lg))"

lemma memory_log_inv_new: "memory_log_inv memory_log_new"
  by (simp add: memory_log_inv_def memory_log_new_def)

lemma filter_map_fst_snd:
  "filter (\<lambda>ev. P (fst ev)) (map (\<lambda>(key, ev). (snd key, ev)) xs)
    = map (\<lambda>(key, ev). (snd key, ev)) (filter (\<lambda>kv. P (snd (fst kv))) xs)"
  by (induction xs) auto

lemma memory_log_history_eq:
  assumes "memory_log_inv lg"
  shows "memory_log_history n after limit lg
    = take limit (filter (\<lambda>ev. after < fst ev) (memory_log_events lg n))"
proof -
  have "filter (\<lambda>(key, event). (n, after) < key \<and> key \<le> (n, u64_max)) (ml_edges lg)
      = filter (\<lambda>kv. after < snd (fst kv)) (filter (\<lambda>kv. fst (fst kv) = n) (ml_edges lg))"
    unfolding filter_filter using assms
    by (intro filter_cong) (auto simp: memory_log_inv_def less_prod_def less_eq_prod_def)
  then show ?thesis
    by (simp add: memory_log_history_def memory_log_events_def filter_map_fst_snd take_map)
qed

lemma memory_log_events_insert:
  assumes "bm_inv edges" and below: "\<forall>kv \<in> set edges. fst (fst kv) = n \<longrightarrow> snd (fst kv) < v"
  shows "memory_log_events (lg\<lparr>ml_edges := bm_insert (n, v) ev edges\<rparr>) m
    = memory_log_events (lg\<lparr>ml_edges := edges\<rparr>) m @ (if m = n then [(v, ev)] else [])"
proof -
  have "filter (\<lambda>kv. fst (fst kv) = m) (bm_insert (n, v) ev edges)
      = filter (\<lambda>kv. fst (fst kv) = m) edges @ (if m = n then [((n, v), ev)] else [])"
  proof -
    have low: "filter (\<lambda>kv. fst (fst kv) = n \<and> fst kv < (n, v)) edges = filter (\<lambda>kv. fst (fst kv) = n) edges"
      using below by (intro filter_cong) (auto simp: less_prod_def)
    have high: "filter (\<lambda>kv. fst (fst kv) = n \<and> (n, v) < fst kv) edges = []"
      using below by (auto simp: filter_empty_conv less_prod_def)
    have other: "filter (\<lambda>kv. fst (fst kv) = m \<and> fst kv < (n, v)) edges
        @ filter (\<lambda>kv. fst (fst kv) = m \<and> (n, v) < fst kv) edges
        = filter (\<lambda>kv. fst (fst kv) = m) edges" if "m \<noteq> n"
    proof (cases "m < n")
      case True
      then have "filter (\<lambda>kv. fst (fst kv) = m \<and> fst kv < (n, v)) edges = filter (\<lambda>kv. fst (fst kv) = m) edges"
        "filter (\<lambda>kv. fst (fst kv) = m \<and> (n, v) < fst kv) edges = []"
        by (auto intro!: filter_cong simp: filter_empty_conv less_prod_def)
      then show ?thesis
        by simp
    next
      case False
      then have "filter (\<lambda>kv. fst (fst kv) = m \<and> (n, v) < fst kv) edges = filter (\<lambda>kv. fst (fst kv) = m) edges"
        "filter (\<lambda>kv. fst (fst kv) = m \<and> fst kv < (n, v)) edges = []"
        using that by (auto intro!: filter_cong simp: filter_empty_conv less_prod_def)
      then show ?thesis
        by simp
    qed
    show ?thesis
      using low high other by (auto simp: bm_insert_split [OF assms(1)] conj_commute)
  qed
  then show ?thesis
    by (simp add: memory_log_events_def)
qed

lemmas memory_log_defs = memory_log_ops_def default_create_resource_def memory_log_create_def
  memory_log_edge_with_writes_def memory_log_edge_def memory_log_next_def Let_def

lemma memory_log_edge_step:
  assumes inv: "memory_log_inv lg" and edge: "memory_log_edge w p r ev lg = (res, lg')"
  shows "memory_log_inv lg' \<and> ml_sequence lg \<le> ml_sequence lg'"
proof -
  let ?v = "u64_sat_add (max (ml_sequence lg) (res_version r)) 1"
  have lg': "lg' = lg\<lparr>ml_sequence := ?v, ml_edges := bm_insert (res_name r, ?v) ev (ml_edges lg)\<rparr>"
    using edge by (simp add: memory_log_defs)
  have "0 < u64_max"
    by (simp add: u64_max_def)
  then have v: "0 < ?v" "ml_sequence lg \<le> ?v"
    using inv by (simp_all add: memory_log_inv_def u64_sat_add_def)
  have "0 < snd (fst kv) \<and> snd (fst kv) \<le> ?v"
    if "kv \<in> set (bm_insert (res_name r, ?v) ev (ml_edges lg))" for kv
  proof -
    have "kv = ((res_name r, ?v), ev) \<or> kv \<in> set (ml_edges lg)"
      using that set_bm_insert_subset by fastforce
    then show ?thesis
      using inv v by (auto simp: memory_log_inv_def intro: order_trans)
  qed
  then show ?thesis
    using inv v by (simp add: memory_log_inv_def lg')
qed

lemma memory_log_edge_ok:
  assumes inv: "memory_log_inv lg" and room: "max (ml_sequence lg) (res_version r) < u64_max"
    and edge: "memory_log_edge w p r ev lg = (Inr v, lg')"
  shows "ml_sequence lg' = v \<and> ml_sequence lg < v \<and> res_version r < v
    \<and> memory_log_events lg' = (memory_log_events lg)(res_name r := memory_log_events lg (res_name r) @ [(v, ev)])"
proof -
  have v: "v = Suc (max (ml_sequence lg) (res_version r))"
    and lg': "lg' = lg\<lparr>ml_sequence := v, ml_edges := bm_insert (res_name r, v) ev (ml_edges lg)\<rparr>"
    using edge room by (auto simp: memory_log_defs u64_sat_add_def)
  have below: "\<forall>kv \<in> set (ml_edges lg). snd (fst kv) < v"
    using inv v by (auto simp: memory_log_inv_def le_imp_less_Suc le_max_iff_disj)
  have "memory_log_events lg' m = memory_log_events lg m @ (if m = res_name r then [(v, ev)] else [])" for m
    using memory_log_events_insert [of "ml_edges lg" "res_name r" v ev lg m] inv below
    by (simp add: lg' memory_log_inv_def memory_log_events_def)
  then show ?thesis
    by (auto simp: lg' v fun_eq_iff)
qed

lemma sorted_snd_same_fst:
  fixes xs :: "((string \<times> nat) \<times> 'v) list"
  assumes "sorted_wrt (<) (map fst xs)"
  shows "sorted_wrt (<) (map (snd \<circ> fst) (filter (\<lambda>kv. fst (fst kv) = n) xs))"
  using assms
proof (induction xs)
  case (Cons kv xs)
  have "snd (fst kv) < snd (fst kv')" if "kv' \<in> set xs" "fst (fst kv') = fst (fst kv)" for kv'
  proof -
    have "fst kv < fst kv'"
      using Cons.prems that(1) by simp
    with that(2) show ?thesis
      by (simp add: less_prod_def)
  qed
  with Cons show ?case
    by auto
qed simp

lemma memory_log_create_ok:
  assumes "memory_log_inv lg" "log_create_resource memory_log_ops w t r reads lg = (res, lg')"
  shows "res = Inr (r\<lparr>res_version := ml_sequence lg'\<rparr>) \<and> memory_log_inv lg'
    \<and> memory_log_events lg' = memory_log_events lg \<and> ml_sequence lg \<le> ml_sequence lg'
    \<and> (ml_sequence lg < u64_max \<longrightarrow> ml_sequence lg < ml_sequence lg')"
proof -
  have "res = Inr (r\<lparr>res_version := u64_sat_add (ml_sequence lg) 1\<rparr>)"
    "lg' = lg\<lparr>ml_sequence := u64_sat_add (ml_sequence lg) 1\<rparr>"
    using assms(2) by (auto simp: memory_log_defs)
  moreover have "ml_sequence lg \<le> u64_sat_add (ml_sequence lg) 1"
    using assms(1) by (simp add: memory_log_inv_def u64_sat_add_def)
  moreover have "ml_sequence lg < u64_max \<longrightarrow> ml_sequence lg < u64_sat_add (ml_sequence lg) 1"
    by (simp add: u64_sat_add_def)
  ultimately show ?thesis
    using assms(1) by (auto simp: memory_log_inv_def memory_log_events_def fun_eq_iff
        intro: order_trans)
qed

interpretation ml: edge_log memory_log_ops memory_log_inv ml_sequence memory_log_events
proof (unfold_locales, goal_cases)
  case (1 lg w t r reads r' lg')
  then show ?case
    using memory_log_create_ok [OF 1] by simp
next
  case (2 lg w t r reads e lg')
  then show ?case
    using memory_log_create_ok [OF 2] by simp
next
  case (3 lg w p r ev ws res lg')
  then show ?case
    using memory_log_edge_step [of lg w p r ev res lg']
    by (simp add: memory_log_ops_def memory_log_edge_with_writes_def)
next
  case (4 lg r w p ev ws v lg')
  then show ?case
    using memory_log_edge_ok [of lg r w p ev v lg']
    by (simp add: memory_log_ops_def memory_log_edge_with_writes_def)
next
  case (5 lg w p r ev ws e lg')
  then show ?case
    by (simp add: memory_log_defs)
next
  case (6 lg n)
  then show ?case
    using sorted_snd_same_fst [of "ml_edges lg" n]
    by (simp add: memory_log_events_def memory_log_inv_def bm_inv_def comp_def case_prod_beta')
next
  case (7 lg entry n)
  then show ?case
    by (auto simp: memory_log_events_def memory_log_inv_def)
qed

lemma memory_log_keeps: "log_keeps memory_log_ops"
  by (simp add: log_keeps_def memory_log_defs) blast

section \<open>Lemmas: homes\<close>

text \<open>The inversion of an applied edge.\<close>

lemma home_apply_InrD:
  assumes "home_apply M L name edge world now home = (Inr ev, home')"
  obtains r nxt h lg v where
    "bm_get (hm_resources home) name = Some r"
    "step M edge (handle_on r world now) = (Inr nxt, h)"
    "is_ok (trial_writes (m_write_apply M) 0 (h_writes h) (res_spec r))"
    "ev = edge_event_of M edge now nxt (h_reads h) r"
    "log_edge_with_writes L (hm_writer home) (res_state r) (resource_moved M now nxt r) ev
       (h_writes h) (hm_log home) = (Inr v, lg)"
    "home' = home\<lparr>hm_resources := bm_insert name
       ((resource_moved M now nxt r)\<lparr>res_version := v,
          res_spec := apply_writes (m_write_apply M) v (h_writes h) (res_spec r)\<rparr>)
       (hm_resources home), hm_log := lg\<rparr>"
proof -
  obtain r where r: "bm_get (hm_resources home) name = Some r"
    using assms by (auto simp: home_apply_def split: option.splits)
  obtain nxt h where n: "step M edge (handle_on r world now) = (Inr nxt, h)"
    using assms r by (auto simp: home_apply_def split: prod.splits sum.splits)
  have trial: "is_ok (trial_writes (m_write_apply M) 0 (h_writes h) (res_spec r))"
    using assms by (cases "h_writes h = []")
      (auto simp: home_apply_def handle_take_writes_def Let_def r n is_ok_iff trial_writes_def split: sum.splits)
  obtain v lg where "log_edge_with_writes L (hm_writer home) (res_state r) (resource_moved M now nxt r)
      (edge_event_of M edge now nxt (h_reads h) r) (h_writes h) (hm_log home) = (Inr v, lg)"
    using assms trial
    by (auto simp: home_apply_def handle_take_writes_def handle_judged_def Let_def r n is_ok_iff
        split: sum.splits prod.splits if_splits)
  with assms trial show ?thesis
    by (intro that [OF r n trial])
      (auto simp: home_apply_def handle_take_writes_def handle_judged_def Let_def r n is_ok_iff
        resource_moved_def split: if_splits)
qed

lemma home_apply_InlD:
  assumes "home_apply M L name edge world now home = (Inl err, home')"
  shows "hm_resources home' = hm_resources home \<and> hm_writer home' = hm_writer home
    \<and> ((\<forall>e. err \<noteq> Write_Log e) \<longrightarrow> home' = home)"
  using assms
  by (auto simp: home_apply_def Let_def split: option.splits prod.splits sum.splits if_splits)

lemma home_create_InrD:
  assumes "home_create M L name request world now home = (Inr (r, reads), home')"
  obtains spec state a lg where
    "bm_get (hm_resources home) name = None"
    "m_admit M (admission_new world now) request = (Inr (spec, state), a)"
    "m_label M state = md_initial (m_definition M)"
    "log_create_resource L (hm_writer home) now
       (resource_stored name spec \<lparr>st_value = state, st_since = now\<rparr> 0) (a_reads a) (hm_log home)
       = (Inr r, lg)"
    "reads = a_reads a"
    "home' = home\<lparr>hm_resources := bm_insert name r (hm_resources home), hm_log := lg\<rparr>"
proof -
  have absent: "\<not> bm_contains (hm_resources home) name"
    using assms by (auto simp: home_create_def)
  obtain spec state a where admit: "m_admit M (admission_new world now) request = (Inr (spec, state), a)"
    using assms absent by (auto simp: home_create_def split: prod.splits sum.splits)
  have label: "m_label M state = md_initial (m_definition M)"
    using assms absent admit by (simp add: home_create_def split: if_splits)
  obtain lg where "log_create_resource L (hm_writer home) now
       (resource_stored name spec \<lparr>st_value = state, st_since = now\<rparr> 0) (a_reads a) (hm_log home)
       = (Inr r, lg)"
    using assms absent admit label by (auto simp: home_create_def split: prod.splits sum.splits)
  with assms absent show ?thesis
    by (intro that [OF _ admit label]) (auto simp: home_create_def bm_contains_iff admit label)
qed

lemma home_create_InlD:
  assumes "home_create M L name request world now home = (Inl err, home')"
  shows "hm_resources home' = hm_resources home \<and> hm_writer home' = hm_writer home
    \<and> ((\<forall>e. err \<noteq> Write_Log e) \<longrightarrow> home' = home)"
  using assms by (auto simp: home_create_def split: if_splits prod.splits sum.splits)

lemma trail_append: "trail a (xs @ [ev]) b \<longleftrightarrow> trail a xs (ev_from ev) \<and> ev_to ev = b"
  by (induction xs arbitrary: a) auto

text \<open>
  What a log and the resources of a home say of each other: a resource's events walk from the
  initial label to its current one, its version is its last event's, and a name with no resource
  has no events.
\<close>

fun name_trail ::
  "('l, 'k, 's, 'e, 'sp, 'wd, 'w, 'r, 'd, 'rq) machine \<Rightarrow> nat
    \<Rightarrow> (version \<times> ('l, 'k, 'e) edge_event) list \<Rightarrow> string \<Rightarrow> ('sp, 's) resource option \<Rightarrow> bool" where
  "name_trail M high evs n None \<longleftrightarrow> evs = []"
| "name_trail M high evs n (Some r) \<longleftrightarrow>
    res_name r = n \<and> res_version r \<le> high
    \<and> trail (md_initial (m_definition M)) (map snd evs) (m_label M (st_value (res_state r)))
    \<and> (evs \<noteq> [] \<longrightarrow> res_version r = fst (last evs))"

definition home_trails ::
  "('l, 'k, 's, 'e, 'sp, 'wd, 'w, 'r, 'd, 'rq) machine
    \<Rightarrow> ('lg \<Rightarrow> nat) \<Rightarrow> ('lg \<Rightarrow> string \<Rightarrow> (version \<times> ('l, 'k, 'e) edge_event) list)
    \<Rightarrow> ('sp, 's, 'lg) home \<Rightarrow> bool" where
  "home_trails M highest events home \<longleftrightarrow>
    (\<forall>n. name_trail M (highest (hm_log home)) (events (hm_log home) n) n
           (bm_get (hm_resources home) n))"

lemma home_trailsD:
  "home_trails M highest events home \<Longrightarrow>
    name_trail M (highest (hm_log home)) (events (hm_log home) n) n (bm_get (hm_resources home) n)"
  by (simp add: home_trails_def)

lemma name_trail_mono: "name_trail M high evs n ro \<Longrightarrow> high \<le> high' \<Longrightarrow> name_trail M high' evs n ro"
  by (cases ro) auto

context edge_log
begin

lemma apply_log_moves:
  assumes "valid (hm_log home)" "home_apply M L name edge world now home = (res, home')"
  shows "valid (hm_log home') \<and> highest (hm_log home) \<le> highest (hm_log home')
    \<and> (\<not> is_ok res \<longrightarrow> events (hm_log home') = events (hm_log home))"
  using assms
  by (auto simp: home_apply_def Let_def split: option.splits prod.splits sum.splits if_splits
      dest: edge_step edge_error)

lemma create_log_moves:
  assumes "valid (hm_log home)" "home_create M L name request world now home = (res, home')"
  shows "valid (hm_log home') \<and> highest (hm_log home) \<le> highest (hm_log home')
    \<and> events (hm_log home') = events (hm_log home)"
  using assms
  by (auto simp: home_create_def split: if_splits prod.splits sum.splits
      dest: create_ok create_error)

text \<open>An applied edge raises the version and appends its event, and touches no other name.\<close>

lemma apply_appends:
  assumes valid: "valid (hm_log home)" and room: "highest (hm_log home) < u64_max"
    and r: "bm_get (hm_resources home) name = Some r" "res_name r = name"
      "res_version r \<le> highest (hm_log home)"
    and ok: "home_apply M L name edge world now home = (Inr ev, home')"
  obtains r' where "bm_get (hm_resources home') = (bm_get (hm_resources home))(name \<mapsto> r')"
    "res_name r' = name" "highest (hm_log home) < res_version r'"
    "highest (hm_log home') = res_version r'"
    "events (hm_log home') = (events (hm_log home))(name := events (hm_log home) name @ [(res_version r', ev)])"
    "ev_from ev = m_label M (st_value (res_state r))" "ev_to ev = m_label M (st_value (res_state r'))"
    "ev_edge ev = m_kind M edge" "ev_at ev = now" "p_edge (ev_arguments ev) = edge"
    "st_since (res_state r') = (if ev_from ev = ev_to ev then st_since (res_state r) else now)"
proof (rule home_apply_InrD [OF ok])
  fix r0 nxt h lg v
  assume "bm_get (hm_resources home) name = Some r0"
    and ev: "ev = edge_event_of M edge now nxt (h_reads h) r0"
    and log: "log_edge_with_writes L (hm_writer home) (res_state r0) (resource_moved M now nxt r0) ev
       (h_writes h) (hm_log home) = (Inr v, lg)"
    and home': "home' = home\<lparr>hm_resources := bm_insert name
       ((resource_moved M now nxt r0)\<lparr>res_version := v,
          res_spec := apply_writes (m_write_apply M) v (h_writes h) (res_spec r0)\<rparr>)
       (hm_resources home), hm_log := lg\<rparr>"
  then have r0: "r0 = r"
    using r(1) by simp
  have "max (highest (hm_log home)) (res_version (resource_moved M now nxt r)) < u64_max"
    using room r(3) by (simp add: resource_moved_def)
  note appended = edge_ok [OF valid this log [unfolded r0]]
  show thesis
    by (rule that [of "(resource_moved M now nxt r)\<lparr>res_version := v,
          res_spec := apply_writes (m_write_apply M) v (h_writes h) (res_spec r)\<rparr>"])
      (use appended in \<open>simp_all add: home' ev r0 edge_event_of_def resource_moved_def r(2)\<close>)
qed

lemma trails_apply:
  assumes trails: "home_trails M highest events home" and valid: "valid (hm_log home)"
    and room: "highest (hm_log home) < u64_max"
    and run: "home_apply M L name edge world now home = (res, home')"
  shows "home_trails M highest events home'"
  unfolding home_trails_def
proof
  fix n
  note known = home_trailsD [OF trails, of n] and moves = apply_log_moves [OF valid run]
  show "name_trail M (highest (hm_log home')) (events (hm_log home') n) n (bm_get (hm_resources home') n)"
  proof (cases res)
    case (Inl err)
    then show ?thesis
      using known moves home_apply_InlD [of M L name edge world now home err home'] run
      by (auto intro: name_trail_mono)
  next
    case (Inr ev)
    with run obtain r where r: "bm_get (hm_resources home) name = Some r"
      by (auto elim: home_apply_InrD)
    note named = home_trailsD [OF trails, of name, unfolded r, simplified]
    obtain r' where r': "bm_get (hm_resources home') = (bm_get (hm_resources home))(name \<mapsto> r')"
      "res_name r' = name" "highest (hm_log home) < res_version r'"
      "highest (hm_log home') = res_version r'"
      "events (hm_log home') = (events (hm_log home))(name := events (hm_log home) name @ [(res_version r', ev)])"
      "ev_from ev = m_label M (st_value (res_state r))" "ev_to ev = m_label M (st_value (res_state r'))"
      by (rule apply_appends [OF valid room r _ _ run [unfolded Inr]]) (use named in auto)
    show ?thesis
      using named r' known moves
      by (cases "n = name") (auto simp: trail_append intro: name_trail_mono)
  qed
qed

lemma trails_create:
  assumes trails: "home_trails M highest events home" and valid: "valid (hm_log home)"
    and run: "home_create M L name request world now home = (res, home')"
  shows "home_trails M highest events home'"
  unfolding home_trails_def
proof
  fix n
  note known = home_trailsD [OF trails, of n] and moves = create_log_moves [OF valid run]
  show "name_trail M (highest (hm_log home')) (events (hm_log home') n) n (bm_get (hm_resources home') n)"
  proof (cases res)
    case (Inl err)
    then show ?thesis
      using known moves home_create_InlD [of M L name request world now home err home'] run
      by (auto intro: name_trail_mono)
  next
    case (Inr created)
    obtain r reads where created: "created = (r, reads)"
      by (cases created)
    show ?thesis
    proof (rule home_create_InrD [OF run [unfolded Inr created]])
      fix spec state a lg
      assume none: "bm_get (hm_resources home) name = None"
        and label: "m_label M state = md_initial (m_definition M)"
        and log: "log_create_resource L (hm_writer home) now
          (resource_stored name spec \<lparr>st_value = state, st_since = now\<rparr> 0) (a_reads a) (hm_log home) = (Inr r, lg)"
        and home': "home' = home\<lparr>hm_resources := bm_insert name r (hm_resources home), hm_log := lg\<rparr>"
      have "events (hm_log home) name = []"
        using home_trailsD [OF trails, of name] none by simp
      then show ?thesis
        using known moves create_ok [OF valid log] label
        by (cases "n = name") (auto simp: home' resource_stored_def intro: name_trail_mono)
    qed
  qed
qed

lemma valid_writes: "home_writes M L home home' \<Longrightarrow> valid (hm_log home) \<Longrightarrow> valid (hm_log home')"
  by (induction rule: home_writes.induct)
    (metis prod.collapse create_log_moves apply_log_moves)+

lemma trails_writes:
  assumes "home_writes M L home home'" "valid (hm_log home)" "home_trails M highest events home"
    and "highest (hm_log home') < u64_max"
  shows "home_trails M highest events home'"
  using assms
proof (induction rule: home_writes.induct)
  case (writes_create home home' name request world now)
  have valid: "valid (hm_log home')"
    using writes_create.hyps writes_create.prems(1) by (rule valid_writes)
  note run = prod.collapse [of "home_create M L name request world now home'", symmetric]
  show ?case
    using create_log_moves [OF valid run] writes_create.IH writes_create.prems
    by (intro trails_create [OF _ valid run]) simp
next
  case (writes_apply home home' name edge world now)
  have valid: "valid (hm_log home')"
    using writes_apply.hyps writes_apply.prems(1) by (rule valid_writes)
  note run = prod.collapse [of "home_apply M L name edge world now home'", symmetric]
  have "highest (hm_log home') < u64_max"
    using apply_log_moves [OF valid run] writes_apply.prems by simp
  then show ?case
    using writes_apply.IH writes_apply.prems by (intro trails_apply [OF _ valid _ run]) simp_all
qed

end

lemma home_writes_run: "home_writes M L home home' \<Longrightarrow> home_run M L home home'"
  by (induction rule: home_writes.induct) (auto intro: home_run.intros)

lemma home_all_fresh: "home_with_log M writer lg = Inr home \<Longrightarrow> home_all I home"
  by (auto simp: home_with_log_def home_all_def split: sum.splits)

text \<open>A machine without records keeps its spec.\<close>

lemma apply_writes_ignored: "(\<And>w v sp. f w v sp = Inr sp) \<Longrightarrow> apply_writes f v ws sp = sp"
  by (induction ws) (simp_all add: apply_writes_def)

section \<open>Invariants of one resource\<close>

text \<open>
  A property of a spec and a state that admission establishes and every accepted step keeps, the
  records writes of the step included, holds of every resource of a home at any time.
\<close>

locale machine_invariant =
  fixes M :: "('l, 'k, 's, 'e, 'sp, 'wd, 'w, 'r, 'd, 'rq) machine"
    and I :: "'sp \<Rightarrow> 's \<Rightarrow> bool"
  assumes admitted: "m_admit M a request = (Inr (spec, state), a') \<Longrightarrow> I spec state"
    and stepped: "I (h_spec h) (h_state h) \<Longrightarrow> h_writes h = [] \<Longrightarrow>
      step M edge h = (Inr state', h') \<Longrightarrow>
      is_ok (trial_writes (m_write_apply M) 0 (h_writes h') (h_spec h)) \<Longrightarrow>
      I (apply_writes (m_write_apply M) v (h_writes h') (h_spec h)) state'"
begin

lemma all_insert:
  assumes "home_all I home" "res_name r = n" "I (res_spec r) (st_value (res_state r))"
  shows "home_all I (home\<lparr>hm_resources := bm_insert n r (hm_resources home), hm_log := lg\<rparr>)"
  using assms set_bm_insert_subset [of n r "hm_resources home"] by (fastforce simp: home_all_def)

lemma all_apply:
  assumes all: "home_all I home" and run: "home_apply M L name edge world now home = (res, home')"
  shows "home_all I home'"
proof (cases res)
  case (Inl err)
  then show ?thesis
    using all run home_apply_InlD by (fastforce simp: home_all_def)
next
  case (Inr ev)
  show ?thesis
  proof (rule home_apply_InrD [OF run [unfolded Inr]])
    fix r nxt h lg v
    assume r: "bm_get (hm_resources home) name = Some r"
      and stp: "step M edge (handle_on r world now) = (Inr nxt, h)"
      and fits: "is_ok (trial_writes (m_write_apply M) 0 (h_writes h) (res_spec r))"
      and home': "home' = home\<lparr>hm_resources := bm_insert name
       ((resource_moved M now nxt r)\<lparr>res_version := v,
          res_spec := apply_writes (m_write_apply M) v (h_writes h) (res_spec r)\<rparr>)
       (hm_resources home), hm_log := lg\<rparr>"
    have "(name, r) \<in> set (hm_resources home)"
      using all r by (simp add: home_all_def bm_get_in_set)
    then have held: "res_name r = name" "I (res_spec r) (st_value (res_state r))"
      using all by (auto simp: home_all_def)
    from stepped [OF _ _ stp] held(2) fits
    have "I (apply_writes (m_write_apply M) v (h_writes h) (res_spec r)) nxt"
      by simp
    then show ?thesis
      unfolding home' using held(1) by (intro all_insert [OF all]) (simp_all add: resource_moved_def)
  qed
qed

lemma all_create:
  assumes all: "home_all I home" and keeps: "log_keeps L"
    and run: "home_create M L name request world now home = (res, home')"
  shows "home_all I home'"
proof (cases res)
  case (Inl err)
  then show ?thesis
    using all run home_create_InlD by (fastforce simp: home_all_def)
next
  case (Inr created)
  obtain r reads where created: "created = (r, reads)"
    by (cases created)
  show ?thesis
  proof (rule home_create_InrD [OF run [unfolded Inr created]])
    fix spec state a lg
    assume admit: "m_admit M (admission_new world now) request = (Inr (spec, state), a)"
      and log: "log_create_resource L (hm_writer home) now
        (resource_stored name spec \<lparr>st_value = state, st_since = now\<rparr> 0) (a_reads a) (hm_log home) = (Inr r, lg)"
      and home': "home' = home\<lparr>hm_resources := bm_insert name r (hm_resources home), hm_log := lg\<rparr>"
    obtain v where "r = (resource_stored name spec \<lparr>st_value = state, st_since = now\<rparr> 0)\<lparr>res_version := v\<rparr>"
      using keeps log unfolding log_keeps_def by blast
    then show ?thesis
      unfolding home' using admitted [OF admit] by (intro all_insert [OF all]) (simp_all add: resource_stored_def)
  qed
qed

lemma all_run:
  assumes "home_run M L home home'" "log_keeps L" "home_all I home"
  shows "home_all I home'"
  using assms
proof (induction rule: home_run.induct)
  case (run_create home home' name request world now)
  then show ?case
    by (metis prod.collapse all_create)
next
  case (run_apply home home' name edge world now)
  then show ?case
    by (metis prod.collapse all_apply)
next
  case (run_evict home home' name)
  then show ?case
    by (auto simp: home_evict_def home_all_def bm_remove_def)
qed

end

text \<open>
  A relation between what a resource was and what it becomes, kept by every accepted step, holds
  between a resource and any later one of its name while nothing is evicted.
\<close>

locale machine_progress = machine_invariant M I
  for M :: "('l, 'k, 's, 'e, 'sp, 'wd, 'w, 'r, 'd, 'rq) machine" and I :: "'sp \<Rightarrow> 's \<Rightarrow> bool" +
  fixes R :: "'sp \<Rightarrow> 's \<Rightarrow> 'sp \<Rightarrow> 's \<Rightarrow> bool"
  assumes stays: "R sp s sp s"
    and composes: "R sp s sp' s' \<Longrightarrow> R sp' s' sp'' s'' \<Longrightarrow> R sp s sp'' s''"
    and advances: "I (h_spec h) (h_state h) \<Longrightarrow> h_writes h = [] \<Longrightarrow>
      step M edge h = (Inr state', h') \<Longrightarrow>
      is_ok (trial_writes (m_write_apply M) 0 (h_writes h') (h_spec h)) \<Longrightarrow>
      R (h_spec h) (h_state h) (apply_writes (m_write_apply M) v (h_writes h') (h_spec h)) state'"
begin

lemma progress_apply:
  assumes all: "home_all I home" and run: "home_apply M L name edge world now home = (res, home')"
    and r: "bm_get (hm_resources home) n = Some r"
  shows "\<exists>r'. bm_get (hm_resources home') n = Some r'
    \<and> R (res_spec r) (st_value (res_state r)) (res_spec r') (st_value (res_state r'))"
proof (cases res)
  case (Inl err)
  then show ?thesis
    using r run home_apply_InlD stays by metis
next
  case (Inr ev)
  show ?thesis
  proof (rule home_apply_InrD [OF run [unfolded Inr]])
    fix r0 nxt h lg v
    assume r0: "bm_get (hm_resources home) name = Some r0"
      and stp: "step M edge (handle_on r0 world now) = (Inr nxt, h)"
      and fits: "is_ok (trial_writes (m_write_apply M) 0 (h_writes h) (res_spec r0))"
      and home': "home' = home\<lparr>hm_resources := bm_insert name
       ((resource_moved M now nxt r0)\<lparr>res_version := v,
          res_spec := apply_writes (m_write_apply M) v (h_writes h) (res_spec r0)\<rparr>)
       (hm_resources home), hm_log := lg\<rparr>"
    have "(name, r0) \<in> set (hm_resources home)"
      using all r0 by (simp add: home_all_def bm_get_in_set)
    then have "I (res_spec r0) (st_value (res_state r0))"
      using all by (auto simp: home_all_def)
    from advances [OF _ _ stp, of v] this fits
    have "R (res_spec r0) (st_value (res_state r0))
        (apply_writes (m_write_apply M) v (h_writes h) (res_spec r0)) nxt"
      by simp
    then show ?thesis
      using r r0 stays by (cases "n = name") (auto simp: home' resource_moved_def)
  qed
qed

lemma progress_writes:
  assumes "home_writes M L home home'" "log_keeps L" "home_all I home"
    and "bm_get (hm_resources home) n = Some r"
  shows "home_all I home' \<and> (\<exists>r'. bm_get (hm_resources home') n = Some r'
    \<and> R (res_spec r) (st_value (res_state r)) (res_spec r') (st_value (res_state r')))"
  using assms
proof (induction rule: home_writes.induct)
  case (writes_start home)
  then show ?case
    using stays by blast
next
  case (writes_create home home' name request world now)
  note run = prod.collapse [of "home_create M L name request world now home'", symmetric]
  obtain r' where r': "home_all I home'" "bm_get (hm_resources home') n = Some r'"
    "R (res_spec r) (st_value (res_state r)) (res_spec r') (st_value (res_state r'))"
    using writes_create by blast
  have "bm_get (hm_resources (snd (home_create M L name request world now home'))) n = Some r'"
    using r'(2)
    by (auto simp: home_create_def bm_contains_iff split: prod.splits sum.splits if_splits)
  with r'(3) all_create [OF r'(1) writes_create.prems(1) run] show ?case
    by blast
next
  case (writes_apply home home' name edge world now)
  note run = prod.collapse [of "home_apply M L name edge world now home'", symmetric]
  obtain r' where r': "home_all I home'" "bm_get (hm_resources home') n = Some r'"
    "R (res_spec r) (st_value (res_state r)) (res_spec r') (st_value (res_state r'))"
    using writes_apply by blast
  then show ?case
    using progress_apply [OF r'(1) run r'(2)] all_apply [OF r'(1) run] composes by blast
qed

end

end
