(* ===== verification/Consumers.thy ===== *)
theory Consumers
  imports Home
begin

text \<open>
  The consumers of an inbox: \<open>src/crates/flotilla-state-machines/src/machines/consumer.rs\<close>,
  \<open>person.rs\<close> and \<open>agent_session.rs\<close>.

  An agent session is Live with a channel until its end is observed; a person has one state. Both
  take a message by a \<open>Receive\<close> edge whose master is the message. The lemmas show that a session's
  steps never fault, that the three observation data are recorded together, and what each edge
  changes.
\<close>

section \<open>Receivers\<close>

datatype consumer_kind = AgentSession_Consumer | Controller_Consumer | Person_Consumer

datatype receiver = Receiver (rc_kind: consumer_kind) (rc_id: string) (rc_host: string)

fun consumer_rank :: "consumer_kind \<Rightarrow> nat" where
  "consumer_rank AgentSession_Consumer = 0"
| "consumer_rank Controller_Consumer = 1"
| "consumer_rank Person_Consumer = 2"

definition receiver_key :: "receiver \<Rightarrow> nat \<times> string \<times> string" where
  "receiver_key r = (consumer_rank (rc_kind r), rc_id r, rc_host r)"

lemma receiver_key_inject: "receiver_key a = receiver_key b \<Longrightarrow> a = b"
  by (cases a; cases b; cases "rc_kind a"; cases "rc_kind b") (auto simp: receiver_key_def)

instantiation receiver :: linorder
begin

definition less_eq_receiver :: "receiver \<Rightarrow> receiver \<Rightarrow> bool" where
  "less_eq_receiver a b \<longleftrightarrow> receiver_key a \<le> receiver_key b"

definition less_receiver :: "receiver \<Rightarrow> receiver \<Rightarrow> bool" where
  "less_receiver a b \<longleftrightarrow> receiver_key a < receiver_key b"

instance
  by standard
    (auto simp: less_eq_receiver_def less_receiver_def receiver_key_inject less_le_not_le)

end

record receive =
  rv_message :: string
  rv_transport :: transport

text \<open>The trait \<open>Consumer\<close>: the kind, the code of its \<open>Receive\<close> edge and the receipt an edge is.\<close>

record 'e consumer =
  c_kind :: consumer_kind
  c_receive :: string
  c_receipt :: "'e \<Rightarrow> (string \<times> transport) option"

section \<open>Person\<close>

datatype person_state = Active

datatype person_label = ActiveL

datatype person_edge = Person_Receive receive

datatype person_kind = Person_ReceiveK

datatype person_refusal = Person_WrongState

fun project_person_receive :: "person_edge \<Rightarrow> receive option" where
  "project_person_receive (Person_Receive r) = Some r"

type_synonym person_machine_type =
  "(person_label, person_kind, person_state, person_edge, unit, unit, no_records, person_refusal,
    unit, unit) machine"

definition person_definition ::
  "(person_label, person_kind, person_state, person_edge, unit, unit, no_records, person_refusal)
    machine_def" where
  "person_definition =
    chained (machine_new ActiveL)
      [machine_edge (chained (edge_new Person_ReceiveK)
        [edge_from [ActiveL],
         edge_to [ActiveL],
         edge_about project_person_receive rv_message,
         edge_ungated ''an acknowledgement or answer reports a message the person took; the message's own gates judge it'',
         edge_effect project_person_receive (\<lambda>h state arg. (state, h))])]"

definition person_machine :: person_machine_type where
  "person_machine =
    \<lparr>m_name = ''Person'', m_label = (\<lambda>_. ActiveL), m_data = (\<lambda>_. []), m_fields = (\<lambda>_. []),
     m_labels = [ActiveL], m_label_name = (\<lambda>_. ''Active''), m_label_code = (\<lambda>_. ''ac''),
     m_kind = (\<lambda>_. Person_ReceiveK), m_kinds = [Person_ReceiveK],
     m_kind_name = (\<lambda>_. ''receive''), m_kind_code = (\<lambda>_. ''rv''),
     m_write_field = (\<lambda>_. []), m_write_apply = (\<lambda>_ _ spec. Inr spec),
     m_ended = (\<lambda>_ _. Person_WrongState), m_wrong_state = (\<lambda>_ _. Person_WrongState),
     m_definition = person_definition,
     m_admit = (\<lambda>a request. (Inr ((), Active), a))\<rparr>"

definition person_consumer :: "person_edge consumer" where
  "person_consumer =
    \<lparr>c_kind = Person_Consumer, c_receive = ''rv'',
     c_receipt = (\<lambda>e. case e of Person_Receive r \<Rightarrow> Some (rv_message r, rv_transport r))\<rparr>"

section \<open>AgentSession\<close>

datatype channel = Detached | Attached

datatype agent_end_reason = Completed | Lost

datatype activity = Working | Idle | Interrupted

record activity_observation =
  ob_activity :: activity
  ob_since :: timestamp
  ob_cause :: string

datatype agent_session_state =
  Live channel "activity option" "timestamp option" "string option"
| Ended agent_end_reason "activity option" "timestamp option" "string option"

datatype agent_session_label = LiveL | EndedL

datatype session_datum =
  D_channel channel
| D_end_reason agent_end_reason
| D_activity "activity option"
| D_activity_since "timestamp option"
| D_activity_cause "string option"

fun session_label_of :: "agent_session_state \<Rightarrow> agent_session_label" where
  "session_label_of (Live c a s w) = LiveL"
| "session_label_of (Ended r a s w) = EndedL"

fun session_data :: "agent_session_state \<Rightarrow> (string \<times> session_datum) list" where
  "session_data (Live c a s w) =
    [(''channel'', D_channel c), (''activity'', D_activity a),
     (''activity_since'', D_activity_since s), (''activity_cause'', D_activity_cause w)]"
| "session_data (Ended r a s w) =
    [(''reason'', D_end_reason r), (''activity'', D_activity a),
     (''activity_since'', D_activity_since s), (''activity_cause'', D_activity_cause w)]"

fun session_fields :: "agent_session_label \<Rightarrow> string list" where
  "session_fields LiveL = [''channel'', ''activity'', ''activity_since'', ''activity_cause'']"
| "session_fields EndedL = [''reason'', ''activity'', ''activity_since'', ''activity_cause'']"

fun observation_of ::
  "activity option \<Rightarrow> timestamp option \<Rightarrow> string option \<Rightarrow> activity_observation option" where
  "observation_of (Some a) (Some s) (Some w) = Some \<lparr>ob_activity = a, ob_since = s, ob_cause = w\<rparr>"
| "observation_of _ _ _ = None"

fun observation :: "agent_session_state \<Rightarrow> activity_observation option" where
  "observation (Live c a s w) = observation_of a s w"
| "observation (Ended r a s w) = observation_of a s w"

fun with_observation ::
  "agent_session_state \<Rightarrow> activity_observation option \<Rightarrow> agent_session_state" where
  "with_observation (Live c a s w) ob =
    Live c (map_option ob_activity ob) (map_option ob_since ob) (map_option ob_cause ob)"
| "with_observation (Ended r a s w) ob =
    Ended r (map_option ob_activity ob) (map_option ob_since ob) (map_option ob_cause ob)"

definition session_live :: "channel \<Rightarrow> agent_session_state" where
  "session_live c = Live c None None None"

definition session_ended :: "agent_end_reason \<Rightarrow> agent_session_state" where
  "session_ended r = Ended r None None None"

fun session_channel :: "agent_session_state \<Rightarrow> channel option" where
  "session_channel (Live c a s w) = Some c"
| "session_channel (Ended r a s w) = None"

fun session_end_reason :: "agent_session_state \<Rightarrow> agent_end_reason option" where
  "session_end_reason (Ended r a s w) = Some r"
| "session_end_reason (Live c a s w) = None"

datatype agent_session_edge =
  Attach string
| Detach string
| End agent_end_reason string
| Receive receive
| Observe activity string

datatype agent_session_kind = AttachK | DetachK | EndK | ReceiveK | ObserveK

fun session_kind_of :: "agent_session_edge \<Rightarrow> agent_session_kind" where
  "session_kind_of (Attach observed) = AttachK"
| "session_kind_of (Detach observed) = DetachK"
| "session_kind_of (End r observed) = EndK"
| "session_kind_of (Receive r) = ReceiveK"
| "session_kind_of (Observe a w) = ObserveK"

fun project_attach :: "agent_session_edge \<Rightarrow> string option" where
  "project_attach (Attach observed) = Some observed"
| "project_attach _ = None"

fun project_detach :: "agent_session_edge \<Rightarrow> string option" where
  "project_detach (Detach observed) = Some observed"
| "project_detach _ = None"

fun project_end :: "agent_session_edge \<Rightarrow> (agent_end_reason \<times> string) option" where
  "project_end (End r observed) = Some (r, observed)"
| "project_end _ = None"

fun project_receive :: "agent_session_edge \<Rightarrow> receive option" where
  "project_receive (Receive r) = Some r"
| "project_receive _ = None"

fun project_observe :: "agent_session_edge \<Rightarrow> (activity \<times> string) option" where
  "project_observe (Observe a w) = Some (a, w)"
| "project_observe _ = None"

record agent_session_world =
  w_session_end :: "string \<Rightarrow> (version \<times> agent_end_reason) option"
  w_channel_presence :: "string \<Rightarrow> (version \<times> bool) option"

definition SessionEnd :: "(agent_session_world, agent_end_reason) kind" where
  "SessionEnd = \<lparr>k_name = ''session_end'', k_lookup = w_session_end\<rparr>"

definition ChannelPresence :: "(agent_session_world, bool) kind" where
  "ChannelPresence = \<lparr>k_name = ''channel_presence'', k_lookup = w_channel_presence\<rparr>"

datatype agent_session_refusal = AlreadyEnded | WrongChannel | MissingEvidence | UnchangedActivity

type_synonym session_handle =
  "(unit, agent_session_state, agent_session_world, no_records) handle"

definition gate_attach ::
  "session_handle \<Rightarrow> string \<Rightarrow> (agent_session_refusal + unit) \<times> session_handle" where
  "gate_attach h observed =
    (if session_channel (h_state h) \<noteq> Some Detached then (Inl WrongChannel, h)
     else (case handle_read ChannelPresence observed h of (found, h) \<Rightarrow>
       if found = Some True then (Inr (), h) else (Inl MissingEvidence, h)))"

definition gate_detach ::
  "session_handle \<Rightarrow> string \<Rightarrow> (agent_session_refusal + unit) \<times> session_handle" where
  "gate_detach h observed =
    (if session_channel (h_state h) \<noteq> Some Attached then (Inl WrongChannel, h)
     else (case handle_read ChannelPresence observed h of (found, h) \<Rightarrow>
       if found = Some False then (Inr (), h) else (Inl MissingEvidence, h)))"

definition gate_end ::
  "session_handle \<Rightarrow> agent_end_reason \<times> string \<Rightarrow> (agent_session_refusal + unit) \<times> session_handle" where
  "gate_end h arg =
    (case arg of (reason, observed) \<Rightarrow>
      (case handle_read SessionEnd observed h of (found, h) \<Rightarrow>
        if found = Some reason then (Inr (), h) else (Inl MissingEvidence, h)))"

definition gate_observe ::
  "session_handle \<Rightarrow> activity \<times> string \<Rightarrow> (agent_session_refusal + unit) \<times> session_handle" where
  "gate_observe h arg =
    (if map_option ob_activity (observation (h_state h)) = Some (fst arg)
     then (Inl UnchangedActivity, h) else (Inr (), h))"

type_synonym session_declared =
  "(agent_session_label, agent_session_kind, agent_session_state, agent_session_edge, unit,
    agent_session_world, no_records, agent_session_refusal) declared_edge"

definition effect_attach ::
  "session_handle \<Rightarrow> agent_session_state \<Rightarrow> string \<Rightarrow> agent_session_state \<times> session_handle" where
  "effect_attach h state observed =
    (with_observation (session_live Attached) (observation state), h)"

definition effect_detach ::
  "session_handle \<Rightarrow> agent_session_state \<Rightarrow> string \<Rightarrow> agent_session_state \<times> session_handle" where
  "effect_detach h state observed =
    (with_observation (session_live Detached) (observation state), h)"

definition effect_receive ::
  "session_handle \<Rightarrow> agent_session_state \<Rightarrow> receive \<Rightarrow> agent_session_state \<times> session_handle" where
  "effect_receive h state arg = (state, h)"

definition effect_observe ::
  "session_handle \<Rightarrow> agent_session_state \<Rightarrow> activity \<times> string \<Rightarrow> agent_session_state \<times> session_handle" where
  "effect_observe h state arg =
    (with_observation (session_live (the (session_channel state)))
      (Some \<lparr>ob_activity = fst arg, ob_since = h_now h, ob_cause = snd arg\<rparr>), h)"

definition effect_end ::
  "session_handle \<Rightarrow> agent_session_state \<Rightarrow> agent_end_reason \<times> string \<Rightarrow> agent_session_state \<times> session_handle" where
  "effect_end h state arg = (with_observation (session_ended (fst arg)) (observation state), h)"

definition attach_edge :: session_declared where
  "attach_edge = chained (edge_new AttachK)
    [edge_from [LiveL],
     edge_to [LiveL],
     edge_changes [''channel''],
     edge_gate project_attach ''the channel is detached and is observed present'' gate_attach,
     edge_effect project_attach effect_attach]"

definition detach_edge :: session_declared where
  "detach_edge = chained (edge_new DetachK)
    [edge_from [LiveL],
     edge_to [LiveL],
     edge_changes [''channel''],
     edge_gate project_detach ''the channel is attached and is observed absent'' gate_detach,
     edge_effect project_detach effect_detach]"

definition receive_edge :: session_declared where
  "receive_edge = chained (edge_new ReceiveK)
    [edge_from [LiveL],
     edge_to [LiveL],
     edge_about project_receive rv_message,
     edge_ungated ''a receipt reports a turn the consumer took; the message's own gates judge it'',
     edge_effect project_receive effect_receive]"

definition observe_edge :: session_declared where
  "observe_edge = chained (edge_new ObserveK)
    [edge_from [LiveL],
     edge_to [LiveL],
     edge_changes [''activity'', ''activity_since'', ''activity_cause''],
     edge_gate project_observe ''the observed activity differs from the current activity'' gate_observe,
     edge_effect project_observe effect_observe]"

definition end_edge :: session_declared where
  "end_edge = chained (edge_new EndK)
    [edge_from [LiveL],
     edge_to [EndedL],
     edge_changes [''reason''],
     edge_gate project_end ''the session's end is observed with this reason'' gate_end,
     edge_effect project_end effect_end]"

definition agent_session_definition ::
  "(agent_session_label, agent_session_kind, agent_session_state, agent_session_edge, unit,
    agent_session_world, no_records, agent_session_refusal) machine_def" where
  "agent_session_definition =
    chained (machine_new LiveL)
      [machine_edge attach_edge,
       machine_edge detach_edge,
       machine_edge receive_edge,
       machine_edge observe_edge,
       machine_edge end_edge,
       machine_end EndedL ''the session has ended'']"

definition agent_session_machine ::
  "(agent_session_label, agent_session_kind, agent_session_state, agent_session_edge, unit,
    agent_session_world, no_records, agent_session_refusal, session_datum, unit) machine" where
  "agent_session_machine =
    \<lparr>m_name = ''AgentSession'', m_label = session_label_of, m_data = session_data,
     m_fields = session_fields, m_labels = [LiveL, EndedL],
     m_label_name = (\<lambda>l. case l of LiveL \<Rightarrow> ''Live'' | EndedL \<Rightarrow> ''Ended''),
     m_label_code = (\<lambda>l. case l of LiveL \<Rightarrow> ''li'' | EndedL \<Rightarrow> ''en''),
     m_kind = session_kind_of, m_kinds = [AttachK, DetachK, EndK, ReceiveK, ObserveK],
     m_kind_name = (\<lambda>k. case k of AttachK \<Rightarrow> ''attach'' | DetachK \<Rightarrow> ''detach'' | EndK \<Rightarrow> ''end''
       | ReceiveK \<Rightarrow> ''receive'' | ObserveK \<Rightarrow> ''observe''),
     m_kind_code = (\<lambda>k. case k of AttachK \<Rightarrow> ''at'' | DetachK \<Rightarrow> ''de'' | EndK \<Rightarrow> ''en''
       | ReceiveK \<Rightarrow> ''rv'' | ObserveK \<Rightarrow> ''ob''),
     m_write_field = (\<lambda>_. []), m_write_apply = (\<lambda>_ _ spec. Inr spec),
     m_ended = (\<lambda>_ _. AlreadyEnded), m_wrong_state = (\<lambda>_ _. AlreadyEnded),
     m_definition = agent_session_definition,
     m_admit = (\<lambda>a request. (Inr ((), session_live Detached), a))\<rparr>"

definition agent_session_consumer :: "agent_session_edge consumer" where
  "agent_session_consumer =
    \<lparr>c_kind = AgentSession_Consumer, c_receive = ''rv'',
     c_receipt = (\<lambda>e. map_option (\<lambda>r. (rv_message r, rv_transport r)) (project_receive e))\<rparr>"

text \<open>The three observation data come and go together.\<close>

fun session_inv :: "agent_session_state \<Rightarrow> bool" where
  "session_inv (Live c a s w) \<longleftrightarrow> (a = None \<longleftrightarrow> s = None) \<and> (a = None \<longleftrightarrow> w = None)"
| "session_inv (Ended r a s w) \<longleftrightarrow> (a = None \<longleftrightarrow> s = None) \<and> (a = None \<longleftrightarrow> w = None)"

section \<open>Lemmas\<close>

lemmas session_edge_defs = attach_edge_def detach_edge_def receive_edge_def observe_edge_def
  end_edge_def

lemmas session_effect_defs = effect_attach_def effect_detach_def effect_receive_def
  effect_observe_def effect_end_def

lemma session_find:
  "find_edge agent_session_definition AttachK = Some attach_edge"
  "find_edge agent_session_definition DetachK = Some detach_edge"
  "find_edge agent_session_definition ReceiveK = Some receive_edge"
  "find_edge agent_session_definition ObserveK = Some observe_edge"
  "find_edge agent_session_definition EndK = Some end_edge"
  by (simp_all add: agent_session_definition_def find_edge_def machine_builder_defs edge_builder_defs
      session_edge_defs)

lemma session_ends:
  "end_reason agent_session_definition LiveL = None"
  "end_reason agent_session_definition EndedL = Some ''the session has ended''"
  by (simp_all add: agent_session_definition_def end_reason_def machine_builder_defs)

lemma session_machine_simps [simp]:
  "m_definition agent_session_machine = agent_session_definition"
  "m_label agent_session_machine = session_label_of"
  "m_data agent_session_machine = session_data"
  "m_kind agent_session_machine = session_kind_of"
  "m_ended agent_session_machine l r = AlreadyEnded"
  "m_wrong_state agent_session_machine l k = AlreadyEnded"
  "m_write_apply agent_session_machine w v spec = Inr spec"
  "m_admit agent_session_machine a request = (Inr ((), session_live Detached), a)"
  by (simp_all add: agent_session_machine_def)

lemma session_gates_view:
  "same_view h (snd (gate_attach h observed))"
  "same_view h (snd (gate_detach h observed))"
  "same_view h (snd (gate_end h arg))"
  "same_view h (snd (gate_observe h act))"
  by (auto simp: gate_attach_def gate_detach_def gate_end_def gate_observe_def handle_read_eq
      split: prod.splits)

lemma with_observation_id:
  "session_inv (Live c a s w) \<Longrightarrow>
    with_observation (session_live d) (observation_of a s w) = Live d a s w"
  "session_inv (Live c a s w) \<Longrightarrow>
    with_observation (session_ended r) (observation_of a s w) = Ended r a s w"
  by (cases a; cases s; cases w; simp add: session_live_def session_ended_def)+

lemma session_effects:
  "session_inv (Live c a s w) \<Longrightarrow> effect_attach h (Live c a s w) observed = (Live Attached a s w, h)"
  "session_inv (Live c a s w) \<Longrightarrow> effect_detach h (Live c a s w) observed = (Live Detached a s w, h)"
  "session_inv (Live c a s w) \<Longrightarrow> effect_end h (Live c a s w) (r, observed) = (Ended r a s w, h)"
  "effect_receive h state rv = (state, h)"
  "effect_observe h (Live c a s w) (act, cause)
    = (Live c (Some act) (Some (h_now h)) (Some cause), h)"
  by (simp_all add: session_effect_defs with_observation_id del: session_inv.simps)
    (simp add: session_live_def)

lemma session_changed:
  "set (changed (session_data (Live c a s w)) (session_data (Live d a s w))) \<subseteq> {''channel''}"
  "set (changed (session_data (Live c a s w)) (session_data (Ended r a s w))) \<subseteq> {''reason''}"
  "set (changed (session_data (Live c a s w)) (session_data (Live c a' s' w')))
    \<subseteq> {''activity'', ''activity_since'', ''activity_cause''}"
  by (simp_all add: changed_subset)

text \<open>A Live session's step, edge by edge: the gate decides and the effect is what it says.\<close>

lemmas session_step_simps = session_find session_ends session_edge_defs edge_builder_defs
  session_effects session_changed session_gates_view

lemma session_step_live:
  assumes state: "h_state h = Live c a s w" "session_inv (Live c a s w)"
  shows "step agent_session_machine (Attach observed) h
      = gated (gate_attach h observed) (\<lambda>h. (Live Attached a s w, h))"
    and "step agent_session_machine (Detach observed) h
      = gated (gate_detach h observed) (\<lambda>h. (Live Detached a s w, h))"
    and "step agent_session_machine (End r observed) h
      = gated (gate_end h (r, observed)) (\<lambda>h. (Ended r a s w, h))"
    and "step agent_session_machine (Receive rv) h = (Inr (Live c a s w), h)"
    and "step agent_session_machine (Observe act cause) h
      = gated (gate_observe h (act, cause)) (\<lambda>h. (Live c (Some act) (Some (h_now h)) (Some cause), h))"
  subgoal
    using state by (subst step_of_gated [where d = attach_edge and p = project_attach
          and gate = gate_attach and eff = effect_attach and arg = observed])
      (simp_all add: session_step_simps del: session_inv.simps session_data.simps)
  subgoal
    using state by (subst step_of_gated [where d = detach_edge and p = project_detach
          and gate = gate_detach and eff = effect_detach and arg = observed])
      (simp_all add: session_step_simps del: session_inv.simps session_data.simps)
  subgoal
    using state by (subst step_of_gated [where d = end_edge and p = project_end
          and gate = gate_end and eff = effect_end and arg = "(r, observed)"])
      (simp_all add: session_step_simps del: session_inv.simps session_data.simps)
  subgoal
    using state by (subst step_of_ungated [where d = receive_edge and p = project_receive
          and eff = effect_receive and arg = rv])
      (simp_all add: session_step_simps del: session_inv.simps session_data.simps)
  subgoal
    using state by (subst step_of_gated [where d = observe_edge and p = project_observe
          and gate = gate_observe and eff = effect_observe and arg = "(act, cause)"])
      (simp_all add: session_step_simps del: session_inv.simps session_data.simps)
  done

lemma session_step_ended:
  "h_state h = Ended r a s w \<Longrightarrow> step agent_session_machine edge h = (Inl (Refused AlreadyEnded), h)"
  by (subst step_ended [where reason = "''the session has ended''"]) (simp_all add: session_ends)

lemmas session_gate_defs = gate_attach_def gate_detach_def gate_end_def gate_observe_def

text \<open>What an accepted step of a session did.\<close>

lemma session_step_InrD:
  assumes "session_inv (h_state h)" "step agent_session_machine edge h = (Inr state, h')"
  obtains c a s w where "h_state h = Live c a s w" "h_writes h' = h_writes h"
    "(\<exists>observed. edge = Attach observed \<and> c = Detached \<and> state = Live Attached a s w
        \<and> look ChannelPresence observed h = Some True)
     \<or> (\<exists>observed. edge = Detach observed \<and> c = Attached \<and> state = Live Detached a s w
        \<and> look ChannelPresence observed h = Some False)
     \<or> (\<exists>r observed. edge = End r observed \<and> state = Ended r a s w
        \<and> look SessionEnd observed h = Some r)
     \<or> (\<exists>rv. edge = Receive rv \<and> state = Live c a s w)
     \<or> (\<exists>act cause. edge = Observe act cause \<and> a \<noteq> Some act
        \<and> state = Live c (Some act) (Some (h_now h)) (Some cause))"
proof (cases "h_state h")
  case (Ended r a s w)
  with assms show ?thesis
    by (simp add: session_step_ended)
next
  case (Live c a s w)
  have inv: "session_inv (Live c a s w)"
    using assms(1) Live by auto
  note steps = session_step_live [OF Live inv]
  have act: "map_option ob_activity (observation_of a s w) = a"
    using inv by (cases a; cases s; cases w) auto
  show ?thesis
    using assms(2)
    by (intro that [OF Live]; cases edge)
      (auto simp: steps gated_Inr session_gate_defs handle_read_eq Live act split: if_splits)
qed

lemma session_step_no_fault:
  "session_inv (h_state h) \<Longrightarrow> fst (step agent_session_machine edge h) \<noteq> Inl (Fault f)"
  by (cases "h_state h"; cases edge) (auto simp: session_step_live session_step_ended)

interpretation session: machine_invariant agent_session_machine "\<lambda>_. session_inv"
proof (unfold_locales, goal_cases)
  case (1 a request spec state a')
  then show ?case
    by (auto simp: session_live_def)
next
  case (2 h edge state' h' v)
  from 2(1,3) show ?case
    by (rule session_step_InrD) (use 2(1) in auto)
qed

end
