(* ===== verification/Message.thy ===== *)
theory Message
  imports Consumers
begin

text \<open>
  The Message machine: \<open>src/crates/flotilla-state-machines/src/machines/message.rs\<close>, and the
  receipt log its gates read.

  A message is Pending until a receipt claims it for one receiver, a condition settles it, or it
  is dropped for a reason whose evidence the gate reads. Addresses and conditions are represented
  by their canonical texts, which is what their equality and the gates' lookups use, and the frozen
  body by its content hash, since no gate reads it. The decoding of an entry's arguments (CBOR) is
  a parameter of the receipt log.

  The lemmas give each edge's gate as a condition on what the world holds, and an invariant of
  every message a home can hold: what a settled or dropped message says of its delivery and its
  deadline.
\<close>

section \<open>The envelope\<close>

datatype expectation = Nothing | Reply | Outcome string

datatype relation = Supervisor | Peer | Dependency | Dependee | System

record message_reference =
  mr_address :: string
  mr_revision :: string
  mr_subject :: bool

record message_ref =
  mref_name :: string
  mref_home :: string

definition sent :: "message_ref \<Rightarrow> string" where
  "sent m = mref_name m @ ''@'' @ mref_home m"

record message_spec =
  ms_sender :: string
  ms_inbox :: string
  ms_admitted_seq :: nat
  ms_relation :: relation
  ms_body :: string
  ms_references :: "message_reference list"
  ms_in_reply_to :: "message_ref option"
  ms_supersedes :: "message_ref option"
  ms_expectation :: expectation
  ms_deadline :: "timestamp option"
  ms_unbound_after :: int
  ms_delivery_condition :: "string option"

definition message_spec_new :: "string \<Rightarrow> string \<Rightarrow> relation \<Rightarrow> string \<Rightarrow> message_spec" where
  "message_spec_new sender inbox relation body =
    \<lparr>ms_sender = sender, ms_inbox = inbox, ms_admitted_seq = 0, ms_relation = relation,
     ms_body = body, ms_references = [], ms_in_reply_to = None, ms_supersedes = None,
     ms_expectation = Nothing, ms_deadline = None, ms_unbound_after = 0,
     ms_delivery_condition = None\<rparr>"

definition subject :: "message_spec \<Rightarrow> message_reference option" where
  "subject spec =
    (case filter mr_subject (ms_references spec) of [s] \<Rightarrow> Some s | _ \<Rightarrow> None)"

section \<open>States and edges\<close>

datatype drop_reason =
  Undeliverable
| Expired
| Superseded string
| Withdrawn string string
| ConsumerUnreachable string string

datatype message_state =
  Pending
| Awaiting receiver
| Settled "receiver option"
| Dropped drop_reason "receiver option" "timestamp option"

datatype message_label = PendingL | AwaitingL | SettledL | DroppedL

datatype message_datum =
  D_receiver receiver
| D_receiver_opt "receiver option"
| D_reason drop_reason
| D_watermark "timestamp option"

fun message_label_of :: "message_state \<Rightarrow> message_label" where
  "message_label_of Pending = PendingL"
| "message_label_of (Awaiting r) = AwaitingL"
| "message_label_of (Settled r) = SettledL"
| "message_label_of (Dropped d r w) = DroppedL"

fun message_data :: "message_state \<Rightarrow> (string \<times> message_datum) list" where
  "message_data Pending = []"
| "message_data (Awaiting r) = [(''receiver'', D_receiver r)]"
| "message_data (Settled r) = [(''receiver'', D_receiver_opt r)]"
| "message_data (Dropped d r w) =
    [(''reason'', D_reason d), (''receiver'', D_receiver_opt r), (''watermark'', D_watermark w)]"

fun message_fields :: "message_label \<Rightarrow> string list" where
  "message_fields PendingL = []"
| "message_fields AwaitingL = [''receiver'']"
| "message_fields SettledL = [''receiver'']"
| "message_fields DroppedL = [''reason'', ''receiver'', ''watermark'']"

fun message_receiver :: "message_state \<Rightarrow> receiver option" where
  "message_receiver (Awaiting r) = Some r"
| "message_receiver (Settled r) = r"
| "message_receiver (Dropped d r w) = r"
| "message_receiver Pending = None"

fun message_drop_reason :: "message_state \<Rightarrow> drop_reason option" where
  "message_drop_reason (Dropped d r w) = Some d"
| "message_drop_reason _ = None"

record deliver_arg =
  dl_receiver :: receiver
  dl_transport :: transport

datatype settlement = Answered | OutcomeObserved

datatype message_edge = Deliver deliver_arg | Settle settlement | Drop drop_reason

datatype message_kind = DeliverK | SettleK | DropK

fun message_kind_of :: "message_edge \<Rightarrow> message_kind" where
  "message_kind_of (Deliver d) = DeliverK"
| "message_kind_of (Settle s) = SettleK"
| "message_kind_of (Drop d) = DropK"

fun project_deliver :: "message_edge \<Rightarrow> deliver_arg option" where
  "project_deliver (Deliver d) = Some d"
| "project_deliver _ = None"

fun project_settle :: "message_edge \<Rightarrow> settlement option" where
  "project_settle (Settle s) = Some s"
| "project_settle _ = None"

fun project_drop :: "message_edge \<Rightarrow> drop_reason option" where
  "project_drop (Drop d) = Some d"
| "project_drop _ = None"

section \<open>The world\<close>

datatype inbox_binding = Bound "receiver btree_set" | Unbound timestamp

fun binds :: "inbox_binding \<Rightarrow> receiver \<Rightarrow> bool" where
  "binds (Bound consumers) c \<longleftrightarrow> c \<in> set consumers"
| "binds (Unbound since) c \<longleftrightarrow> False"

record message_world =
  w_receipts :: "string \<Rightarrow> (version \<times> (receiver, transport) btree_map) option"
  w_binding :: "string \<Rightarrow> (version \<times> inbox_binding) option"
  w_applied_through :: "string \<Rightarrow> (version \<times> timestamp) option"
  w_reply :: "string \<Rightarrow> (version \<times> unit) option"
  w_condition :: "string \<Rightarrow> (version \<times> bool) option"
  w_delivery_failure :: "string \<Rightarrow> (version \<times> unit) option"
  w_supersession :: "string \<Rightarrow> (version \<times> string) option"
  w_authority :: "string \<Rightarrow> (version \<times> bool) option"
  w_sent :: "string \<Rightarrow> (version \<times> unit) option"

definition Receipts :: "(message_world, (receiver, transport) btree_map) kind" where
  "Receipts = \<lparr>k_name = ''message_receipts'', k_lookup = w_receipts\<rparr>"

definition Binding :: "(message_world, inbox_binding) kind" where
  "Binding = \<lparr>k_name = ''binding'', k_lookup = w_binding\<rparr>"

definition AppliedThrough :: "(message_world, timestamp) kind" where
  "AppliedThrough = \<lparr>k_name = ''applied_through'', k_lookup = w_applied_through\<rparr>"

definition Reply_Kind :: "(message_world, unit) kind" where
  "Reply_Kind = \<lparr>k_name = ''reply'', k_lookup = w_reply\<rparr>"

definition Condition :: "(message_world, bool) kind" where
  "Condition = \<lparr>k_name = ''condition'', k_lookup = w_condition\<rparr>"

definition DeliveryFailure :: "(message_world, unit) kind" where
  "DeliveryFailure = \<lparr>k_name = ''delivery_failure'', k_lookup = w_delivery_failure\<rparr>"

definition Supersession :: "(message_world, string) kind" where
  "Supersession = \<lparr>k_name = ''supersession'', k_lookup = w_supersession\<rparr>"

definition Authority :: "(message_world, bool) kind" where
  "Authority = \<lparr>k_name = ''authority'', k_lookup = w_authority\<rparr>"

definition Sent :: "(message_world, unit) kind" where
  "Sent = \<lparr>k_name = ''message'', k_lookup = w_sent\<rparr>"

datatype message_refusal =
  Message_Ended
| Message_WrongState
| IncorrectReceipt
| UnsupportedSettlement
| Message_MissingEvidence
| PrefixBeforeDeadline
| ExpectationMet
| ReceiptConfirmed
| Message_Unauthorised
| SubjectsConflict
| EmptyRevision
| UnknownMessage

section \<open>Gates and effects\<close>

type_synonym message_handle = "(message_spec, message_state, message_world, no_records) handle"

type_synonym message_gate = "(message_refusal + unit) \<times> message_handle"

definition receipts :: "message_handle \<Rightarrow> (receiver, transport) btree_map option \<times> message_handle" where
  "receipts h = handle_read Receipts (handle_name h) h"

definition pending_for :: "message_handle \<Rightarrow> receiver \<Rightarrow> bool \<times> message_handle" where
  "pending_for h consumer =
    (if h_state h \<noteq> Pending then (False, h)
     else (case handle_read Binding (ms_inbox (h_spec h)) h of (binding, h) \<Rightarrow>
       if \<not> (case binding of None \<Rightarrow> False | Some b \<Rightarrow> binds b consumer) then (False, h)
       else (case receipts h of (found, h) \<Rightarrow>
         (\<not> (case found of None \<Rightarrow> False | Some by_consumer \<Rightarrow> bm_contains by_consumer consumer), h))))"

definition gate_deliver :: "message_handle \<Rightarrow> deliver_arg \<Rightarrow> message_gate" where
  "gate_deliver h d =
    (case receipts h of (found, h) \<Rightarrow>
      (case Option.bind found (\<lambda>by_consumer. bm_get by_consumer (dl_receiver d)) of
         Some transport \<Rightarrow>
           if transport = dl_transport d then (Inr (), h) else (Inl IncorrectReceipt, h)
       | None \<Rightarrow> (Inl IncorrectReceipt, h)))"

definition deliver :: "message_handle \<Rightarrow> message_state \<Rightarrow> deliver_arg \<Rightarrow> message_state \<times> message_handle" where
  "deliver h state d =
    (case ms_expectation (h_spec h) of
       Nothing \<Rightarrow> (Settled (Some (dl_receiver d)), h)
     | _ \<Rightarrow> (Awaiting (dl_receiver d), h))"

definition outcome_observed :: "message_handle \<Rightarrow> string \<Rightarrow> bool \<times> message_handle" where
  "outcome_observed h condition =
    (case handle_read Condition condition h of (found, h) \<Rightarrow>
      (case found of None \<Rightarrow> False | Some b \<Rightarrow> b, h))"

definition gate_settle :: "message_handle \<Rightarrow> settlement \<Rightarrow> message_gate" where
  "gate_settle h by_what =
    (let conclude = (\<lambda>(observed, h). if observed then (Inr (), h) else (Inl Message_MissingEvidence, h))
     in case by_what of
       Answered \<Rightarrow>
         if h_state h = Pending then (Inl Message_WrongState, h)
         else if ms_expectation (h_spec h) \<noteq> Reply then (Inl UnsupportedSettlement, h)
         else (case handle_read Reply_Kind (handle_name h) h of (found, h) \<Rightarrow>
           conclude (found \<noteq> None, h))
     | OutcomeObserved \<Rightarrow>
         (case ms_expectation (h_spec h) of
            Outcome condition \<Rightarrow> conclude (outcome_observed h condition)
          | _ \<Rightarrow> (Inl UnsupportedSettlement, h)))"

definition settle :: "message_handle \<Rightarrow> message_state \<Rightarrow> settlement \<Rightarrow> message_state \<times> message_handle" where
  "settle h state by_what = (Settled (message_receiver state), h)"

definition authorised :: "message_handle \<Rightarrow> string \<Rightarrow> message_gate" where
  "authorised h authority =
    (case handle_read Authority authority h of (found, h) \<Rightarrow>
      if (case found of None \<Rightarrow> False | Some b \<Rightarrow> b) then (Inr (), h)
      else (Inl Message_Unauthorised, h))"

definition condition_lapsed :: "message_handle \<Rightarrow> bool \<times> message_handle" where
  "condition_lapsed h =
    (case ms_delivery_condition (h_spec h) of
       None \<Rightarrow> (False, h)
     | Some condition \<Rightarrow> (case handle_read Condition condition h of (found, h) \<Rightarrow>
         (found = Some False, h)))"

definition consumer_bound :: "message_handle \<Rightarrow> bool \<times> message_handle" where
  "consumer_bound h =
    (case handle_read Binding (ms_inbox (h_spec h)) h of (found, h) \<Rightarrow>
      ((case found of Some (Bound consumers) \<Rightarrow> True | _ \<Rightarrow> False)
         \<or> message_receiver (h_state h) \<noteq> None, h))"

definition applied_through :: "message_handle \<Rightarrow> timestamp option \<times> message_handle" where
  "applied_through h = handle_read AppliedThrough (ms_inbox (h_spec h)) h"

text \<open>The last check of \<open>expired\<close>: no expected evidence was observed.\<close>

definition expectation_met :: "message_handle \<Rightarrow> bool \<times> message_handle" where
  "expectation_met h =
    (case ms_expectation (h_spec h) of
       Nothing \<Rightarrow> (False, h)
     | Reply \<Rightarrow> (case handle_read Reply_Kind (handle_name h) h of (found, h) \<Rightarrow> (found \<noteq> None, h))
     | Outcome condition \<Rightarrow> outcome_observed h condition)"

definition expired :: "message_handle \<Rightarrow> message_gate" where
  "expired h =
    (let unmet = (\<lambda>h. case expectation_met h of (met, h) \<Rightarrow>
           if met then (Inl ExpectationMet, h) else (Inr (), h))
     in case ms_deadline (h_spec h) of
       None \<Rightarrow> (Inl Message_MissingEvidence, h)
     | Some deadline \<Rightarrow>
         if \<not> deadline < h_now h then (Inl Message_MissingEvidence, h)
         else (case consumer_bound h of (bound, h) \<Rightarrow>
           if bound
           then (case applied_through h of (watermark, h) \<Rightarrow>
             if (case watermark of None \<Rightarrow> True | Some w \<Rightarrow> w \<le> deadline)
             then (Inl PrefixBeforeDeadline, h) else unmet h)
           else unmet h))"

definition undeliverable :: "message_handle \<Rightarrow> message_gate" where
  "undeliverable h =
    (if h_state h \<noteq> Pending then (Inl Message_WrongState, h)
     else (case receipts h of (found, h) \<Rightarrow>
       if (case found of None \<Rightarrow> False | Some by_consumer \<Rightarrow> by_consumer \<noteq> [])
       then (Inl ReceiptConfirmed, h)
       else (case handle_read Binding (ms_inbox (h_spec h)) h of (binding, h) \<Rightarrow>
         if (case binding of
               Some (Unbound since) \<Rightarrow> ms_unbound_after (h_spec h) < timestamp_since (h_now h) since
             | _ \<Rightarrow> False)
         then (Inr (), h)
         else (case handle_read DeliveryFailure (handle_name h) h of (failure, h) \<Rightarrow>
           if failure \<noteq> None then (Inr (), h) else (Inl Message_MissingEvidence, h)))))"

definition gate_drop :: "message_handle \<Rightarrow> drop_reason \<Rightarrow> message_gate" where
  "gate_drop h reason =
    (case reason of
       Expired \<Rightarrow> expired h
     | Undeliverable \<Rightarrow> undeliverable h
     | Superseded by_what \<Rightarrow>
         (case handle_read Supersession by_what h of (found, h) \<Rightarrow>
           if found = Some (handle_name h) then (Inr (), h) else (Inl Message_MissingEvidence, h))
     | Withdrawn by_whom authority \<Rightarrow>
         (case authorised h authority of
            (Inr _, h) \<Rightarrow> (Inr (), h)
          | (Inl refusal, h) \<Rightarrow> (case condition_lapsed h of (lapsed, h) \<Rightarrow>
              if lapsed then (Inr (), h) else (Inl refusal, h)))
     | ConsumerUnreachable by_whom authority \<Rightarrow> authorised h authority)"

definition drop_message ::
  "message_handle \<Rightarrow> message_state \<Rightarrow> drop_reason \<Rightarrow> message_state \<times> message_handle" where
  "drop_message h state reason =
    (let dropped = (\<lambda>(watermark, h). (Dropped reason (message_receiver state) watermark, h))
     in if reason = Expired
        then (case consumer_bound h of (bound, h) \<Rightarrow>
          if bound then dropped (applied_through h) else dropped (None, h))
        else dropped (None, h))"

section \<open>The machine\<close>

type_synonym message_declared =
  "(message_label, message_kind, message_state, message_edge, message_spec, message_world,
    no_records, message_refusal) declared_edge"

definition message_deliver_edge :: message_declared where
  "message_deliver_edge = chained (edge_new DeliverK)
    [edge_from [PendingL],
     edge_to [SettledL, AwaitingL],
     edge_changes [''receiver''],
     edge_gate project_deliver ''the receiver's receipt was observed with this transport'' gate_deliver,
     edge_effect project_deliver deliver]"

definition message_settle_edge :: message_declared where
  "message_settle_edge = chained (edge_new SettleK)
    [edge_from [PendingL, AwaitingL],
     edge_to [SettledL],
     edge_changes [''receiver''],
     edge_gate project_settle
       ''the expectation's evidence was observed (a reply only after delivery)'' gate_settle,
     edge_effect project_settle settle]"

definition message_drop_edge :: message_declared where
  "message_drop_edge = chained (edge_new DropK)
    [edge_from [PendingL, AwaitingL],
     edge_to [DroppedL],
     edge_changes [''reason'', ''receiver'', ''watermark''],
     edge_gate project_drop ''the drop reason's evidence holds'' gate_drop,
     edge_effect project_drop drop_message]"

definition message_definition ::
  "(message_label, message_kind, message_state, message_edge, message_spec, message_world,
    no_records, message_refusal) machine_def" where
  "message_definition =
    chained (machine_new PendingL)
      [machine_edge message_deliver_edge,
       machine_edge message_settle_edge,
       machine_edge message_drop_edge,
       machine_end SettledL ''the message was settled'',
       machine_end DroppedL ''the message was dropped'']"

text \<open>The loop over the messages replied to and superseded.\<close>

fun admit_sent ::
  "message_ref option list \<Rightarrow> message_world admission \<Rightarrow> bool \<times> message_world admission" where
  "admit_sent [] a = (True, a)"
| "admit_sent (None # ms) a = admit_sent ms a"
| "admit_sent (Some m # ms) a =
    (case admission_read Sent (sent m) a of
       (None, a) \<Rightarrow> (False, a)
     | (Some u, a) \<Rightarrow> admit_sent ms a)"

definition message_admit ::
  "message_world admission \<Rightarrow> message_spec
    \<Rightarrow> (message_refusal + message_spec \<times> message_state) \<times> message_world admission" where
  "message_admit a spec =
    (if 1 < length (filter mr_subject (ms_references spec)) then (Inl SubjectsConflict, a)
     else if list_ex (\<lambda>r. mr_revision r = []) (ms_references spec) then (Inl EmptyRevision, a)
     else (case admit_sent [ms_in_reply_to spec, ms_supersedes spec] a of
       (False, a) \<Rightarrow> (Inl UnknownMessage, a)
     | (True, a) \<Rightarrow> (Inr (spec, Pending), a)))"

definition message_machine ::
  "(message_label, message_kind, message_state, message_edge, message_spec, message_world,
    no_records, message_refusal, message_datum, message_spec) machine" where
  "message_machine =
    \<lparr>m_name = ''Message'', m_label = message_label_of, m_data = message_data,
     m_fields = message_fields, m_labels = [PendingL, AwaitingL, SettledL, DroppedL],
     m_label_name = (\<lambda>l. case l of PendingL \<Rightarrow> ''Pending'' | AwaitingL \<Rightarrow> ''Awaiting''
       | SettledL \<Rightarrow> ''Settled'' | DroppedL \<Rightarrow> ''Dropped''),
     m_label_code = (\<lambda>l. case l of PendingL \<Rightarrow> ''pe'' | AwaitingL \<Rightarrow> ''aw''
       | SettledL \<Rightarrow> ''se'' | DroppedL \<Rightarrow> ''dr''),
     m_kind = message_kind_of, m_kinds = [DeliverK, SettleK, DropK],
     m_kind_name = (\<lambda>k. case k of DeliverK \<Rightarrow> ''deliver'' | SettleK \<Rightarrow> ''settle'' | DropK \<Rightarrow> ''drop''),
     m_kind_code = (\<lambda>k. case k of DeliverK \<Rightarrow> ''de'' | SettleK \<Rightarrow> ''se'' | DropK \<Rightarrow> ''dr''),
     m_write_field = (\<lambda>_. []), m_write_apply = (\<lambda>_ _ spec. Inr spec),
     m_ended = (\<lambda>_ _. Message_Ended), m_wrong_state = (\<lambda>_ _. Message_WrongState),
     m_definition = message_definition,
     m_admit = message_admit\<rparr>"

section \<open>The receipt log\<close>

text \<open>
  A log entry as the receipt reader sees it: the resource's kind code, name and home, the code of
  its edge when its cause is one, and its arguments' document. Reading a document as an edge is
  the parameter \<open>read_doc\<close>.
\<close>

type_synonym event_error = string

record 'doc log_entry =
  le_kind :: string
  le_name :: string
  le_home :: string
  le_edge :: "string option"
  le_arguments :: "'doc option"

type_synonym 'doc decode_receipt_fn = "'doc log_entry \<Rightarrow> event_error + (string \<times> transport) option"

record 'doc receipt_log =
  rl_consumers :: "(string, consumer_kind \<times> 'doc decode_receipt_fn) btree_map"
  rl_messages :: "(string, version \<times> (receiver, transport) btree_map) btree_map"

definition decode_receipt :: "'e consumer \<Rightarrow> ('doc \<Rightarrow> event_error + 'e) \<Rightarrow> 'doc decode_receipt_fn" where
  "decode_receipt c read_doc entry =
    (if le_edge entry \<noteq> Some (c_receive c) then Inr None
     else (case le_arguments entry of
       None \<Rightarrow> Inr None
     | Some doc \<Rightarrow> (case read_doc doc of Inl e \<Rightarrow> Inl e | Inr edge \<Rightarrow> Inr (c_receipt c edge))))"

definition receipt_log_consumer ::
  "string \<Rightarrow> 'e consumer \<Rightarrow> ('doc \<Rightarrow> event_error + 'e) \<Rightarrow> 'doc receipt_log \<Rightarrow> 'doc receipt_log" where
  "receipt_log_consumer code c read_doc rl =
    rl\<lparr>rl_consumers := bm_insert code (c_kind c, decode_receipt c read_doc) (rl_consumers rl)\<rparr>"

definition receipt_log_new ::
  "('doc \<Rightarrow> event_error + agent_session_edge) \<Rightarrow> ('doc \<Rightarrow> event_error + person_edge) \<Rightarrow> 'doc receipt_log" where
  "receipt_log_new read_session read_person =
    receipt_log_consumer ''pn'' person_consumer read_person
      (receipt_log_consumer ''as'' agent_session_consumer read_session
        \<lparr>rl_consumers = [], rl_messages = []\<rparr>)"

fun collect_receipts ::
  "(string, consumer_kind \<times> 'doc decode_receipt_fn) btree_map \<Rightarrow> string \<Rightarrow> 'doc log_entry list
    \<Rightarrow> (receiver, transport) btree_map \<times> nat
    \<Rightarrow> event_error + ((receiver, transport) btree_map \<times> nat)" where
  "collect_receipts consumers message [] acc = Inr acc"
| "collect_receipts consumers message (entry # entries) (found, count) =
    (case bm_get consumers (le_kind entry) of
       None \<Rightarrow> collect_receipts consumers message entries (found, count)
     | Some (kind, decode) \<Rightarrow> (case decode entry of
         Inl e \<Rightarrow> Inl e
       | Inr None \<Rightarrow> collect_receipts consumers message entries (found, count)
       | Inr (Some (about, transport)) \<Rightarrow>
           if about = message
           then collect_receipts consumers message entries
             (bm_insert (Receiver kind (le_name entry) (le_home entry)) transport found, Suc count)
           else collect_receipts consumers message entries (found, count)))"

definition receipt_log_insert ::
  "string \<Rightarrow> 'doc log_entry list \<Rightarrow> 'doc receipt_log \<Rightarrow> (event_error + unit) \<times> 'doc receipt_log" where
  "receipt_log_insert message entries rl =
    (case collect_receipts (rl_consumers rl) message entries ([], 0) of
       Inl e \<Rightarrow> (Inl e, rl)
     | Inr (found, count) \<Rightarrow>
         (Inr (), rl\<lparr>rl_messages :=
            (if count = 0 then bm_remove message (rl_messages rl)
             else bm_insert message (count, found) (rl_messages rl))\<rparr>))"

definition receipt_log_lookup ::
  "'doc receipt_log \<Rightarrow> string \<Rightarrow> (version \<times> (receiver, transport) btree_map) option" where
  "receipt_log_lookup rl message = bm_get (rl_messages rl) message"

text \<open>The receipts a list of entries holds about a message, in the order of the entries.\<close>

definition receipt_of ::
  "(string, consumer_kind \<times> 'doc decode_receipt_fn) btree_map \<Rightarrow> string \<Rightarrow> 'doc log_entry
    \<Rightarrow> (receiver \<times> transport) list" where
  "receipt_of consumers message entry =
    (case bm_get consumers (le_kind entry) of
       Some (kind, decode) \<Rightarrow> (case decode entry of
         Inr (Some (about, transport)) \<Rightarrow>
           if about = message then [(Receiver kind (le_name entry) (le_home entry), transport)] else []
       | _ \<Rightarrow> [])
     | None \<Rightarrow> [])"

definition readable ::
  "(string, consumer_kind \<times> 'doc decode_receipt_fn) btree_map \<Rightarrow> 'doc log_entry \<Rightarrow> bool" where
  "readable consumers entry =
    (case bm_get consumers (le_kind entry) of
       Some (kind, decode) \<Rightarrow> is_ok (decode entry)
     | None \<Rightarrow> True)"

section \<open>Evidence\<close>

text \<open>
  What the world, as a handle sees it, must hold for each edge, in the words of the gates'
  documentation.
\<close>

definition receipt_observed :: "message_handle \<Rightarrow> receiver \<Rightarrow> transport \<Rightarrow> bool" where
  "receipt_observed h r t \<longleftrightarrow>
    (case look Receipts (handle_name h) h of None \<Rightarrow> False | Some m \<Rightarrow> bm_get m r = Some t)"

definition any_receipt :: "message_handle \<Rightarrow> bool" where
  "any_receipt h \<longleftrightarrow>
    (case look Receipts (handle_name h) h of None \<Rightarrow> False | Some m \<Rightarrow> m \<noteq> [])"

definition evidence_observed :: "message_handle \<Rightarrow> bool" where
  "evidence_observed h \<longleftrightarrow>
    (case ms_expectation (h_spec h) of
       Nothing \<Rightarrow> False
     | Reply \<Rightarrow> look Reply_Kind (handle_name h) h \<noteq> None
     | Outcome c \<Rightarrow> look Condition c h = Some True)"

definition bound_now :: "message_handle \<Rightarrow> bool" where
  "bound_now h \<longleftrightarrow>
    (case look Binding (ms_inbox (h_spec h)) h of Some (Bound cs) \<Rightarrow> True | _ \<Rightarrow> False)
    \<or> message_receiver (h_state h) \<noteq> None"

definition unbound_too_long :: "message_handle \<Rightarrow> bool" where
  "unbound_too_long h \<longleftrightarrow>
    (case look Binding (ms_inbox (h_spec h)) h of
       Some (Unbound since) \<Rightarrow> ms_unbound_after (h_spec h) < timestamp_since (h_now h) since
     | _ \<Rightarrow> False)"

fun drop_evidence :: "message_handle \<Rightarrow> drop_reason \<Rightarrow> bool" where
  "drop_evidence h Expired \<longleftrightarrow>
    (\<exists>deadline. ms_deadline (h_spec h) = Some deadline \<and> deadline < h_now h
      \<and> (bound_now h \<longrightarrow>
          (\<exists>w. look AppliedThrough (ms_inbox (h_spec h)) h = Some w \<and> deadline < w))
      \<and> \<not> evidence_observed h)"
| "drop_evidence h Undeliverable \<longleftrightarrow>
    h_state h = Pending \<and> \<not> any_receipt h
    \<and> (unbound_too_long h \<or> look DeliveryFailure (handle_name h) h \<noteq> None)"
| "drop_evidence h (Superseded newer) \<longleftrightarrow> look Supersession newer h = Some (handle_name h)"
| "drop_evidence h (Withdrawn by_whom authority) \<longleftrightarrow>
    look Authority authority h = Some True
    \<or> (\<exists>c. ms_delivery_condition (h_spec h) = Some c \<and> look Condition c h = Some False)"
| "drop_evidence h (ConsumerUnreachable by_whom authority) \<longleftrightarrow> look Authority authority h = Some True"

fun settle_evidence :: "message_handle \<Rightarrow> settlement \<Rightarrow> bool" where
  "settle_evidence h Answered \<longleftrightarrow>
    h_state h \<noteq> Pending \<and> ms_expectation (h_spec h) = Reply
    \<and> look Reply_Kind (handle_name h) h \<noteq> None"
| "settle_evidence h OutcomeObserved \<longleftrightarrow>
    (\<exists>c. ms_expectation (h_spec h) = Outcome c \<and> look Condition c h = Some True)"

definition watermark_of :: "message_handle \<Rightarrow> drop_reason \<Rightarrow> timestamp option" where
  "watermark_of h reason =
    (if reason = Expired \<and> bound_now h then look AppliedThrough (ms_inbox (h_spec h)) h else None)"

section \<open>Lemmas\<close>

lemmas message_read_defs = receipts_def outcome_observed_def authorised_def condition_lapsed_def
  consumer_bound_def applied_through_def expectation_met_def handle_read_eq Let_def

lemma gate_deliver_evidence [gate_simps]:
  "fst (gate_deliver h d) = (if receipt_observed h (dl_receiver d) (dl_transport d) then Inr ()
    else Inl IncorrectReceipt)"
  by (auto simp: gate_deliver_def receipt_observed_def message_read_defs split: option.splits bind_splits)

lemma gate_settle_evidence [gate_simps]: "is_ok (fst (gate_settle h s)) \<longleftrightarrow> settle_evidence h s"
  by (cases s) (auto simp: gate_settle_def message_read_defs split: option.splits expectation.splits)

lemma expired_evidence: "is_ok (fst (expired h)) \<longleftrightarrow> drop_evidence h Expired"
  by (auto simp: expired_def bound_now_def evidence_observed_def message_read_defs
      split: option.splits expectation.splits inbox_binding.splits)

lemma undeliverable_evidence: "is_ok (fst (undeliverable h)) \<longleftrightarrow> drop_evidence h Undeliverable"
  by (auto simp: undeliverable_def any_receipt_def unbound_too_long_def message_read_defs
      split: option.splits inbox_binding.splits)

lemma gate_drop_evidence [gate_simps]: "is_ok (fst (gate_drop h r)) \<longleftrightarrow> drop_evidence h r"
proof (cases r)
  case Undeliverable
  then show ?thesis
    using undeliverable_evidence by (simp add: gate_drop_def)
next
  case Expired
  then show ?thesis
    using expired_evidence by (simp add: gate_drop_def)
qed (auto simp: gate_drop_def message_read_defs split: option.splits)

lemma message_gates_view:
  "same_view h (snd (gate_deliver h d))"
  "same_view h (snd (gate_settle h s))"
  "same_view h (snd (gate_drop h r))"
proof -
  show "same_view h (snd (gate_deliver h d))"
    by (auto simp: gate_deliver_def message_read_defs split: option.splits)
  show "same_view h (snd (gate_settle h s))"
    by (cases s) (auto simp: gate_settle_def message_read_defs split: option.splits expectation.splits)
  have "same_view h (snd (expired h))" "same_view h (snd (undeliverable h))"
    by (auto simp: expired_def undeliverable_def message_read_defs
        split: option.splits expectation.splits)
  then show "same_view h (snd (gate_drop h r))"
    by (cases r) (auto simp: gate_drop_def message_read_defs split: option.splits)
qed

lemma drop_message_eq:
  "fst (drop_message h state r) = Dropped r (message_receiver state) (watermark_of h r)"
  "same_view h (snd (drop_message h state r))"
  by (auto simp: drop_message_def watermark_of_def bound_now_def message_read_defs
      split: option.splits inbox_binding.splits)

lemma bound_now_view: "same_view h h1 \<Longrightarrow> bound_now h1 = bound_now h"
  by (simp add: bound_now_def same_view_look same_viewD)

lemma watermark_view: "same_view h h1 \<Longrightarrow> watermark_of h1 r = watermark_of h r"
  by (simp add: watermark_of_def bound_now_view same_view_look same_viewD)

lemmas message_edge_defs = message_deliver_edge_def message_settle_edge_def message_drop_edge_def

lemma message_find:
  "find_edge message_definition DeliverK = Some message_deliver_edge"
  "find_edge message_definition SettleK = Some message_settle_edge"
  "find_edge message_definition DropK = Some message_drop_edge"
  by (simp_all add: message_definition_def find_edge_def machine_builder_defs edge_builder_defs
      message_edge_defs)

lemma message_ends:
  "end_reason message_definition PendingL = None"
  "end_reason message_definition AwaitingL = None"
  "end_reason message_definition SettledL = Some ''the message was settled''"
  "end_reason message_definition DroppedL = Some ''the message was dropped''"
  by (simp_all add: message_definition_def end_reason_def machine_builder_defs)

lemma message_machine_simps [simp]:
  "m_definition message_machine = message_definition"
  "m_label message_machine = message_label_of"
  "m_data message_machine = message_data"
  "m_kind message_machine = message_kind_of"
  "m_ended message_machine l r = Message_Ended"
  "m_wrong_state message_machine l k = Message_WrongState"
  "m_write_apply message_machine w v spec = Inr spec"
  "m_admit message_machine = message_admit"
  by (simp_all add: message_machine_def)

lemma message_changed:
  "set (changed (message_data s) (message_data (Settled r))) \<subseteq> {''receiver''}"
  "set (changed (message_data s) (message_data (Awaiting r'))) \<subseteq> {''receiver''}"
  "set (changed (message_data s) (message_data (Dropped d r w)))
    \<subseteq> {''reason'', ''receiver'', ''watermark''}"
  by (simp_all add: changed_subset)

fun message_live :: "message_state \<Rightarrow> bool" where
  "message_live Pending = True"
| "message_live (Awaiting r) = True"
| "message_live _ = False"

lemma message_live_label:
  "message_live s \<Longrightarrow> message_label_of s = PendingL \<or> message_label_of s = AwaitingL"
  "message_live s \<Longrightarrow> end_reason message_definition (message_label_of s) = None"
  by (cases s; simp add: message_ends)+

lemmas message_step_simps = message_find message_ends message_edge_defs edge_builder_defs
  message_changed message_gates_view

lemma message_step_deliver:
  "h_state h = Pending \<Longrightarrow>
    step message_machine (Deliver d) h = gated (gate_deliver h d) (\<lambda>h. deliver h Pending d)"
  by (subst step_of_gated [where d = message_deliver_edge and p = project_deliver
        and gate = gate_deliver and eff = deliver and arg = d])
    (simp_all add: message_step_simps deliver_def del: message_data.simps
      split: expectation.splits)

lemma message_step_deliver_wrong:
  "h_state h = Awaiting r \<Longrightarrow>
    step message_machine (Deliver d) h = (Inl (Refused Message_WrongState), h)"
  by (subst step_wrong_state [where d = message_deliver_edge]) (simp_all add: message_step_simps)

lemma message_step_settle:
  "message_live (h_state h) \<Longrightarrow>
    step message_machine (Settle s) h = gated (gate_settle h s) (\<lambda>h'. settle h' (h_state h) s)"
  by (subst step_of_gated [where d = message_settle_edge and p = project_settle
        and gate = gate_settle and eff = settle and arg = s])
    (simp_all add: message_step_simps settle_def message_live_label del: message_data.simps)

lemma message_step_drop:
  "message_live (h_state h) \<Longrightarrow>
    step message_machine (Drop r) h = gated (gate_drop h r) (\<lambda>h'. drop_message h' (h_state h) r)"
  by (subst step_of_gated [where d = message_drop_edge and p = project_drop
        and gate = gate_drop and eff = drop_message and arg = r])
    (simp_all add: message_step_simps drop_message_eq(1) same_viewD(6) [OF drop_message_eq(2)]
      message_live_label del: message_data.simps)

lemma message_step_ended:
  "\<not> message_live (h_state h) \<Longrightarrow>
    step message_machine e h = (Inl (Refused Message_Ended), h)"
  by (cases "h_state h")
    (simp_all add: step_ended [where reason = "''the message was settled''"]
      step_ended [where reason = "''the message was dropped''"] message_ends)

text \<open>What an accepted step of a message did, and on what evidence.\<close>

lemma message_step_InrD:
  assumes "step message_machine e h = (Inr state, h')"
  shows "message_live (h_state h) \<and> h_writes h' = h_writes h
    \<and> (case e of
         Deliver d \<Rightarrow> h_state h = Pending \<and> receipt_observed h (dl_receiver d) (dl_transport d)
           \<and> state = (if ms_expectation (h_spec h) = Nothing then Settled (Some (dl_receiver d))
               else Awaiting (dl_receiver d))
       | Settle s \<Rightarrow> settle_evidence h s \<and> state = Settled (message_receiver (h_state h))
       | Drop r \<Rightarrow> drop_evidence h r
           \<and> state = Dropped r (message_receiver (h_state h)) (watermark_of h r))"
proof -
  have live: "message_live (h_state h)"
    using assms message_step_ended [of h e] by auto
  show ?thesis
  proof (cases e)
    case (Deliver d)
    have pending: "h_state h = Pending"
      using assms live Deliver message_step_deliver_wrong [of h] by (cases "h_state h") auto
    obtain h1 where g: "gate_deliver h d = (Inr (), h1)" "deliver h1 Pending d = (state, h')"
      using assms by (auto simp: Deliver message_step_deliver [OF pending] gated_Inr)
    then have "receipt_observed h (dl_receiver d) (dl_transport d)"
      using gate_deliver_evidence [of h d] by (auto split: if_splits)
    moreover have "same_view h h1"
      using message_gates_view(1) [of h d] g by simp
    ultimately show ?thesis
      using g(2) live pending Deliver
      by (auto simp: deliver_def same_view_def split: expectation.splits)
  next
    case (Settle s)
    obtain h1 where g: "gate_settle h s = (Inr (), h1)" "settle h1 (h_state h) s = (state, h')"
      using assms by (auto simp: Settle message_step_settle [OF live] gated_Inr)
    then show ?thesis
      using live Settle gate_settle_evidence [of h s] message_gates_view(2) [of h s]
      by (auto simp: settle_def same_view_def)
  next
    case (Drop r)
    obtain h1 where g: "gate_drop h r = (Inr (), h1)" "drop_message h1 (h_state h) r = (state, h')"
      using assms by (auto simp: Drop message_step_drop [OF live] gated_Inr)
    have view: "same_view h h1" "same_view h1 h'"
      using message_gates_view(3) [of h r] g drop_message_eq(2) [of h1 "h_state h" r] by simp_all
    then show ?thesis
      using live Drop g gate_drop_evidence [of h r] drop_message_eq(1) [of h1 "h_state h" r]
        watermark_view [OF view(1)]
      by (auto simp: same_view_def)
  qed
qed

text \<open>Conversely, the evidence is enough.\<close>

lemma message_step_accepts:
  assumes "message_live (h_state h)"
    and "case e of
         Deliver d \<Rightarrow> h_state h = Pending \<and> receipt_observed h (dl_receiver d) (dl_transport d)
           \<and> state = (if ms_expectation (h_spec h) = Nothing then Settled (Some (dl_receiver d))
               else Awaiting (dl_receiver d))
       | Settle s \<Rightarrow> settle_evidence h s \<and> state = Settled (message_receiver (h_state h))
       | Drop r \<Rightarrow> drop_evidence h r
           \<and> state = Dropped r (message_receiver (h_state h)) (watermark_of h r)"
  shows "fst (step message_machine e h) = Inr state"
proof (cases e)
  case (Deliver d)
  with assms have "is_ok (fst (gate_deliver h d))"
    by (simp add: gate_deliver_evidence)
  then show ?thesis
    using assms Deliver same_viewD(2) [OF message_gates_view(1) [of h d]]
    by (simp add: message_step_deliver gated_accepts deliver_def split: expectation.splits)
next
  case (Settle s)
  with assms have "is_ok (fst (gate_settle h s))"
    by (simp add: gate_settle_evidence)
  then show ?thesis
    using assms Settle by (simp add: message_step_settle gated_accepts settle_def)
next
  case (Drop r)
  with assms have "is_ok (fst (gate_drop h r))"
    by (simp add: gate_drop_evidence)
  then show ?thesis
    using assms Drop watermark_view [OF message_gates_view(3) [of h r]]
    by (simp add: message_step_drop gated_accepts drop_message_eq(1))
qed

lemma message_step_no_fault: "fst (step message_machine e h) \<noteq> Inl (Fault f)"
proof (cases "message_live (h_state h)")
  case True
  then show ?thesis
    by (cases e; cases "h_state h")
      (auto simp: message_step_deliver message_step_deliver_wrong message_step_settle message_step_drop)
qed (simp add: message_step_ended)

section \<open>The invariant\<close>

text \<open>
  What every message a home holds says: it awaits only an expected reply or outcome; it settled
  without a receiver only on an outcome; an undeliverable one had no receiver; an expiry had a
  deadline, and relied on a watermark past it whenever a receiver held the message; no other drop
  records a watermark.
\<close>

fun message_state_inv :: "message_spec \<Rightarrow> message_state \<Rightarrow> bool" where
  "message_state_inv spec Pending \<longleftrightarrow> True"
| "message_state_inv spec (Awaiting r) \<longleftrightarrow> ms_expectation spec \<noteq> Nothing"
| "message_state_inv spec (Settled r) \<longleftrightarrow> (r = None \<longrightarrow> (\<exists>c. ms_expectation spec = Outcome c))"
| "message_state_inv spec (Dropped d r w) \<longleftrightarrow>
    (d = Undeliverable \<longrightarrow> r = None)
    \<and> (d \<noteq> Expired \<longrightarrow> w = None)
    \<and> (r \<noteq> None \<longrightarrow> ms_expectation spec \<noteq> Nothing)
    \<and> (d = Expired \<longrightarrow> (\<exists>deadline. ms_deadline spec = Some deadline
        \<and> (r \<noteq> None \<longrightarrow> w \<noteq> None) \<and> (\<forall>t. w = Some t \<longrightarrow> deadline < t)))"

definition message_inv :: "message_spec \<Rightarrow> message_state \<Rightarrow> bool" where
  "message_inv spec state \<longleftrightarrow>
    length (filter mr_subject (ms_references spec)) \<le> 1
    \<and> (\<forall>r \<in> set (ms_references spec). mr_revision r \<noteq> [])
    \<and> message_state_inv spec state"

text \<open>How a message moves on: its envelope never changes, an end is final, and so is a receiver.\<close>

definition message_moves :: "message_spec \<Rightarrow> message_state \<Rightarrow> message_spec \<Rightarrow> message_state \<Rightarrow> bool" where
  "message_moves sp s sp' s' \<longleftrightarrow>
    sp' = sp \<and> (\<not> message_live s \<longrightarrow> s' = s)
    \<and> (message_receiver s \<noteq> None \<longrightarrow> message_receiver s' = message_receiver s)
    \<and> (s' = Pending \<longrightarrow> s = Pending)"

lemma no_records_apply [simp]:
  "apply_writes (\<lambda>_ _ spec. Inr spec) v ws spec = spec"
  by (induction ws) (simp_all add: apply_writes_def)

lemma message_write_apply [simp]: "m_write_apply message_machine = (\<lambda>_ _ spec. Inr spec)"
  by (simp add: message_machine_def)

lemma message_step_inv:
  assumes "message_inv (h_spec h) (h_state h)" "step message_machine e h = (Inr state, h')"
  shows "message_inv (h_spec h) state"
proof (cases e)
  case (Deliver d)
  with assms message_step_InrD [OF assms(2)] show ?thesis
    by (auto simp: message_inv_def)
next
  case (Settle s)
  with assms message_step_InrD [OF assms(2)] show ?thesis
    by (cases s; cases "h_state h") (auto simp: message_inv_def)
next
  case (Drop d)
  with assms message_step_InrD [OF assms(2)] show ?thesis
    by (cases d; cases "h_state h") (auto simp: message_inv_def watermark_of_def bound_now_def)
qed

lemma message_step_moves:
  assumes "step message_machine e h = (Inr state, h')"
  shows "message_moves (h_spec h) (h_state h) (h_spec h) state"
proof -
  note accepted = message_step_InrD [OF assms]
  then have "message_receiver (h_state h) \<noteq> None \<longrightarrow> message_receiver state = message_receiver (h_state h)"
    "state \<noteq> Pending"
    by (cases e; simp split: if_splits)+
  with accepted show ?thesis
    by (simp add: message_moves_def)
qed

interpretation message: machine_progress message_machine message_inv message_moves
proof (unfold_locales, goal_cases)
  case (1 a request spec state a')
  then show ?case
    by (auto simp: message_admit_def message_inv_def list_ex_iff split: if_splits prod.splits bool.splits)
next
  case (2 h edge state' h' v)
  then show ?case
    using message_step_inv by simp
next
  case (3 sp s)
  then show ?case
    by (simp add: message_moves_def)
next
  case (4 sp s sp' s' sp'' s'')
  then show ?case
    unfolding message_moves_def by metis
next
  case (5 h edge state' h' v)
  then show ?case
    using message_step_moves by simp
qed

section \<open>Lemmas: receipts\<close>

lemma collect_receipts_readable:
  assumes "\<forall>entry \<in> set entries. readable consumers entry"
  shows "collect_receipts consumers message entries (found, count)
    = (let rs = concat (map (receipt_of consumers message) entries)
       in Inr (fold (\<lambda>(r, t). bm_insert r t) rs found, count + length rs))"
  using assms
proof (induction entries arbitrary: found count)
  case (Cons entry entries)
  then show ?case
    by (auto simp: receipt_of_def readable_def Let_def is_ok_iff
        split: option.splits prod.splits sum.splits)
qed simp

lemma fold_insert_get:
  "bm_get (fold (\<lambda>(r, t). bm_insert r t) rs m) x
    = (case map_of (rev rs) x of None \<Rightarrow> bm_get m x | Some t \<Rightarrow> Some t)"
  by (induction rs arbitrary: m) (auto simp: map_add_def split: option.splits)

end
