(* ===== verification/Message_Home.thy ===== *)
theory Message_Home
  imports Message
begin

text \<open>
  The properties of messages at a home: the exact acceptance condition of a step, the invariant
  of every message a home can come to hold, and the behaviour of a message over any later writes.
  The example run at the end creates, delivers and settles one message at a memory log.
\<close>

section \<open>Properties\<close>

text \<open>
  C2: A message's step is accepted exactly when it is still Pending or Awaiting and the edge's
  evidence holds in the world the gate reads: a delivery needs the receiver's own receipt by that
  transport, a settlement the expected reply (after delivery) or the observed outcome, a drop the
  evidence of its reason; and the next state is the one the edge names, keeping the receiver.
\<close>

theorem message_step_exact:
  "fst (step message_machine e h) = Inr state \<longleftrightarrow>
    message_live (h_state h)
    \<and> (case e of
         Deliver d \<Rightarrow> h_state h = Pending \<and> receipt_observed h (dl_receiver d) (dl_transport d)
           \<and> state = (if ms_expectation (h_spec h) = Nothing then Settled (Some (dl_receiver d))
               else Awaiting (dl_receiver d))
       | Settle s \<Rightarrow> settle_evidence h s \<and> state = Settled (message_receiver (h_state h))
       | Drop r \<Rightarrow> drop_evidence h r
           \<and> state = Dropped r (message_receiver (h_state h)) (watermark_of h r))"
  (is "?accepted \<longleftrightarrow> ?live \<and> ?edge")
proof
  assume ?accepted
  then obtain h' where "step message_machine e h = (Inr state, h')"
    by (metis prod.collapse)
  from message_step_InrD [OF this] show "?live \<and> ?edge"
    by blast
next
  assume "?live \<and> ?edge"
  then show ?accepted
    using message_step_accepts by blast
qed



text \<open>
  C31: The evidence that ends a message one way excludes ending it the other: where a delivery is
  accepted, an undeliverable drop is refused because a receipt is confirmed, and where a settlement
  is accepted, an expiry is refused.
\<close>

theorem message_ends_exclusive:
  "(is_ok (fst (step message_machine (Deliver d) h))
      \<longrightarrow> fst (step message_machine (Drop Undeliverable) h) = Inl (Refused ReceiptConfirmed))
    \<and> (is_ok (fst (step message_machine (Settle s) h))
      \<longrightarrow> \<not> is_ok (fst (step message_machine (Drop Expired) h)))"
proof (intro conjI impI)
  assume "is_ok (fst (step message_machine (Deliver d) h))"
  then obtain state h' where "step message_machine (Deliver d) h = (Inr state, h')"
    by (auto simp: is_ok_iff) (metis prod.collapse)
  from message_step_InrD [OF this]
  have pending: "h_state h = Pending" and "receipt_observed h (dl_receiver d) (dl_transport d)"
    by simp_all
  then have "fst (undeliverable h) = Inl ReceiptConfirmed"
    by (auto simp: undeliverable_def receipt_observed_def message_read_defs split: option.splits)
  then show "fst (step message_machine (Drop Undeliverable) h) = Inl (Refused ReceiptConfirmed)"
    using pending
    by (simp add: message_step_drop gate_drop_def gated_def)
      (simp add: case_prod_beta split: sum.splits)
next
  assume "is_ok (fst (step message_machine (Settle s) h))"
  then obtain state h' where "step message_machine (Settle s) h = (Inr state, h')"
    by (auto simp: is_ok_iff) (metis prod.collapse)
  from message_step_InrD [OF this] have "settle_evidence h s"
    by simp
  then have "evidence_observed h"
    by (cases s) (auto simp: evidence_observed_def)
  then have "\<not> drop_evidence h Expired"
    by simp
  then show "\<not> is_ok (fst (step message_machine (Drop Expired) h))"
    using message_step_InrD [of "Drop Expired" h]
    by (metis is_ok_iff message_edge.simps(12) prod.collapse)
qed

text \<open>
  C32: After the receipt log reads a message's entries without error, the message is absent if none
  is a receipt about it; otherwise its version is the number of receipt entries and each receiver
  has the transport of its latest one. Other messages read as before.
\<close>

theorem receipt_log_latest:
  assumes "\<forall>entry \<in> set entries. readable (rl_consumers rl) entry"
  shows "fst (receipt_log_insert message entries rl) = Inr ()
    \<and> (let rs = concat (map (receipt_of (rl_consumers rl) message) entries)
       in case receipt_log_lookup (snd (receipt_log_insert message entries rl)) message of
            None \<Rightarrow> rs = []
          | Some (version, by_consumer) \<Rightarrow>
              rs \<noteq> [] \<and> version = length rs \<and> bm_get by_consumer = map_of (rev rs))
    \<and> (\<forall>other. other \<noteq> message \<longrightarrow>
         receipt_log_lookup (snd (receipt_log_insert message entries rl)) other
           = receipt_log_lookup rl other)"
  using collect_receipts_readable [OF assms, of message "[]" 0]
  by (auto simp: receipt_log_insert_def receipt_log_lookup_def fold_insert_get Let_def fun_eq_iff
      split: option.splits prod.splits)

section \<open>Witnesses\<close>

definition demo_world :: message_world where
  "demo_world =
    \<lparr>w_receipts = (\<lambda>n. if n = ''m1'' then Some (1, [(Receiver Person_Consumer ''ann'' ''h1'', Turn)]) else None),
     w_binding = (\<lambda>_. None), w_applied_through = (\<lambda>_. None), w_reply = (\<lambda>_. None),
     w_condition = (\<lambda>c. if c = ''ci green'' then Some (4, True) else None),
     w_delivery_failure = (\<lambda>_. None), w_supersession = (\<lambda>_. None), w_authority = (\<lambda>_. None),
     w_sent = (\<lambda>_. None)\<rparr>"

definition demo_spec :: message_spec where
  "demo_spec = (message_spec_new ''role/a'' ''inbox/b'' Peer ''hash'')
    \<lparr>ms_expectation := Outcome ''ci green'', ms_deadline := Some 100\<rparr>"

definition demo_start :: "(message_spec, message_state, (message_label, message_kind, message_edge) memory_log) home" where
  "demo_start = \<lparr>hm_writer = ''home'', hm_resources = [], hm_log = memory_log_new\<rparr>"

definition demo_created where
  "demo_created = snd (home_create message_machine memory_log_ops ''m1'' demo_spec demo_world 1 demo_start)"

definition demo_delivered where
  "demo_delivered = snd (home_apply message_machine memory_log_ops ''m1''
     (Deliver \<lparr>dl_receiver = Receiver Person_Consumer ''ann'' ''h1'', dl_transport = Turn\<rparr>)
     demo_world 2 demo_created)"

definition demo_settled where
  "demo_settled = snd (home_apply message_machine memory_log_ops ''m1'' (Settle OutcomeObserved)
     demo_world 3 demo_delivered)"

definition demo_handle :: "(message_spec, message_state, message_world, no_records) handle" where
  "demo_handle = handle_on (resource_stored ''m1'' demo_spec \<lparr>st_value = Pending, st_since = 1\<rparr> 1) demo_world 2"

definition demo_entry :: "string \<Rightarrow> transport \<Rightarrow> person_edge log_entry" where
  "demo_entry who transport =
    \<lparr>le_kind = ''pn'', le_name = who, le_home = ''h1'', le_edge = Some ''rv'',
     le_arguments = Some (Person_Receive \<lparr>rv_message = ''m1'', rv_transport = transport\<rparr>)\<rparr>"

definition demo_receipts :: "person_edge receipt_log" where
  "demo_receipts = receipt_log_new (\<lambda>_. Inl ''not a session edge'') Inr"

lemma message_validates: "validate message_machine = Inr ()"
  by code_simp

lemma demo_fresh: "home_with_log message_machine ''home'' memory_log_new = Inr demo_start"
  by (simp add: home_with_log_def message_validates demo_start_def)

lemma demo_run: "home_run message_machine memory_log_ops demo_start demo_delivered"
  unfolding demo_delivered_def demo_created_def by (rule run_apply, rule run_create, rule run_start)

lemma demo_writes: "home_writes message_machine memory_log_ops demo_delivered demo_settled"
  unfolding demo_settled_def by (rule writes_apply, rule writes_start)



theorem message_ends_exclusive_witness:
  "fst (step message_machine (Drop Undeliverable) demo_handle) = Inl (Refused ReceiptConfirmed)
    \<and> \<not> is_ok (fst (step message_machine (Drop Expired) demo_handle))"
proof -
  have "is_ok (fst (step message_machine
      (Deliver \<lparr>dl_receiver = Receiver Person_Consumer ''ann'' ''h1'', dl_transport = Turn\<rparr>) demo_handle))"
    by code_simp
  moreover have "is_ok (fst (step message_machine (Settle OutcomeObserved) demo_handle))"
    by code_simp
  ultimately show ?thesis
    using message_ends_exclusive by blast
qed

theorem receipt_log_latest_witness:
  "fst (receipt_log_insert ''m1'' [demo_entry ''ann'' Turn, demo_entry ''ann'' Notify] demo_receipts) = Inr ()
    \<and> map_option (\<lambda>p. (fst p, bm_get (snd p) (Receiver Person_Consumer ''ann'' ''h1'')))
        (receipt_log_lookup (snd (receipt_log_insert ''m1''
          [demo_entry ''ann'' Turn, demo_entry ''ann'' Notify] demo_receipts)) ''m1'')
      = Some (2, Some Notify)"
proof -
  have "\<forall>entry \<in> set [demo_entry ''ann'' Turn, demo_entry ''ann'' Notify]. readable (rl_consumers demo_receipts) entry"
    by code_simp
  from conjunct1 [OF receipt_log_latest [OF this]] show ?thesis
    by (rule conjI) code_simp
qed

end
