(* ===== verification/Engine.thy ===== *)
theory Engine
  imports Message_Home
begin

text \<open>
  The properties of the engine that hold of every machine: what a step may do, what a validated
  declaration guarantees, and what a home and its log say of each other. Their witnesses are steps
  and runs of the message machine.
\<close>

section \<open>Lemmas\<close>

lemma message_def_inv: "def_inv message_definition"
  by (simp add: message_definition_def def_inv_intros)

lemma validate_edges:
  assumes "validate M = Inr ()" and "e \<in> set (md_edges (m_definition M))"
  shows "edge_errors M e = []"
  using assms by (auto simp: validate_ok_iff validate_errors_def Let_def)

lemma validate_kinds:
  assumes "validate M = Inr ()" and "def_inv (m_definition M)" and "k \<in> set (m_kinds M)"
  obtains e where "find_edge (m_definition M) k = Some e" "d_check e \<noteq> None" "d_effect e \<noteq> None"
proof -
  have "k \<in> d_kind ` set (md_edges (m_definition M))"
    using assms(1,3) by (auto simp: validate_ok_iff validate_errors_def Let_def filter_empty_conv)
  then obtain e where e: "find_edge (m_definition M) k = Some e"
    using find_edge_None [OF assms(2), of k] by auto
  with find_edge_SomeD(1) [OF assms(2) e] that show thesis
    using edge_errors_Nil(1,2) [OF validate_edges [OF assms(1)]] by blast
qed

lemma validate_labels:
  assumes "validate M = Inr ()" and "l \<in> set (m_labels M)"
  shows "(md_initial (m_definition M), l) \<in> (leads (arcs_of (md_edges (m_definition M))))\<^sup>*"
    and "end_reason (m_definition M) l = None
      \<longleftrightarrow> (\<exists>e \<in> set (md_edges (m_definition M)). l \<in> set (d_from e))"
proof -
  show "(md_initial (m_definition M), l) \<in> (leads (arcs_of (md_edges (m_definition M))))\<^sup>*"
    using assms search_reachable [of "arcs_of (md_edges (m_definition M))" "md_initial (m_definition M)"]
    by (auto simp: validate_ok_iff validate_errors_def Let_def filter_empty_conv)
  have "\<exists>e \<in> set (md_edges (m_definition M)). l \<in> set (d_from e)"
    if "end_reason (m_definition M) l = None"
    using assms that
    by (auto simp: validate_ok_iff validate_errors_def Let_def filter_empty_conv end_reason_None
        list_ex_iff)
  then show "end_reason (m_definition M) l = None
      \<longleftrightarrow> (\<exists>e \<in> set (md_edges (m_definition M)). l \<in> set (d_from e))"
    using edge_errors_Nil(5) [OF validate_edges [OF assms(1)]] by blast
qed

lemma filter_map_fst_sorted:
  "sorted_wrt (<) (map fst xs) \<Longrightarrow> sorted_wrt (<) (map fst (filter P xs))"
  by (induction xs) auto

lemma filter_after_take:
  fixes xs :: "(nat \<times> 'a) list"
  assumes "sorted_wrt (<) (map fst xs)" and "take (Suc n) xs = page" and "page \<noteq> []"
  shows "filter (\<lambda>x. fst (last page) < fst x) xs = drop (length page) xs"
  using assms
proof (induction xs arbitrary: n page)
  case (Cons x xs)
  show ?case
  proof (cases "n = 0 \<or> xs = []")
    case True
    with Cons.prems have "page = [x]"
      by auto
    with Cons.prems(1) show ?thesis
      by (auto simp: filter_id_conv)
  next
    case False
    then obtain m where n: "n = Suc m"
      by (cases n) auto
    define rest where "rest = take n xs"
    have rest: "page = x # rest" "rest \<noteq> []" "take (Suc m) xs = rest"
      using Cons.prems False by (auto simp: rest_def n)
    have "last rest \<in> set xs"
      using rest(2) by (metis last_in_set in_set_takeD rest_def)
    then have "fst x < fst (last rest)"
      using Cons.prems(1) by auto
    with Cons.IH [of m rest] Cons.prems(1) rest show ?thesis
      by simp
  qed
qed simp

section \<open>Properties\<close>

text \<open>
  C7: A step that succeeds does only what the machine declares. It takes an edge of the
  definition of the edge's own kind, from a label that edge leaves, which is no end, to a label it
  reaches; the data that differ in the next state are among those the edge changes, and the
  records fields it wrote are among those it writes.
\<close>

theorem step_within_declaration:
  assumes "def_inv (m_definition M)" and "step M edge h = (Inr state, h')"
  shows "\<exists>e \<in> set (md_edges (m_definition M)). d_kind e = m_kind M edge
    \<and> end_reason (m_definition M) (m_label M (h_state h)) = None
    \<and> m_label M (h_state h) \<in> set (d_from e) \<and> m_label M state \<in> set (d_to e)
    \<and> fst ` (set (m_data M state) - set (m_data M (h_state h))) \<subseteq> set (d_changes e)
    \<and> m_write_field M ` set (drop (length (h_writes h)) (h_writes h')) \<subseteq> set (d_writes e)"
  using assms(2)
proof (rule step_InrD)
  fix declared effect h1
  assume "find_edge (m_definition M) (m_kind M edge) = Some declared"
    and rest: "end_reason (m_definition M) (m_label M (h_state h)) = None"
      "m_label M (h_state h) \<in> set (d_from declared)"
      "m_write_field M ` set (drop (length (h_writes h)) (h_writes h')) \<subseteq> set (d_writes declared)"
      "m_label M state \<in> set (d_to declared)"
      "set (changed (m_data M (h_state h)) (m_data M state)) \<subseteq> set (d_changes declared)"
  with find_edge_SomeD [OF assms(1)] show ?thesis
    by (auto simp: set_changed intro!: bexI [of _ declared])
qed

text \<open>
  C3: A declaration that validates is complete and has no dead ends of its own. Every kind of edge
  is declared with a check and an effect; every label can be reached from the initial one along
  declared edges; a label has a way out exactly when it is not an end; and an end refuses every
  edge, with its reason.
\<close>

theorem validate_sound:
  assumes "validate M = Inr ()" and "def_inv (m_definition M)"
  shows "(\<forall>k \<in> set (m_kinds M). \<exists>e. find_edge (m_definition M) k = Some e
        \<and> d_check e \<noteq> None \<and> d_effect e \<noteq> None)
    \<and> (\<forall>l \<in> set (m_labels M).
        (md_initial (m_definition M), l) \<in> (leads (arcs_of (md_edges (m_definition M))))\<^sup>*
        \<and> (end_reason (m_definition M) l = None
            \<longleftrightarrow> (\<exists>e \<in> set (md_edges (m_definition M)). l \<in> set (d_from e))))
    \<and> (\<forall>edge h reason. end_reason (m_definition M) (m_label M (h_state h)) = Some reason \<longrightarrow>
        step M edge h = (Inl (Refused (m_ended M (m_label M (h_state h)) reason)), h))"
proof (intro conjI ballI allI impI)
  fix k
  assume "k \<in> set (m_kinds M)"
  then obtain e where "find_edge (m_definition M) k = Some e" "d_check e \<noteq> None" "d_effect e \<noteq> None"
    by (rule validate_kinds [OF assms])
  then show "\<exists>e. find_edge (m_definition M) k = Some e \<and> d_check e \<noteq> None \<and> d_effect e \<noteq> None"
    by blast
qed (rule validate_labels [OF assms(1)] step_ended; assumption)+


text \<open>
  C17: An applied edge is one new entry of the log. Over the in-memory log, a successful apply gives
  the resource a version above every version the log has given, appends to that resource's history
  exactly one event, which carries the edge, the labels it left and reached, and the time, and
  leaves every other resource and every other history alone.
\<close>

theorem home_apply_appends:
  assumes "memory_log_inv (hm_log home)" and "ml_sequence (hm_log home) < u64_max"
    and "bm_get (hm_resources home) name = Some r" and "res_name r = name"
    and "res_version r \<le> ml_sequence (hm_log home)"
    and "home_apply M memory_log_ops name edge world now home = (Inr ev, home')"
  shows "\<exists>r'. bm_get (hm_resources home') = (bm_get (hm_resources home))(name \<mapsto> r')
    \<and> ml_sequence (hm_log home) < res_version r' \<and> ml_sequence (hm_log home') = res_version r'
    \<and> memory_log_events (hm_log home')
      = (memory_log_events (hm_log home))
          (name := memory_log_events (hm_log home) name @ [(res_version r', ev)])
    \<and> ev_edge ev = m_kind M edge \<and> p_edge (ev_arguments ev) = edge \<and> ev_at ev = now
    \<and> ev_from ev = m_label M (st_value (res_state r)) \<and> ev_to ev = m_label M (st_value (res_state r'))
    \<and> st_since (res_state r') = (if ev_from ev = ev_to ev then st_since (res_state r) else now)"
  by (rule ml.apply_appends [OF assms]) blast

text \<open>
  C14: A home's history replays its resources. After any creates and edges at a fresh home over the
  in-memory log, reading a resource's history from version zero gives events that walk, label to
  label, from the machine's initial label to the resource's current label, with strictly rising
  versions whose last is the resource's version.
\<close>

theorem home_history_trail:
  assumes "home_with_log M writer memory_log_new = Inr start"
    and "home_writes M memory_log_ops start home" and "ml_sequence (hm_log home) < u64_max"
    and "bm_get (hm_resources home) name = Some r"
  shows "\<exists>evs. (\<forall>limit \<ge> length evs. memory_log_history name 0 limit (hm_log home) = evs)
    \<and> trail (md_initial (m_definition M)) (map snd evs) (m_label M (st_value (res_state r)))
    \<and> sorted_wrt (<) (map fst evs) \<and> (evs = [] \<or> res_version r = fst (last evs))"
proof -
  have start: "hm_log start = memory_log_new" "hm_resources start = []"
    using assms(1) by (auto simp: home_with_log_def split: sum.splits)
  then have "home_trails M ml_sequence memory_log_events start"
    by (simp add: home_trails_def memory_log_events_def memory_log_new_def)
  then have trails: "home_trails M ml_sequence memory_log_events home"
    using ml.trails_writes [OF assms(2) _ _ assms(3)] memory_log_inv_new start by metis
  have valid: "memory_log_inv (hm_log home)"
    using ml.valid_writes [OF assms(2)] memory_log_inv_new start by metis
  let ?evs = "memory_log_events (hm_log home) name"
  have "filter (\<lambda>ev. 0 < fst ev) ?evs = ?evs"
    using valid by (auto simp: filter_id_conv memory_log_events_def memory_log_inv_def)
  then have "\<forall>limit \<ge> length ?evs. memory_log_history name 0 limit (hm_log home) = ?evs"
    by (simp add: memory_log_history_eq [OF valid])
  moreover have "sorted_wrt (<) (map fst ?evs)"
    by (rule ml.events_rise [OF valid])
  ultimately show ?thesis
    using home_trailsD [OF trails, of name] assms(4) by (intro exI [of _ ?evs]) auto
qed

text \<open>
  C35: Paging through a history by passing back the last version read loses and repeats nothing: a
  non-empty page followed by the page after its last version is the longer page.
\<close>

theorem history_pages_join:
  assumes "memory_log_inv lg" and "memory_log_history name after m lg = page" and "page \<noteq> []"
    and "length page = m"
  shows "page @ memory_log_history name (fst (last page)) n lg = memory_log_history name after (m + n) lg"
proof -
  define evs where "evs = filter (\<lambda>ev. after < fst ev) (memory_log_events lg name)"
  have sorted: "sorted_wrt (<) (map fst evs)"
    unfolding evs_def using ml.events_rise [OF assms(1)]
    by (metis filter_map_fst_sorted)
  have page: "take m evs = page"
    using assms(2) by (simp add: memory_log_history_eq [OF assms(1)] evs_def)
  obtain k where m: "m = Suc k"
    using assms(3,4) by (cases m) auto
  have "last page \<in> set evs"
    using assms(3) page by (metis last_in_set in_set_takeD)
  then have "after < fst (last page)"
    by (simp add: evs_def)
  then have "filter (\<lambda>ev. fst (last page) < fst ev) (memory_log_events lg name)
      = filter (\<lambda>ev. fst (last page) < fst ev) evs"
    by (auto simp: evs_def intro: filter_cong)
  also have "\<dots> = drop m evs"
    using filter_after_take [OF sorted page [unfolded m] assms(3)] assms(4) by simp
  finally show ?thesis
    by (simp add: memory_log_history_eq [OF assms(1)] flip: evs_def page take_add)
qed

section \<open>Witnesses\<close>

abbreviation demo_deliver :: message_edge where
  "demo_deliver \<equiv> Deliver \<lparr>dl_receiver = Receiver Person_Consumer ''ann'' ''h1'', dl_transport = Turn\<rparr>"

lemma demo_delivered_log:
  "memory_log_inv (hm_log demo_created)" "ml_sequence (hm_log demo_created) < u64_max"
  "ml_sequence (hm_log demo_settled) < u64_max" "memory_log_inv (hm_log demo_settled)"
  by code_simp+

lemma demo_start_settled: "home_writes message_machine memory_log_ops demo_start demo_settled"
  unfolding demo_settled_def demo_delivered_def demo_created_def
  by (rule writes_apply, rule writes_apply, rule writes_create, rule writes_start)

theorem step_within_declaration_witness:
  "\<exists>e \<in> set (md_edges message_definition).
    d_kind e = DeliverK \<and> PendingL \<in> set (d_from e) \<and> AwaitingL \<in> set (d_to e)
    \<and> ''receiver'' \<in> set (d_changes e)"
proof -
  have "fst (step message_machine demo_deliver demo_handle) = Inr (Awaiting (Receiver Person_Consumer ''ann'' ''h1''))"
    by code_simp
  then obtain h' where step: "step message_machine demo_deliver demo_handle
      = (Inr (Awaiting (Receiver Person_Consumer ''ann'' ''h1'')), h')"
    by (metis prod.collapse)
  have "h_state demo_handle = Pending"
    by code_simp
  with step_within_declaration [OF _ step] message_def_inv show ?thesis
    by (simp del: bex_simps) blast
qed

theorem validate_sound_witness:
  "(PendingL, DroppedL) \<in> (leads (arcs_of (md_edges message_definition)))\<^sup>*
    \<and> step message_machine demo_deliver (demo_handle\<lparr>h_state := Settled None\<rparr>)
      = (Inl (Refused Message_Ended), demo_handle\<lparr>h_state := Settled None\<rparr>)"
proof -
  have labels: "DroppedL \<in> set (m_labels message_machine)"
    by code_simp
  have initial: "md_initial message_definition = PendingL"
    by code_simp
  have "def_inv (m_definition message_machine)"
    by (simp add: message_def_inv)
  note sound = validate_sound [OF message_validates this, THEN conjunct2]
  show ?thesis
    using conjunct1 [OF sound, rule_format, OF labels] initial
      conjunct2 [OF sound, rule_format, where h = "demo_handle\<lparr>h_state := Settled None\<rparr>"]
    by (simp add: message_ends)
qed


theorem home_apply_appends_witness:
  "ml_sequence (hm_log demo_created) < ml_sequence (hm_log demo_delivered)
    \<and> length (memory_log_events (hm_log demo_delivered) ''m1'')
      = Suc (length (memory_log_events (hm_log demo_created) ''m1''))"
proof -
  have "map_option (\<lambda>r. (res_name r, res_version r)) (bm_get (hm_resources demo_created) ''m1'') = Some (''m1'', 1)"
    by code_simp
  then obtain r where r: "bm_get (hm_resources demo_created) ''m1'' = Some r" "res_name r = ''m1''"
    "res_version r = 1"
    by auto
  have seq: "ml_sequence (hm_log demo_created) = 1"
    by code_simp
  have "is_ok (fst (home_apply message_machine memory_log_ops ''m1'' demo_deliver demo_world 2 demo_created))"
    by code_simp
  then obtain ev where
    "home_apply message_machine memory_log_ops ''m1'' demo_deliver demo_world 2 demo_created = (Inr ev, demo_delivered)"
    unfolding demo_delivered_def by (auto simp: is_ok_iff prod_eq_iff)
  from home_apply_appends [OF demo_delivered_log(1,2) r(1,2) _ this] show ?thesis
    using r(3) seq by auto
qed

theorem home_history_trail_witness:
  "\<exists>evs. (\<forall>limit \<ge> length evs. memory_log_history ''m1'' 0 limit (hm_log demo_settled) = evs)
    \<and> trail PendingL (map snd evs) SettledL"
proof -
  have "map_option (\<lambda>r. message_label_of (st_value (res_state r))) (bm_get (hm_resources demo_settled) ''m1'')
      = Some SettledL"
    by code_simp
  then obtain r where r: "bm_get (hm_resources demo_settled) ''m1'' = Some r"
    "message_label_of (st_value (res_state r)) = SettledL"
    by auto
  have "md_initial message_definition = PendingL"
    by code_simp
  with home_history_trail [OF demo_fresh demo_start_settled demo_delivered_log(3) r(1)] r(2) show ?thesis
    by auto
qed

theorem history_pages_join_witness:
  "memory_log_history ''m1'' 0 1 (hm_log demo_settled)
      @ memory_log_history ''m1'' (fst (last (memory_log_history ''m1'' 0 1 (hm_log demo_settled)))) 1
          (hm_log demo_settled)
    = memory_log_history ''m1'' 0 2 (hm_log demo_settled)"
proof -
  have page: "memory_log_history ''m1'' 0 1 (hm_log demo_settled) \<noteq> []"
    "length (memory_log_history ''m1'' 0 1 (hm_log demo_settled)) = 1"
    by code_simp+
  from history_pages_join [OF demo_delivered_log(4) refl page, of 1] show ?thesis
    unfolding one_add_one .
qed

end
