(* ===== verification/Awaiting_Reply.thy ===== *)
theory Awaiting_Reply
  imports Message
begin

text \<open>
  The AwaitingReply machine: \<open>src/crates/flotilla-state-machines/src/machines/awaiting_reply.rs\<close>,
  with the in-memory world that lands messages.

  A record of a sent message stays Open until a reply lands in the sender's own inbox, its deadline
  passes with no reply there, or the sender withdraws it. The lemmas compute each edge's step; the
  properties give the exact acceptance condition and show that over any sequence of landings a
  record that can be answered cannot expire.
\<close>

section \<open>The record\<close>

datatype awaited = Awaited_Reply | Awaited_Outcome

record awaiting_spec =
  ar_message :: message_ref
  ar_sender :: string
  ar_recipient :: string
  ar_subject :: "string option"
  ar_kind :: string
  ar_awaited :: awaited
  ar_deadline :: "timestamp option"

datatype awaiting_state = AR_Open | AR_Answered | AR_Expired | AR_Withdrawn string

datatype awaiting_label = AR_OpenL | AR_AnsweredL | AR_ExpiredL | AR_WithdrawnL

datatype awaiting_datum = D_withdraw_reason string

fun awaiting_label_of :: "awaiting_state \<Rightarrow> awaiting_label" where
  "awaiting_label_of AR_Open = AR_OpenL"
| "awaiting_label_of AR_Answered = AR_AnsweredL"
| "awaiting_label_of AR_Expired = AR_ExpiredL"
| "awaiting_label_of (AR_Withdrawn r) = AR_WithdrawnL"

fun awaiting_data :: "awaiting_state \<Rightarrow> (string \<times> awaiting_datum) list" where
  "awaiting_data (AR_Withdrawn r) = [(''reason'', D_withdraw_reason r)]"
| "awaiting_data _ = []"

fun awaiting_fields :: "awaiting_label \<Rightarrow> string list" where
  "awaiting_fields AR_WithdrawnL = [''reason'']"
| "awaiting_fields _ = []"

record withdraw =
  wd_by :: string
  wd_reason :: string
  wd_authority :: string

datatype awaiting_edge = Answer message_ref | Expire | Withdraw withdraw

datatype awaiting_kind = AnswerK | ExpireK | WithdrawK

fun awaiting_kind_of :: "awaiting_edge \<Rightarrow> awaiting_kind" where
  "awaiting_kind_of (Answer r) = AnswerK"
| "awaiting_kind_of Expire = ExpireK"
| "awaiting_kind_of (Withdraw w) = WithdrawK"

fun project_answer :: "awaiting_edge \<Rightarrow> message_ref option" where
  "project_answer (Answer r) = Some r"
| "project_answer _ = None"

fun project_expire :: "awaiting_edge \<Rightarrow> unit option" where
  "project_expire Expire = Some ()"
| "project_expire _ = None"

fun project_withdraw :: "awaiting_edge \<Rightarrow> withdraw option" where
  "project_withdraw (Withdraw w) = Some w"
| "project_withdraw _ = None"

section \<open>The world\<close>

definition message_key :: "message_ref \<Rightarrow> string" where
  "message_key m = mref_name m @ ''@'' @ mref_home m"

definition landed :: "message_ref \<Rightarrow> string" where
  "landed m = message_key m"

definition replies :: "message_ref \<Rightarrow> string" where
  "replies m = message_key m"

record landing =
  ld_inbox :: string
  ld_in_reply_to :: "message_ref option"

record awaiting_world =
  w_landed :: "string \<Rightarrow> (version \<times> landing) option"
  w_replies :: "string \<Rightarrow> (version \<times> string btree_set) option"
  w_withdraw_authority :: "string \<Rightarrow> (version \<times> bool) option"

definition Landed :: "(awaiting_world, landing) kind" where
  "Landed = \<lparr>k_name = ''landed'', k_lookup = w_landed\<rparr>"

definition Replies :: "(awaiting_world, string btree_set) kind" where
  "Replies = \<lparr>k_name = ''replies'', k_lookup = w_replies\<rparr>"

definition Withdraw_Authority :: "(awaiting_world, bool) kind" where
  "Withdraw_Authority = \<lparr>k_name = ''authority'', k_lookup = w_withdraw_authority\<rparr>"

text \<open>The in-memory world, and the world its tables serve.\<close>

record memory_awaiting_world =
  mw_landed :: "landing table"
  mw_replies :: "string btree_set table"
  mw_authority :: "bool table"

definition memory_awaiting_new :: memory_awaiting_world where
  "memory_awaiting_new = \<lparr>mw_landed = table_new, mw_replies = table_new, mw_authority = table_new\<rparr>"

definition awaiting_world_of :: "memory_awaiting_world \<Rightarrow> awaiting_world" where
  "awaiting_world_of mw =
    \<lparr>w_landed = table_lookup (mw_landed mw), w_replies = table_lookup (mw_replies mw),
     w_withdraw_authority = table_lookup (mw_authority mw)\<rparr>"

definition land ::
  "message_ref \<Rightarrow> string \<Rightarrow> message_ref option \<Rightarrow> memory_awaiting_world \<Rightarrow> memory_awaiting_world" where
  "land message inbox in_reply_to mw =
    (let mw1 = mw\<lparr>mw_landed := snd (table_put (landed message)
                  \<lparr>ld_inbox = inbox, ld_in_reply_to = in_reply_to\<rparr> (mw_landed mw))\<rparr>
     in case in_reply_to of
          None \<Rightarrow> mw1
        | Some answered \<Rightarrow>
            (let reference = replies answered;
                 inboxes = (case table_lookup (mw_replies mw1) reference of
                              None \<Rightarrow> [] | Some (_, inboxes) \<Rightarrow> inboxes)
             in mw1\<lparr>mw_replies := snd (table_put reference (bs_insert inbox inboxes) (mw_replies mw1))\<rparr>))"

section \<open>The machine\<close>

datatype awaiting_refusal =
  NotOpen
| ReplyAbsent
| NotAReply
| NoDeadline
| NotDue
| ReplyPresent
| AR_Unauthorised

type_synonym awaiting_handle = "(awaiting_spec, awaiting_state, awaiting_world, no_records) handle"

definition reply_present :: "awaiting_handle \<Rightarrow> bool \<times> awaiting_handle" where
  "reply_present h =
    (case handle_read Replies (replies (ar_message (h_spec h))) h of
       (None, h') \<Rightarrow> (False, h')
     | (Some inboxes, h') \<Rightarrow> (ar_sender (h_spec h) \<in> set inboxes, h'))"

definition gate_answer :: "awaiting_handle \<Rightarrow> message_ref \<Rightarrow> (awaiting_refusal + unit) \<times> awaiting_handle" where
  "gate_answer h reply =
    (case handle_read Landed (landed reply) h of
       (Some landing, h') \<Rightarrow>
         if ld_inbox landing = ar_sender (h_spec h)
         then (if ld_in_reply_to landing = Some (ar_message (h_spec h)) then (Inr (), h')
               else (Inl NotAReply, h'))
         else (Inl ReplyAbsent, h')
     | (None, h') \<Rightarrow> (Inl ReplyAbsent, h'))"

definition gate_expire :: "awaiting_handle \<Rightarrow> unit \<Rightarrow> (awaiting_refusal + unit) \<times> awaiting_handle" where
  "gate_expire h arg =
    (case ar_deadline (h_spec h) of
       None \<Rightarrow> (Inl NoDeadline, h)
     | Some deadline \<Rightarrow>
         if h_now h \<le> deadline then (Inl NotDue, h)
         else (case reply_present h of
             (present, h') \<Rightarrow> if present then (Inl ReplyPresent, h') else (Inr (), h')))"

definition gate_withdraw :: "awaiting_handle \<Rightarrow> withdraw \<Rightarrow> (awaiting_refusal + unit) \<times> awaiting_handle" where
  "gate_withdraw h w =
    (case handle_read Withdraw_Authority (wd_authority w) h of
       (found, h') \<Rightarrow>
         if found \<noteq> Some True \<or> wd_reason w = [] then (Inl AR_Unauthorised, h') else (Inr (), h'))"

definition effect_answer :: "awaiting_handle \<Rightarrow> awaiting_state \<Rightarrow> message_ref \<Rightarrow> awaiting_state \<times> awaiting_handle" where
  "effect_answer h state arg = (AR_Answered, h)"

definition effect_expire :: "awaiting_handle \<Rightarrow> awaiting_state \<Rightarrow> unit \<Rightarrow> awaiting_state \<times> awaiting_handle" where
  "effect_expire h state arg = (AR_Expired, h)"

definition effect_withdraw :: "awaiting_handle \<Rightarrow> awaiting_state \<Rightarrow> withdraw \<Rightarrow> awaiting_state \<times> awaiting_handle" where
  "effect_withdraw h state w = (AR_Withdrawn (wd_reason w), h)"

type_synonym awaiting_declared =
  "(awaiting_label, awaiting_kind, awaiting_state, awaiting_edge, awaiting_spec, awaiting_world,
    no_records, awaiting_refusal) declared_edge"

definition answer_edge :: awaiting_declared where
  "answer_edge = chained (edge_new AnswerK)
    [edge_from [AR_OpenL],
     edge_to [AR_AnsweredL],
     edge_gate project_answer
       ''the reply landed in the sender's inbox and replies to the awaited message'' gate_answer,
     edge_effect project_answer effect_answer]"

definition expire_edge :: awaiting_declared where
  "expire_edge = chained (edge_new ExpireK)
    [edge_from [AR_OpenL],
     edge_to [AR_ExpiredL],
     edge_gate project_expire
       ''the clock is strictly past the deadline and no reply is in the sender's inbox'' gate_expire,
     edge_effect project_expire effect_expire]"

definition withdraw_edge :: awaiting_declared where
  "withdraw_edge = chained (edge_new WithdrawK)
    [edge_from [AR_OpenL],
     edge_to [AR_WithdrawnL],
     edge_changes [''reason''],
     edge_gate project_withdraw ''an authorised withdrawal with a reason'' gate_withdraw,
     edge_effect project_withdraw effect_withdraw]"

definition awaiting_definition ::
  "(awaiting_label, awaiting_kind, awaiting_state, awaiting_edge, awaiting_spec, awaiting_world,
    no_records, awaiting_refusal) machine_def" where
  "awaiting_definition =
    chained (machine_new AR_OpenL)
      [machine_edge answer_edge,
       machine_edge expire_edge,
       machine_edge withdraw_edge,
       machine_end AR_AnsweredL ''a reply answered the record'',
       machine_end AR_ExpiredL ''the record expired unanswered'',
       machine_end AR_WithdrawnL ''the sender withdrew the record'']"

definition awaiting_machine ::
  "(awaiting_label, awaiting_kind, awaiting_state, awaiting_edge, awaiting_spec, awaiting_world,
    no_records, awaiting_refusal, awaiting_datum, awaiting_spec) machine" where
  "awaiting_machine =
    \<lparr>m_name = ''AwaitingReply'', m_label = awaiting_label_of, m_data = awaiting_data,
     m_fields = awaiting_fields, m_labels = [AR_OpenL, AR_AnsweredL, AR_ExpiredL, AR_WithdrawnL],
     m_label_name = (\<lambda>l. case l of AR_OpenL \<Rightarrow> ''Open'' | AR_AnsweredL \<Rightarrow> ''Answered''
       | AR_ExpiredL \<Rightarrow> ''Expired'' | AR_WithdrawnL \<Rightarrow> ''Withdrawn''),
     m_label_code = (\<lambda>l. case l of AR_OpenL \<Rightarrow> ''op'' | AR_AnsweredL \<Rightarrow> ''an''
       | AR_ExpiredL \<Rightarrow> ''ex'' | AR_WithdrawnL \<Rightarrow> ''wd''),
     m_kind = awaiting_kind_of, m_kinds = [AnswerK, ExpireK, WithdrawK],
     m_kind_name = (\<lambda>k. case k of AnswerK \<Rightarrow> ''answer'' | ExpireK \<Rightarrow> ''expire'' | WithdrawK \<Rightarrow> ''withdraw''),
     m_kind_code = (\<lambda>k. case k of AnswerK \<Rightarrow> ''an'' | ExpireK \<Rightarrow> ''ex'' | WithdrawK \<Rightarrow> ''wd''),
     m_write_field = (\<lambda>_. []), m_write_apply = (\<lambda>_ _ spec. Inr spec),
     m_ended = (\<lambda>_ _. NotOpen), m_wrong_state = (\<lambda>_ _. NotOpen),
     m_definition = awaiting_definition,
     m_admit = (\<lambda>a spec. (Inr (spec, AR_Open), a))\<rparr>"

section \<open>Lemmas\<close>

lemmas awaiting_edge_defs = answer_edge_def expire_edge_def withdraw_edge_def

lemmas awaiting_gate_defs = gate_answer_def gate_expire_def gate_withdraw_def reply_present_def
  handle_read_eq

lemma awaiting_find:
  "find_edge awaiting_definition AnswerK = Some answer_edge"
  "find_edge awaiting_definition ExpireK = Some expire_edge"
  "find_edge awaiting_definition WithdrawK = Some withdraw_edge"
  by (simp_all add: awaiting_definition_def find_edge_def machine_builder_defs edge_builder_defs
      awaiting_edge_defs)

lemma awaiting_ends:
  "end_reason awaiting_definition AR_OpenL = None"
  "end_reason awaiting_definition AR_AnsweredL = Some ''a reply answered the record''"
  "end_reason awaiting_definition AR_ExpiredL = Some ''the record expired unanswered''"
  "end_reason awaiting_definition AR_WithdrawnL = Some ''the sender withdrew the record''"
  by (simp_all add: awaiting_definition_def end_reason_def machine_builder_defs)

lemma awaiting_machine_simps [simp]:
  "m_definition awaiting_machine = awaiting_definition"
  "m_label awaiting_machine = awaiting_label_of"
  "m_data awaiting_machine = awaiting_data"
  "m_kind awaiting_machine = awaiting_kind_of"
  "m_ended awaiting_machine l r = NotOpen"
  "m_wrong_state awaiting_machine l k = NotOpen"
  "m_write_apply awaiting_machine w v spec = Inr spec"
  "m_admit awaiting_machine a spec = (Inr (spec, AR_Open), a)"
  by (simp_all add: awaiting_machine_def)

lemma awaiting_gates_view:
  "same_view h (snd (gate_answer h reply))"
  "same_view h (snd (gate_expire h u))"
  "same_view h (snd (gate_withdraw h w))"
  by (auto simp: awaiting_gate_defs split: option.splits)

lemma awaiting_changed:
  "set (changed (awaiting_data s) (awaiting_data (AR_Withdrawn r))) \<subseteq> {''reason''}"
  "changed (awaiting_data s) (awaiting_data AR_Answered) = []"
  "changed (awaiting_data s) (awaiting_data AR_Expired) = []"
  by (simp_all add: changed_subset) (simp_all add: changed_def)

lemmas awaiting_step_simps = awaiting_find awaiting_ends awaiting_edge_defs edge_builder_defs
  awaiting_changed awaiting_gates_view effect_answer_def effect_expire_def effect_withdraw_def

lemma awaiting_step_open:
  assumes "h_state h = AR_Open"
  shows "step awaiting_machine (Answer reply) h = gated (gate_answer h reply) (\<lambda>h. (AR_Answered, h))"
    and "step awaiting_machine Expire h = gated (gate_expire h ()) (\<lambda>h. (AR_Expired, h))"
    and "step awaiting_machine (Withdraw w) h
      = gated (gate_withdraw h w) (\<lambda>h. (AR_Withdrawn (wd_reason w), h))"
  subgoal
    using assms by (subst step_of_gated [where d = answer_edge and p = project_answer
          and gate = gate_answer and eff = effect_answer and arg = reply])
      (simp_all add: awaiting_step_simps del: awaiting_data.simps)
  subgoal
    using assms by (subst step_of_gated [where d = expire_edge and p = project_expire
          and gate = gate_expire and eff = effect_expire and arg = "()"])
      (simp_all add: awaiting_step_simps del: awaiting_data.simps)
  subgoal
    using assms by (subst step_of_gated [where d = withdraw_edge and p = project_withdraw
          and gate = gate_withdraw and eff = effect_withdraw and arg = w])
      (simp_all add: awaiting_step_simps del: awaiting_data.simps)
  done

lemma awaiting_step_ended:
  "h_state h \<noteq> AR_Open \<Longrightarrow> step awaiting_machine e h = (Inl (Refused NotOpen), h)"
  by (cases "h_state h") (simp_all add: step_def awaiting_ends Let_def)

text \<open>
  The tables of a memory world agree: whoever holds a landed reply to a message is listed among
  those holding one.
\<close>

definition landings_agree :: "memory_awaiting_world \<Rightarrow> bool" where
  "landings_agree mw \<longleftrightarrow>
    (\<forall>k version l m. table_lookup (mw_landed mw) k = Some (version, l) \<longrightarrow> ld_in_reply_to l = Some m \<longrightarrow>
      (\<exists>version' inboxes. table_lookup (mw_replies mw) (replies m) = Some (version', inboxes)
        \<and> ld_inbox l \<in> set inboxes))"

lemma landings_agree_new: "landings_agree memory_awaiting_new"
  by (simp add: landings_agree_def memory_awaiting_new_def table_new_def table_lookup_def)

lemma landings_agreeD:
  "landings_agree mw \<Longrightarrow> table_lookup (mw_landed mw) k = Some (version, l) \<Longrightarrow> ld_in_reply_to l = Some m
    \<Longrightarrow> \<exists>version' inboxes. table_lookup (mw_replies mw) (replies m) = Some (version', inboxes)
        \<and> ld_inbox l \<in> set inboxes"
  by (simp add: landings_agree_def)

lemma landings_agree_land:
  assumes "landings_agree mw"
  shows "landings_agree (land message inbox in_reply_to mw)"
  unfolding landings_agree_def
proof (intro allI impI)
  fix k version l m
  assume found: "table_lookup (mw_landed (land message inbox in_reply_to mw)) k = Some (version, l)"
    and reply: "ld_in_reply_to l = Some m"
  have rows: "table_lookup (mw_landed (land message inbox in_reply_to mw)) k
      = (if k = landed message then Some (version_next (t_clock (mw_landed mw)),
           \<lparr>ld_inbox = inbox, ld_in_reply_to = in_reply_to\<rparr>) else table_lookup (mw_landed mw) k)"
    by (simp add: land_def Let_def table_lookup_put split: option.splits)
  have kept: "\<exists>version' inboxes'. table_lookup (mw_replies (land message inbox in_reply_to mw)) (replies m)
        = Some (version', inboxes') \<and> set inboxes \<subseteq> set inboxes'"
    if "table_lookup (mw_replies mw) (replies m) = Some (v, inboxes)" for v inboxes
    using that by (auto simp: land_def Let_def table_lookup_put split: option.splits)
  show "\<exists>version' inboxes. table_lookup (mw_replies (land message inbox in_reply_to mw)) (replies m)
      = Some (version', inboxes) \<and> ld_inbox l \<in> set inboxes"
  proof (cases "k = landed message")
    case True
    with found rows reply have "in_reply_to = Some m" "ld_inbox l = inbox"
      by auto
    then show ?thesis
      by (simp add: land_def Let_def table_lookup_put)
  next
    case False
    with found rows have "table_lookup (mw_landed mw) k = Some (version, l)"
      by simp
    from landings_agreeD [OF assms this reply] kept show ?thesis
      by (metis subsetD)
  qed
qed

section \<open>Properties\<close>

text \<open>
  C27: An awaiting-reply record moves only while Open, and exactly on its evidence. It is answered
  when the named reply landed in the sender's own inbox and replies to the awaited message, expires
  when its deadline is strictly past and no reply is in that inbox, and is withdrawn by an authorised
  withdrawal that gives a reason; each ends it in the corresponding state.
\<close>

theorem awaiting_step_exact:
  "fst (step awaiting_machine e h) = Inr state \<longleftrightarrow>
    h_state h = AR_Open
    \<and> (case e of
         Answer reply \<Rightarrow> state = AR_Answered
           \<and> look Landed (landed reply) h
              = Some \<lparr>ld_inbox = ar_sender (h_spec h), ld_in_reply_to = Some (ar_message (h_spec h))\<rparr>
       | Expire \<Rightarrow> state = AR_Expired
           \<and> (case ar_deadline (h_spec h) of None \<Rightarrow> False | Some deadline \<Rightarrow> deadline < h_now h)
           \<and> (case look Replies (replies (ar_message (h_spec h))) h of None \<Rightarrow> True
              | Some inboxes \<Rightarrow> ar_sender (h_spec h) \<notin> set inboxes)
       | Withdraw w \<Rightarrow> state = AR_Withdrawn (wd_reason w) \<and> wd_reason w \<noteq> []
           \<and> look Withdraw_Authority (wd_authority w) h = Some True)"
proof (cases "h_state h = AR_Open")
  case True
  show ?thesis
    by (cases e)
      (auto simp: awaiting_step_open [OF True] True fst_gated awaiting_gate_defs split: option.splits)
qed (simp add: awaiting_step_ended)

text \<open>
  C28: A reply wins over a passed deadline. In a memory world reached by any landings, whenever some
  reply could answer a record, that record cannot expire, whatever the time.
\<close>

theorem awaiting_reply_wins:
  assumes "h_world h = awaiting_world_of
      (fold (\<lambda>(message, inbox, in_reply_to). land message inbox in_reply_to) landings memory_awaiting_new)"
    and "is_ok (fst (step awaiting_machine (Answer reply) h))"
  shows "\<not> is_ok (fst (step awaiting_machine Expire (h\<lparr>h_now := later\<rparr>)))"
proof -
  let ?mw = "fold (\<lambda>(message, inbox, in_reply_to). land message inbox in_reply_to) landings memory_awaiting_new"
  have "landings_agree (fold (\<lambda>(message, inbox, in_reply_to). land message inbox in_reply_to) xs mw)"
    if "landings_agree mw" for xs mw
    using that by (induction xs arbitrary: mw) (auto intro: landings_agree_land)
  then have agree: "landings_agree ?mw"
    using landings_agree_new by blast
  have opened: "h_state h = AR_Open"
    using assms(2) awaiting_step_ended [of h "Answer reply"]
    by (cases "h_state h = AR_Open") (auto simp: is_ok_iff)
  then obtain version landing where
    "table_lookup (mw_landed ?mw) (landed reply) = Some (version, landing)"
    "ld_inbox landing = ar_sender (h_spec h)" "ld_in_reply_to landing = Some (ar_message (h_spec h))"
    using assms
    by (auto simp: awaiting_step_open fst_gated awaiting_gate_defs is_ok_iff look_def Landed_def
        awaiting_world_of_def split: option.splits if_splits)
  then obtain version' inboxes where
    "table_lookup (mw_replies ?mw) (replies (ar_message (h_spec h))) = Some (version', inboxes)"
    "ar_sender (h_spec h) \<in> set inboxes"
    using landings_agreeD [OF agree] by metis
  with assms(1) opened show ?thesis
    by (auto simp: awaiting_step_open fst_gated awaiting_gate_defs is_ok_iff look_def Replies_def
        awaiting_world_of_def split: option.splits if_splits)
qed

section \<open>Witnesses\<close>

definition demo_awaiting :: awaiting_handle where
  "demo_awaiting =
    (let sent = \<lparr>mref_name = ''m1'', mref_home = ''h1''\<rparr>;
         spec = \<lparr>ar_message = sent, ar_sender = ''seat/a'', ar_recipient = ''role/b'', ar_subject = None,
                 ar_kind = ''stall'', ar_awaited = Awaited_Reply, ar_deadline = Some 10\<rparr>
     in handle_on (resource_stored ''r1'' spec \<lparr>st_value = AR_Open, st_since = 0\<rparr> 1)
          (awaiting_world_of (fold (\<lambda>(message, inbox, in_reply_to). land message inbox in_reply_to)
            [(\<lparr>mref_name = ''m2'', mref_home = ''h2''\<rparr>, ''seat/a'', Some sent)] memory_awaiting_new)) 5)"

theorem awaiting_reply_wins_witness:
  "is_ok (fst (step awaiting_machine (Answer \<lparr>mref_name = ''m2'', mref_home = ''h2''\<rparr>) demo_awaiting))
    \<and> \<not> is_ok (fst (step awaiting_machine Expire (demo_awaiting\<lparr>h_now := 100\<rparr>)))"
proof -
  have answers: "is_ok (fst (step awaiting_machine (Answer \<lparr>mref_name = ''m2'', mref_home = ''h2''\<rparr>) demo_awaiting))"
    by code_simp
  have "h_world demo_awaiting = awaiting_world_of (fold (\<lambda>(message, inbox, in_reply_to). land message inbox in_reply_to)
      [(\<lparr>mref_name = ''m2'', mref_home = ''h2''\<rparr>, ''seat/a'', Some \<lparr>mref_name = ''m1'', mref_home = ''h1''\<rparr>)]
      memory_awaiting_new)"
    by (simp add: demo_awaiting_def Let_def)
  from awaiting_reply_wins [OF this answers] answers show ?thesis
    by simp
qed

end
