(* ===== verification/Text.thy ===== *)
theory Text
  imports Prelude
begin

text \<open>
  The operations on \<open>str\<close> and \<open>u8\<close> of the Rust standard library that the address crate uses. A
  \<open>str\<close> is its UTF-8 bytes. Searches for ASCII characters are searches for bytes, since no byte of
  a longer character is ASCII; \<open>char::is_whitespace\<close> alone needs the longer encodings, which
  \<open>whitespace_len\<close> lists. Unicode case mapping is data of the standard library and not of the
  sources: the theories that use it take it as an argument.
\<close>

section \<open>Bytes\<close>

definition byte :: "char \<Rightarrow> nat" where
  "byte c = of_char c"

definition is_ascii_digit :: "char \<Rightarrow> bool" where
  "is_ascii_digit c \<longleftrightarrow> 48 \<le> byte c \<and> byte c \<le> 57"

definition is_ascii_lowercase :: "char \<Rightarrow> bool" where
  "is_ascii_lowercase c \<longleftrightarrow> 97 \<le> byte c \<and> byte c \<le> 122"

definition is_ascii_uppercase :: "char \<Rightarrow> bool" where
  "is_ascii_uppercase c \<longleftrightarrow> 65 \<le> byte c \<and> byte c \<le> 90"

definition is_ascii_alphanumeric :: "char \<Rightarrow> bool" where
  "is_ascii_alphanumeric c \<longleftrightarrow> is_ascii_digit c \<or> is_ascii_lowercase c \<or> is_ascii_uppercase c"

definition to_ascii_lowercase :: "string \<Rightarrow> string" where
  "to_ascii_lowercase s = map (\<lambda>c. if is_ascii_uppercase c then char_of (byte c + 32) else c) s"

text \<open>A continuation byte, and the second bytes each leading byte admits (Unicode, table 3-7).\<close>

definition cont :: "char \<Rightarrow> bool" where
  "cont c \<longleftrightarrow> 128 \<le> byte c \<and> byte c \<le> 191"

definition second_ok :: "char \<Rightarrow> char \<Rightarrow> bool" where
  "second_ok lead c \<longleftrightarrow> cont c
    \<and> (byte lead = 224 \<longrightarrow> 160 \<le> byte c) \<and> (byte lead = 237 \<longrightarrow> byte c \<le> 159)
    \<and> (byte lead = 240 \<longrightarrow> 144 \<le> byte c) \<and> (byte lead = 244 \<longrightarrow> byte c \<le> 143)"

fun utf8 :: "string \<Rightarrow> bool" where
  "utf8 [] = True"
| "utf8 (b # bs) =
    (if byte b < 128 then utf8 bs
     else if byte b < 194 then False
     else if byte b < 224 then (case bs of b1 # bs1 \<Rightarrow> cont b1 \<and> utf8 bs1 | _ \<Rightarrow> False)
     else if byte b < 240
       then (case bs of b1 # b2 # bs2 \<Rightarrow> second_ok b b1 \<and> cont b2 \<and> utf8 bs2 | _ \<Rightarrow> False)
     else if byte b < 245
       then (case bs of b1 # b2 # b3 # bs3 \<Rightarrow> second_ok b b1 \<and> cont b2 \<and> cont b3 \<and> utf8 bs3 | _ \<Rightarrow> False)
     else False)"

text \<open>
  The length in bytes of the whitespace character a string starts with, zero when it starts with
  none: U+0009 to U+000D, U+0020, U+0085, U+00A0, U+1680, U+2000 to U+200A, U+2028, U+2029,
  U+202F, U+205F and U+3000.
\<close>

definition whitespace_len :: "string \<Rightarrow> nat" where
  "whitespace_len s =
    (case map byte (take 3 s) of
       [] \<Rightarrow> 0
     | b # bs \<Rightarrow>
         if b = 32 \<or> (9 \<le> b \<and> b \<le> 13) then 1
         else if b = 194 \<and> bs \<noteq> [] \<and> (hd bs = 133 \<or> hd bs = 160) then 2
         else if (b = 225 \<and> bs = [154, 128]) \<or> (b = 227 \<and> bs = [128, 128])
           \<or> (b = 226 \<and> bs = [129, 159])
           \<or> (b = 226 \<and> length bs = 2 \<and> hd bs = 128
              \<and> ((128 \<le> bs ! 1 \<and> bs ! 1 \<le> 138) \<or> bs ! 1 = 168 \<or> bs ! 1 = 169 \<or> bs ! 1 = 175)) then 3
         else 0)"

section \<open>Searching and splitting\<close>

fun split_once :: "char \<Rightarrow> string \<Rightarrow> (string \<times> string) option" where
  "split_once c [] = None"
| "split_once c (b # bs) =
    (if b = c then Some ([], bs)
     else (case split_once c bs of None \<Rightarrow> None | Some (l, r) \<Rightarrow> Some (b # l, r)))"

definition rsplit_once :: "char \<Rightarrow> string \<Rightarrow> (string \<times> string) option" where
  "rsplit_once c s = map_option (\<lambda>(l, r). (rev r, rev l)) (split_once c (rev s))"

text \<open>\<open>str::split\<close> by a set of characters: one piece more than there are separators.\<close>

fun split_by :: "(char \<Rightarrow> bool) \<Rightarrow> string \<Rightarrow> string list" where
  "split_by P [] = [[]]"
| "split_by P (b # bs) =
    (if P b then [] # split_by P bs
     else (case split_by P bs of [] \<Rightarrow> [[b]] | p # ps \<Rightarrow> (b # p) # ps))"

abbreviation split :: "char \<Rightarrow> string \<Rightarrow> string list" where
  "split c \<equiv> split_by ((=) c)"

fun join :: "string \<Rightarrow> string list \<Rightarrow> string" where
  "join sep [] = []"
| "join sep [p] = p"
| "join sep (p # q # ps) = p @ sep @ join sep (q # ps)"

fun strip_prefix :: "string \<Rightarrow> string \<Rightarrow> string option" where
  "strip_prefix [] s = Some s"
| "strip_prefix (p # ps) s = (case s of [] \<Rightarrow> None | b # bs \<Rightarrow> if b = p then strip_prefix ps bs else None)"

definition strip_suffix :: "string \<Rightarrow> string \<Rightarrow> string option" where
  "strip_suffix suffix s = map_option rev (strip_prefix (rev suffix) (rev s))"

definition starts_with :: "char \<Rightarrow> string \<Rightarrow> bool" where
  "starts_with c s \<longleftrightarrow> s \<noteq> [] \<and> hd s = c"

definition trim_end_matches :: "char \<Rightarrow> string \<Rightarrow> string" where
  "trim_end_matches c s = rev (dropWhile (\<lambda>b. b = c) (rev s))"

section \<open>Whitespace\<close>

function trim_start :: "string \<Rightarrow> string" where
  "trim_start s = (if whitespace_len s = 0 then s else trim_start (drop (whitespace_len s) s))"
  by pat_completeness auto
termination
proof (relation "measure length", simp)
  fix s
  assume s: "whitespace_len s \<noteq> 0"
  then have "s \<noteq> []"
    by (cases s) (simp_all add: whitespace_len_def)
  with s show "(drop (whitespace_len s) s, s) \<in> measure length"
    by simp
qed

declare trim_start.simps [simp del]

text \<open>Everything up to the next whitespace, and what follows it.\<close>

fun token_of :: "string \<Rightarrow> string \<times> string" where
  "token_of [] = ([], [])"
| "token_of (b # bs) =
    (if whitespace_len (b # bs) > 0 then ([], b # bs)
     else (case token_of bs of (l, r) \<Rightarrow> (b # l, r)))"

text \<open>
  \<open>trim\<close> also drops the trailing whitespace: what is left ends with the last character that is
  none.
\<close>

fun trim_end :: "string \<Rightarrow> string" where
  "trim_end [] = []"
| "trim_end (b # bs) = (if trim_start (b # bs) = [] then [] else b # trim_end bs)"

definition trim :: "string \<Rightarrow> string" where
  "trim s = trim_end (trim_start s)"

function split_whitespace :: "string \<Rightarrow> string list" where
  "split_whitespace s =
    (let s' = trim_start s
     in if s' = [] then [] else fst (token_of s') # split_whitespace (snd (token_of s')))"
  by pat_completeness auto

section \<open>Numbers\<close>

fun decimal :: "nat \<Rightarrow> string \<Rightarrow> nat" where
  "decimal n [] = n"
| "decimal n (d # ds) = decimal (10 * n + (byte d - 48)) ds"

text \<open>\<open>str::parse::<u64>\<close>: an optional sign, then at least one digit, within the width.\<close>

definition parse_u64 :: "string \<Rightarrow> nat option" where
  "parse_u64 s =
    (let ds = (if starts_with (CHR ''+'') s then tl s else s)
     in if ds \<noteq> [] \<and> list_all is_ascii_digit ds \<and> decimal 0 ds \<le> u64_max then Some (decimal 0 ds) else None)"

text \<open>\<open>u64::to_string\<close>.\<close>

fun print_nat :: "nat \<Rightarrow> string" where
  "print_nat n = (if n < 10 then [char_of (48 + n)] else print_nat (n div 10) @ [char_of (48 + n mod 10)])"

declare print_nat.simps [simp del]

section \<open>Lemmas\<close>

lemma whitespace_len_pos: "whitespace_len s > 0 \<Longrightarrow> s \<noteq> []"
  by (cases s) (simp_all add: whitespace_len_def)

lemma token_of_append: "fst (token_of s) @ snd (token_of s) = s"
  by (induction s) (auto simp: split_beta)

lemma token_of_length: "length (snd (token_of s)) \<le> length s"
  by (induction s) (auto simp: split_beta)

lemma token_of_progress: "whitespace_len s = 0 \<Longrightarrow> s \<noteq> [] \<Longrightarrow> length (snd (token_of s)) < length s"
  by (cases s) (simp_all add: split_beta le_imp_less_Suc token_of_length)

lemma trim_start_done: "whitespace_len (trim_start s) = 0"
proof (induction s rule: trim_start.induct)
  case (1 s)
  then show ?case
    by (cases "whitespace_len s = 0") (simp_all add: trim_start.simps [of s])
qed

lemma trim_start_length: "length (trim_start s) \<le> length s"
proof (induction s rule: trim_start.induct)
  case (1 s)
  show ?case
  proof (cases "whitespace_len s = 0")
    case False
    with 1 have "length (trim_start (drop (whitespace_len s) s)) \<le> length s - whitespace_len s"
      by simp
    with False show ?thesis
      by (simp add: trim_start.simps [of s])
  qed (simp add: trim_start.simps)
qed

termination split_whitespace
proof (relation "measure length", simp, clarify)
  fix s
  assume "trim_start s \<noteq> []"
  then have "length (snd (token_of (trim_start s))) < length (trim_start s)"
    by (rule token_of_progress [OF trim_start_done])
  also have "\<dots> \<le> length s"
    by (rule trim_start_length)
  finally show "(snd (token_of (trim_start s)), s) \<in> measure length"
    by simp
qed

declare split_whitespace.simps [simp del]

lemma split_once_iff: "split_once c s = Some (l, r) \<longleftrightarrow> s = l @ c # r \<and> c \<notin> set l"
proof (induction s arbitrary: l)
  case (Cons b bs)
  show ?case
  proof (cases l)
    case Nil
    then show ?thesis
      by (cases "split_once c bs") (auto simp: split_beta)
  next
    case (Cons a l')
    have "split_once c (b # bs) = Some (a # l', r) \<longleftrightarrow> b \<noteq> c \<and> a = b \<and> split_once c bs = Some (l', r)"
      by (cases "split_once c bs") (auto simp: split_beta)
    with Cons.IH [of l'] Cons show ?thesis
      by simp blast
  qed
qed simp

lemma split_once_None: "split_once c s = None \<longleftrightarrow> c \<notin> set s"
  by (induction s) (auto split: option.splits)

lemma rsplit_once_iff: "rsplit_once c s = Some (l, r) \<longleftrightarrow> s = l @ c # r \<and> c \<notin> set r"
proof -
  have "rsplit_once c s = Some (l, r) \<longleftrightarrow> split_once c (rev s) = Some (rev r, rev l)"
    by (auto simp: rsplit_once_def)
  then show ?thesis
    by (simp add: split_once_iff rev_swap)
qed

lemma split_by_ne [simp]: "split_by P s \<noteq> []"
  by (cases s) (auto split: list.splits)

lemma split_none: "c \<notin> set s \<Longrightarrow> split c s = [s]"
  by (induction s) auto

lemma split_append: "split c (l @ c # r) = split c l @ split c r"
proof (induction l)
  case (Cons b l)
  then show ?case
    by (cases "split c l") auto
qed simp

lemma split_sound: "p \<in> set (split c s) \<Longrightarrow> c \<notin> set p"
proof (induction s arbitrary: p)
  case (Cons b bs)
  then show ?case
    by (cases "split c bs") (auto split: if_splits)
qed simp

lemma join_Cons: "ps \<noteq> [] \<Longrightarrow> join sep (p # ps) = p @ sep @ join sep ps"
  by (cases ps) auto

lemma join_Nil: "join sep (p # ps) = [] \<Longrightarrow> p = []"
  by (cases ps) auto

lemma join_snoc: "join sep (ps @ [p]) = (if ps = [] then p else join sep ps @ sep @ p)"
  by (induction ps) (auto simp: join_Cons)

lemma join_split: "join [c] (split c s) = s"
proof (induction s)
  case (Cons b bs)
  then show ?case
    by (cases "split c bs"; cases "tl (split c bs)") (auto simp: join_Cons)
qed simp

lemma split_join:
  assumes "ps \<noteq> []" "\<And>p. p \<in> set ps \<Longrightarrow> c \<notin> set p"
  shows "split c (join [c] ps) = ps"
  using assms
proof (induction ps)
  case (Cons p ps)
  then show ?case
    by (cases ps) (auto simp: split_none split_append)
qed simp

lemma strip_prefix_iff: "strip_prefix p s = Some r \<longleftrightarrow> s = p @ r"
  by (induction p arbitrary: s) (auto split: list.splits)

lemma starts_with_iff [simp]: "starts_with c (b # bs) \<longleftrightarrow> b = c" "\<not> starts_with c []"
  by (simp_all add: starts_with_def)

lemma byte_less: "byte c < 256"
  by (simp add: byte_def)

lemma byte_inj: "byte c = byte d \<longleftrightarrow> c = d"
  by (simp add: byte_def)

lemma byte_char_of: "n < 256 \<Longrightarrow> byte (char_of n) = n"
  by (simp add: byte_def)

lemma char_of_byte [simp]: "char_of (byte c) = c"
  by (simp add: byte_def)

lemma join_append: "ps \<noteq> [] \<Longrightarrow> qs \<noteq> [] \<Longrightarrow> join sep (ps @ qs) = join sep ps @ sep @ join sep qs"
proof (induction ps)
  case (Cons p ps)
  then show ?case
    by (cases ps) (auto simp: join_Cons)
qed simp

text \<open>A UTF-8 string split before a byte that continues no character splits into two.\<close>

lemma utf8_Cons:
  "byte b < 128 \<Longrightarrow> utf8 (b # bs) \<longleftrightarrow> utf8 bs"
  "128 \<le> byte b \<and> byte b < 194 \<or> 245 \<le> byte b \<Longrightarrow> \<not> utf8 (b # bs)"
  "194 \<le> byte b \<and> byte b < 224 \<Longrightarrow> utf8 (b # bs) \<longleftrightarrow> (\<exists>b1 r. bs = b1 # r \<and> cont b1 \<and> utf8 r)"
  "224 \<le> byte b \<and> byte b < 240 \<Longrightarrow>
    utf8 (b # bs) \<longleftrightarrow> (\<exists>b1 b2 r. bs = b1 # b2 # r \<and> second_ok b b1 \<and> cont b2 \<and> utf8 r)"
  "240 \<le> byte b \<and> byte b < 245 \<Longrightarrow>
    utf8 (b # bs) \<longleftrightarrow> (\<exists>b1 b2 b3 r. bs = b1 # b2 # b3 # r \<and> second_ok b b1 \<and> cont b2 \<and> cont b3 \<and> utf8 r)"
  subgoal by simp
  subgoal by (subst utf8.simps) (auto simp del: utf8.simps)
  subgoal by (subst utf8.simps) (simp del: utf8.simps split: list.split)
  subgoal by (subst utf8.simps) (simp del: utf8.simps split: list.split)
  subgoal by (subst utf8.simps) (simp del: utf8.simps split: list.split)
  done

lemma utf8_split: "utf8 (x @ y) \<Longrightarrow> y = [] \<or> \<not> cont (hd y) \<Longrightarrow> utf8 x \<and> utf8 y"
proof (induction x rule: length_induct)
  case (1 x)
  note head = "1"(3)
  have IH: "length z < length x \<Longrightarrow> utf8 (z @ y) \<Longrightarrow> utf8 z \<and> utf8 y" for z
    using "1"(1) head by blast
  show ?case
  proof (cases x)
    case Nil
    with "1"(2) show ?thesis
      by simp
  next
    case (Cons b bs)
    consider "byte b < 128" | "128 \<le> byte b \<and> byte b < 194 \<or> 245 \<le> byte b" | "194 \<le> byte b \<and> byte b < 224"
      | "224 \<le> byte b \<and> byte b < 240" | "240 \<le> byte b \<and> byte b < 245"
      by linarith
    then show ?thesis
    proof cases
      case 1
      with "1.prems"(1) IH [of bs] Cons show ?thesis
        by simp
    next
      case 2
      with "1.prems"(1) Cons show ?thesis
        by auto
    next
      case 3
      with "1.prems"(1) Cons obtain b1 r where "bs @ y = b1 # r" "cont b1" "utf8 r"
        by (auto simp: utf8_Cons simp del: utf8.simps)
      with 3 show ?thesis
        using head IH [of "tl bs"] Cons by (cases bs) (auto simp: utf8_Cons simp del: utf8.simps(2))
    next
      case 4
      with "1.prems"(1) Cons obtain b1 b2 r where "bs @ y = b1 # b2 # r" "second_ok b b1" "cont b2" "utf8 r"
        by (auto simp: utf8_Cons simp del: utf8.simps)
      moreover from this have "cont b1"
        by (simp add: second_ok_def)
      ultimately show ?thesis
        using 4 head IH [of "tl (tl bs)"] Cons
        by (cases bs; cases "tl bs") (auto simp: utf8_Cons simp del: utf8.simps(2))
    next
      case 5
      with "1.prems"(1) Cons obtain b1 b2 b3 r where "bs @ y = b1 # b2 # b3 # r" "second_ok b b1" "cont b2" "cont b3" "utf8 r"
        by (auto simp: utf8_Cons simp del: utf8.simps)
      moreover from this have "cont b1"
        by (simp add: second_ok_def)
      ultimately show ?thesis
        using 5 head IH [of "tl (tl (tl bs))"] Cons
        by (cases bs; cases "tl bs"; cases "tl (tl bs)") (auto simp: utf8_Cons simp del: utf8.simps(2))
    qed
  qed
qed

lemma utf8_append: "utf8 x \<Longrightarrow> utf8 y \<Longrightarrow> utf8 (x @ y)"
  by (induction x rule: utf8.induct) (auto split: if_splits list.splits)

lemma utf8_ascii: "list_all (\<lambda>b. byte b < 128) s \<Longrightarrow> utf8 s"
  by (induction s) auto

lemma whitespace_cases:
  assumes "whitespace_len s > 0"
  obtains b r where "s = b # r" "byte b < 128" "whitespace_len s = 1"
  | b b1 r where "s = b # b1 # r" "byte b = 194" "whitespace_len s = 2"
  | b b1 b2 r where "s = b # b1 # b2 # r" "225 \<le> byte b" "byte b \<le> 227" "whitespace_len s = 3"
proof -
  obtain b r where s: "s = b # r"
    using assms by (cases s) (simp_all add: whitespace_len_def)
  consider "byte b = 32 \<or> 9 \<le> byte b \<and> byte b \<le> 13" | "byte b = 194" | "byte b \<noteq> 194" "32 < byte b"
    | "byte b < 9" | "13 < byte b" "byte b < 32"
    by linarith
  then show thesis
  proof cases
    case 1
    with that(1) [OF s] s show ?thesis
      by (auto simp: whitespace_len_def)
  next
    case 2
    with that(2) assms s show ?thesis
      by (cases r) (auto simp: whitespace_len_def split: if_splits)
  next
    case 3
    with that(3) assms s show ?thesis
      by (cases r; cases "tl r") (auto simp: whitespace_len_def split: if_splits)
  qed (use assms s in \<open>simp_all add: whitespace_len_def\<close>)
qed

lemma utf8_drop_whitespace:
  assumes "utf8 s" "whitespace_len s > 0"
  shows "utf8 (drop (whitespace_len s) s)"
  using assms(2)
proof (cases rule: whitespace_cases)
  case (1 b r)
  with assms(1) show ?thesis
    by (simp add: utf8_Cons del: utf8.simps)
next
  case (2 b b1 r)
  with assms(1) show ?thesis
    by (simp add: utf8_Cons del: utf8.simps)
next
  case (3 b b1 b2 r)
  with assms(1) show ?thesis
    by (simp add: utf8_Cons del: utf8.simps)
qed

lemma utf8_trim_start: "utf8 s \<Longrightarrow> utf8 (trim_start s)"
proof (induction s rule: trim_start.induct)
  case (1 s)
  then show ?case
    by (cases "whitespace_len s = 0") (simp_all add: trim_start.simps [of s] utf8_drop_whitespace)
qed

lemma trim_end_prefix: "\<exists>r. s = trim_end s @ r \<and> (r = [] \<or> whitespace_len r > 0)"
proof (induction s)
  case (Cons b bs)
  show ?case
  proof (cases "trim_start (b # bs) = []")
    case True
    then have "whitespace_len (b # bs) \<noteq> 0"
      by (auto simp: trim_start.simps [of "b # bs"] split: if_splits)
    with True show ?thesis
      by simp
  next
    case False
    with Cons show ?thesis
      by simp
  qed
qed simp

lemma utf8_trim: "utf8 s \<Longrightarrow> utf8 (trim s)"
proof -
  assume s: "utf8 s"
  obtain r where r: "trim_start s = trim s @ r" "r = [] \<or> whitespace_len r > 0"
    using trim_end_prefix [of "trim_start s"] by (auto simp: trim_def)
  have "\<not> cont (hd r)" if "r \<noteq> []"
    using that r(2) by (auto elim!: whitespace_cases simp: cont_def)
  then show "utf8 (trim s)"
    using utf8_split [of "trim s" r] utf8_trim_start [OF s] r by auto
qed

end
