(* ===== verification/Encoding.thy ===== *)
theory Encoding
  imports Text
begin

text \<open>
  The kinds of address segments, the errors of the address crate and the canonical percent-encoding
  of one segment value: \<open>src/crates/flotilla-address/src/kind.rs\<close>, \<open>lib.rs\<close> and \<open>encoding.rs\<close>.

  One value has one canonical spelling: the canonical decoder accepts exactly the encodings of
  UTF-8 values, and returns the value encoded.
\<close>

section \<open>Kinds and errors\<close>

datatype segment_kind =
  Kind_Project | Kind_Fleet | Kind_Host | Kind_Provider | Kind_Convoy | Kind_Vessel | Kind_Role
| Kind_Artifact | Kind_Message | Kind_Session | Kind_Forge | Kind_Repo | Kind_ChangeRequest
| Kind_Issue | Kind_Comment | Kind_Commit | Kind_Ref | Kind_Usage | Kind_Account

definition kind_all :: "segment_kind list" where
  "kind_all =
    [Kind_Host, Kind_Provider, Kind_Project, Kind_Fleet, Kind_Convoy, Kind_Vessel, Kind_Role,
     Kind_Artifact, Kind_Message, Kind_Session, Kind_Forge, Kind_Repo, Kind_ChangeRequest,
     Kind_Issue, Kind_Comment, Kind_Commit, Kind_Ref, Kind_Usage, Kind_Account]"

fun kind_str :: "segment_kind \<Rightarrow> string" where
  "kind_str Kind_Host = ''host''"
| "kind_str Kind_Provider = ''provider''"
| "kind_str Kind_Project = ''project''"
| "kind_str Kind_Fleet = ''fleet''"
| "kind_str Kind_Convoy = ''convoy''"
| "kind_str Kind_Vessel = ''vessel''"
| "kind_str Kind_Role = ''role''"
| "kind_str Kind_Artifact = ''artifact''"
| "kind_str Kind_Message = ''message''"
| "kind_str Kind_Session = ''session''"
| "kind_str Kind_Forge = ''forge''"
| "kind_str Kind_Repo = ''repo''"
| "kind_str Kind_ChangeRequest = ''cr''"
| "kind_str Kind_Issue = ''issue''"
| "kind_str Kind_Comment = ''comment''"
| "kind_str Kind_Commit = ''commit''"
| "kind_str Kind_Ref = ''ref''"
| "kind_str Kind_Usage = ''usage''"
| "kind_str Kind_Account = ''account''"

definition may_follow :: "segment_kind \<Rightarrow> segment_kind option \<Rightarrow> bool" where
  "may_follow k parent =
    (case k of
       Kind_Fleet \<Rightarrow> parent = None
     | Kind_Project \<Rightarrow> parent = None
     | Kind_Forge \<Rightarrow> parent = None
     | Kind_Usage \<Rightarrow> parent = None
     | Kind_Host \<Rightarrow> parent = None
     | Kind_Convoy \<Rightarrow> parent \<in> {None, Some Kind_Project}
     | Kind_Vessel \<Rightarrow> parent = Some Kind_Convoy
     | Kind_Role \<Rightarrow> parent \<in> {Some Kind_Fleet, Some Kind_Project, Some Kind_Convoy}
     | Kind_Artifact \<Rightarrow> parent = Some Kind_Role
     | Kind_Message \<Rightarrow> parent = Some Kind_Role
     | Kind_Session \<Rightarrow> parent = Some Kind_Role
     | Kind_Repo \<Rightarrow> parent = Some Kind_Forge
     | Kind_ChangeRequest \<Rightarrow> parent = Some Kind_Repo
     | Kind_Issue \<Rightarrow> parent = Some Kind_Repo
     | Kind_Comment \<Rightarrow> parent = Some Kind_Repo
     | Kind_Commit \<Rightarrow> parent = Some Kind_Repo
     | Kind_Ref \<Rightarrow> parent = Some Kind_Repo
     | Kind_Account \<Rightarrow> parent \<in> {None, Some Kind_Usage}
     | Kind_Provider \<Rightarrow> parent \<in> {Some Kind_Host, Some Kind_Account})"

datatype address_error =
  E_Empty
| E_MalformedSegment string
| E_UnknownKind string
| E_Shape segment_kind "segment_kind option"
| E_InvalidValue segment_kind string string
| E_InvalidEscape string
| E_NonCanonicalEncoding string
| E_OfNotAfterArtifact
| E_OfNotLast
| E_ArtifactWithoutSubject
| E_RepositoryNeedsForge
| E_UnresolvedForge string
| E_Unrecognised string
| E_MissingRevision string
| E_EmptyRevision
| E_UnknownOperator string
| E_InvalidVariable string
| E_NonCanonicalQuoting string
| E_Syntax string nat string

definition kind_from_str :: "string \<Rightarrow> address_error + segment_kind" where
  "kind_from_str token =
    (case find (\<lambda>k. kind_str k = token) kind_all of
       None \<Rightarrow> Inl (E_UnknownKind token)
     | Some k \<Rightarrow> Inr k)"

section \<open>Percent-encoding\<close>

definition is_unreserved :: "char \<Rightarrow> bool" where
  "is_unreserved b \<longleftrightarrow> is_ascii_alphanumeric b \<or> b \<in> {CHR ''-'', CHR ''.'', CHR ''_'', CHR ''~''}"

text \<open>One digit of \<open>{byte:02X}\<close>.\<close>

definition hex_digit :: "nat \<Rightarrow> char" where
  "hex_digit n = (if n < 10 then char_of (48 + n) else char_of (55 + n))"

fun encode_into :: "string \<Rightarrow> string \<Rightarrow> string" where
  "encode_into [] out = out"
| "encode_into (b # bs) out =
    encode_into bs
      (if is_unreserved b then out @ [b]
       else out @ [CHR ''%'', hex_digit (byte b div 16), hex_digit (byte b mod 16)])"

definition encode :: "string \<Rightarrow> string" where
  "encode value = encode_into value []"

definition hex_value :: "bool \<Rightarrow> char \<Rightarrow> nat option" where
  "hex_value uppercase_only b =
    (if 48 \<le> byte b \<and> byte b \<le> 57 then Some (byte b - 48)
     else if 65 \<le> byte b \<and> byte b \<le> 70 then Some (byte b - 65 + 10)
     else if 97 \<le> byte b \<and> byte b \<le> 102 \<and> \<not> uppercase_only then Some (byte b - 97 + 10)
     else None)"

text \<open>The two halves of \<open>d0 << 4 | d1\<close> share no bit, so the disjunction is a sum.\<close>

definition hex_pair :: "char \<Rightarrow> char \<Rightarrow> bool \<Rightarrow> char option" where
  "hex_pair d0 d1 uppercase_only =
    (case hex_value uppercase_only d0 of
       None \<Rightarrow> None
     | Some h \<Rightarrow> (case hex_value uppercase_only d1 of
         None \<Rightarrow> None
       | Some l \<Rightarrow> Some (char_of (16 * h + l))))"

text \<open>The loop of \<open>decode\<close> over the bytes from \<open>index\<close> on.\<close>

fun decode_from :: "string \<Rightarrow> bool \<Rightarrow> string \<Rightarrow> string \<Rightarrow> address_error + string" where
  "decode_from encoded canonical [] out = Inr out"
| "decode_from encoded canonical (b # bs) out =
    (if b = CHR ''%'' then
       (case bs of
          d0 # d1 # rest \<Rightarrow>
            (case hex_pair d0 d1 canonical of
               None \<Rightarrow>
                 Inl (if hex_pair d0 d1 False \<noteq> None then E_NonCanonicalEncoding encoded
                      else E_InvalidEscape encoded)
             | Some value \<Rightarrow>
                 if canonical \<and> is_unreserved value then Inl (E_NonCanonicalEncoding encoded)
                 else decode_from encoded canonical rest (out @ [value]))
        | _ \<Rightarrow> Inl (E_InvalidEscape encoded))
     else if canonical \<and> \<not> is_unreserved b then Inl (E_NonCanonicalEncoding encoded)
     else decode_from encoded canonical bs (out @ [b]))"

definition decode :: "string \<Rightarrow> bool \<Rightarrow> address_error + string" where
  "decode encoded canonical =
    (case decode_from encoded canonical encoded [] of
       Inl e \<Rightarrow> Inl e
     | Inr out \<Rightarrow> if utf8 out then Inr out else Inl (E_InvalidEscape encoded))"

definition decode_canonical :: "string \<Rightarrow> address_error + string" where
  "decode_canonical encoded = decode encoded True"

definition decode_lenient :: "string \<Rightarrow> address_error + string" where
  "decode_lenient encoded = decode encoded False"

section \<open>Lemmas\<close>

lemma kind_all_complete [simp]: "k \<in> set kind_all"
  by (cases k) (simp_all add: kind_all_def)

lemma kind_from_kind_str [simp]: "kind_from_str (kind_str k) = Inr k"
  by (cases k) (simp_all add: kind_from_str_def kind_all_def)

lemma kind_from_str_iff: "kind_from_str token = Inr k \<longleftrightarrow> token = kind_str k"
proof
  assume "kind_from_str token = Inr k"
  then have "find (\<lambda>k. kind_str k = token) kind_all = Some k"
    by (simp add: kind_from_str_def split: option.splits)
  then show "token = kind_str k"
    unfolding find_Some_iff by blast
qed simp

lemma kind_str_plain: "c \<in> set (kind_str k) \<Longrightarrow> is_ascii_lowercase c"
  by (cases k) (auto simp: is_ascii_lowercase_def byte_def)

lemma kind_str_not_of: "kind_str k \<noteq> ''of''"
  by (cases k) simp_all

text \<open>The encoding, byte by byte.\<close>

definition encode_byte :: "char \<Rightarrow> string" where
  "encode_byte b =
    (if is_unreserved b then [b]
     else [CHR ''%'', hex_digit (byte b div 16), hex_digit (byte b mod 16)])"

lemma encode_into_eq: "encode_into val out = out @ concat (map encode_byte val)"
  by (induction val arbitrary: out) (auto simp: encode_byte_def)

lemma encode_eq: "encode val = concat (map encode_byte val)"
  by (simp add: encode_def encode_into_eq)

lemma encode_into_encode: "encode_into val out = out @ encode val"
  by (simp add: encode_into_eq encode_eq)

lemma hex_value_digit [simp]: "n < 16 \<Longrightarrow> hex_value u (hex_digit n) = Some n"
  by (auto simp: hex_value_def hex_digit_def byte_char_of)

lemma hex_value_upper: "hex_value True c = Some n \<longleftrightarrow> n < 16 \<and> c = hex_digit n"
proof -
  have "c = hex_digit n \<longleftrightarrow> byte c = (if n < 10 then 48 + n else 55 + n)" if "n < 16"
    using that by (auto simp: hex_digit_def byte_char_of simp flip: byte_inj)
  then show ?thesis
    by (auto simp: hex_value_def split: if_splits)
qed

lemma hex_pair_upper:
  "hex_pair d0 d1 True = Some v \<longleftrightarrow> d0 = hex_digit (byte v div 16) \<and> d1 = hex_digit (byte v mod 16)"
proof
  assume "hex_pair d0 d1 True = Some v"
  then obtain h l where "hex_value True d0 = Some h" "hex_value True d1 = Some l" "v = char_of (16 * h + l)"
    by (auto simp: hex_pair_def split: option.splits)
  then show "d0 = hex_digit (byte v div 16) \<and> d1 = hex_digit (byte v mod 16)"
    by (simp add: hex_value_upper byte_char_of)
next
  have "byte v div 16 < 16" "byte v mod 16 < 16"
    using byte_less [of v] by auto
  moreover assume "d0 = hex_digit (byte v div 16) \<and> d1 = hex_digit (byte v mod 16)"
  ultimately show "hex_pair d0 d1 True = Some v"
    by (simp add: hex_pair_def)
qed

lemma percent_reserved [simp]: "\<not> is_unreserved (CHR ''%'')"
  by (simp add: is_unreserved_def is_ascii_alphanumeric_def is_ascii_digit_def is_ascii_lowercase_def
      is_ascii_uppercase_def byte_def)

lemma decode_encode_byte:
  "decode_from e True (encode_byte b @ rest) out = decode_from e True rest (out @ [b])"
proof -
  have "hex_pair (hex_digit (byte b div 16)) (hex_digit (byte b mod 16)) True = Some b"
    by (simp add: hex_pair_upper)
  then show ?thesis
    by (auto simp: encode_byte_def)
qed

lemma decode_from_encode: "decode_from e True (encode val @ rest) out = decode_from e True rest (out @ val)"
  by (induction val arbitrary: out) (simp_all add: encode_eq decode_encode_byte)

lemma decode_from_canonical:
  "decode_from e True s out = Inr v \<Longrightarrow> \<exists>val. v = out @ val \<and> s = encode val"
proof (induction e True s out rule: decode_from.induct)
  case (1 e out)
  then show ?case
    by (simp add: encode_eq)
next
  case (2 e b bs out)
  show ?case
  proof (cases "b = CHR ''%''")
    case True
    then obtain d0 d1 rest val where bs: "bs = d0 # d1 # rest"
      and val: "hex_pair d0 d1 True = Some val" "\<not> is_unreserved val"
      and rec: "decode_from e True rest (out @ [val]) = Inr v"
      using 2(3) by (auto split: list.splits option.splits if_splits)
    obtain more where "v = (out @ [val]) @ more" "rest = encode more"
      using 2(1) [OF True bs _ val(1)] val(2) rec by auto
    moreover have "encode_byte val = b # d0 # [d1]"
      using True val by (simp add: encode_byte_def hex_pair_upper)
    ultimately show ?thesis
      by (intro exI [of _ "val # more"]) (simp add: bs encode_eq)
  next
    case False
    then have "is_unreserved b" "decode_from e True bs (out @ [b]) = Inr v"
      using 2(3) by (auto split: if_splits)
    moreover from this obtain more where "v = (out @ [b]) @ more" "bs = encode more"
      using 2(2) [OF False] by auto
    ultimately show ?thesis
      by (intro exI [of _ "b # more"]) (simp add: encode_eq encode_byte_def)
  qed
qed

lemma decode_canonical_iff: "decode_canonical s = Inr val \<longleftrightarrow> utf8 val \<and> s = encode val"
proof
  assume "decode_canonical s = Inr val"
  then have "utf8 val" "decode_from s True s [] = Inr val"
    by (auto simp: decode_canonical_def decode_def split: sum.splits if_splits)
  then show "utf8 val \<and> s = encode val"
    using decode_from_canonical [of s s "[]" val] by auto
next
  assume "utf8 val \<and> s = encode val"
  then show "decode_canonical s = Inr val"
    using decode_from_encode [of s val "[]" "[]"] by (simp add: decode_canonical_def decode_def)
qed

lemma encode_inj: "encode v = encode w \<longleftrightarrow> v = w"
proof -
  have "decode_from [] True (encode x) [] = Inr x" for x
    using decode_from_encode [of "[]" x "[]" "[]"] by simp
  then show ?thesis
    by (metis sum.inject(2))
qed

lemma hex_digit_unreserved: "n < 16 \<Longrightarrow> is_unreserved (hex_digit n)"
  by (auto simp: is_unreserved_def is_ascii_alphanumeric_def is_ascii_digit_def is_ascii_uppercase_def
      hex_digit_def byte_char_of)

lemma encode_plain: "c \<in> set (encode val) \<Longrightarrow> is_unreserved c \<or> c = CHR ''%''"
proof -
  have "byte b div 16 < 16" for b
    using byte_less [of b] by (simp add: less_mult_imp_div_less)
  then show "c \<in> set (encode val) \<Longrightarrow> is_unreserved c \<or> c = CHR ''%''"
    by (auto simp: encode_eq encode_byte_def hex_digit_unreserved split: if_splits)
qed

lemma encode_no_separator:
  "CHR ''/'' \<notin> set (encode val)" "CHR '':'' \<notin> set (encode val)" "CHR ''@'' \<notin> set (encode val)"
  using encode_plain [of _ val]
  by (force simp: is_unreserved_def is_ascii_alphanumeric_def is_ascii_digit_def is_ascii_lowercase_def
      is_ascii_uppercase_def byte_def)+

lemma kind_str_no_separator:
  "CHR ''/'' \<notin> set (kind_str k)" "CHR '':'' \<notin> set (kind_str k)" "CHR ''@'' \<notin> set (kind_str k)"
  by (cases k; simp)+

end
