(* ===== verification/Address.thy ===== *)
theory Address
  imports Encoding "HOL-Library.Sublist"
begin

text \<open>
  Addresses, \<open>src/crates/flotilla-address/src/address.rs\<close>, with the forges of \<open>forge.rs\<close> they name
  and the references of \<open>reference.rs\<close>.

  An address keeps its canonical text beside its segments. The lemmas tie the two: the text of an
  address that the constructors build is the join of its encoded segments, so the strict parser
  returns exactly the built addresses, each from its own text, and the prefix of a text on segment
  boundaries is the prefix of its segments.

  \<open>low\<close> is \<open>str::to_lowercase\<close>; no property needs anything of it.
\<close>

section \<open>Forges\<close>

type_synonym casing = "string \<Rightarrow> string"

definition GITHUB_FORGE_ID :: string where
  "GITHUB_FORGE_ID = ''github''"

definition GITHUB_HOSTS :: "string list" where
  "GITHUB_HOSTS = [''github.com'', ''www.github.com'', ''ssh.github.com'']"

datatype forge_kind = Github | Forgejo

definition normalise_repository :: "casing \<Rightarrow> forge_kind \<Rightarrow> string \<Rightarrow> string" where
  "normalise_repository low kind repository =
    (case kind of Github \<Rightarrow> low repository | Forgejo \<Rightarrow> low repository)"

definition is_normal_repository :: "casing \<Rightarrow> forge_kind \<Rightarrow> string \<Rightarrow> bool" where
  "is_normal_repository low kind repository \<longleftrightarrow> normalise_repository low kind repository = repository"

record forge =
  fg_id :: string
  fg_kind :: forge_kind

definition validate_forge_id :: "string \<Rightarrow> address_error + unit" where
  "validate_forge_id i =
    (if i \<noteq> [] \<and> length i \<le> 63 \<and> is_ascii_alphanumeric (hd i) \<and> is_ascii_alphanumeric (last i)
        \<and> list_all (\<lambda>b. is_ascii_lowercase b \<or> is_ascii_digit b \<or> b = CHR ''-'') i
     then Inr ()
     else Inl (E_InvalidValue Kind_Forge i ''a forge id is a lowercase DNS label''))"

definition forge_new :: "string \<Rightarrow> forge_kind \<Rightarrow> address_error + forge" where
  "forge_new i kind =
    (case validate_forge_id i of
       Inl e \<Rightarrow> Inl e
     | Inr _ \<Rightarrow>
         if i = GITHUB_FORGE_ID \<and> kind \<noteq> Github
         then Inl (E_InvalidValue Kind_Forge i ''the `github` forge id is public GitHub'')
         else Inr \<lparr>fg_id = i, fg_kind = kind\<rparr>)"

definition forge_github :: forge where
  "forge_github = \<lparr>fg_id = GITHUB_FORGE_ID, fg_kind = Github\<rparr>"

record forge_lookup =
  fl_by_id :: "string \<Rightarrow> forge option"
  fl_by_host :: "string \<Rightarrow> forge option"

definition builtin_forges :: forge_lookup where
  "builtin_forges = \<lparr>fl_by_id = (\<lambda>_. None), fl_by_host = (\<lambda>_. None)\<rparr>"

definition forge_by_id :: "forge_lookup \<Rightarrow> string \<Rightarrow> forge option" where
  "forge_by_id lookup i = (if i = GITHUB_FORGE_ID then Some forge_github else fl_by_id lookup i)"

definition forge_by_host :: "forge_lookup \<Rightarrow> string \<Rightarrow> forge option" where
  "forge_by_host lookup given =
    (let host = to_ascii_lowercase given
     in case fl_by_host lookup host of
          Some f \<Rightarrow> Some f
        | None \<Rightarrow> if host \<in> set GITHUB_HOSTS then Some forge_github else None)"

section \<open>Addresses\<close>

definition OF :: string where
  "OF = ''of''"

record segment =
  sg_kind :: segment_kind
  sg_value :: string

record address =
  ad_segments :: "segment list"
  ad_of :: "string option"
  ad_text :: string

definition normalise_usage :: "casing \<Rightarrow> string \<Rightarrow> string" where
  "normalise_usage low val = low (trim val)"

definition validate_value :: "casing \<Rightarrow> segment_kind \<Rightarrow> string \<Rightarrow> address_error + unit" where
  "validate_value low kind val =
    (if val = [] then Inl (E_InvalidValue kind val ''a segment value is non-empty'')
     else case kind of
       Kind_Forge \<Rightarrow> validate_forge_id val
     | Kind_Usage \<Rightarrow>
         if normalise_usage low val \<noteq> val
         then Inl (E_InvalidValue kind val ''usage providers and accounts are trimmed and lowercase'')
         else Inr ()
     | _ \<Rightarrow>
         if kind \<in> {Kind_ChangeRequest, Kind_Issue} then
           (let canonical = list_all is_ascii_digit val \<and> (val = ''0'' \<or> \<not> starts_with (CHR ''0'') val)
            in if canonical \<and> parse_u64 val \<noteq> None then Inr ()
               else Inl (E_InvalidValue kind val ''a number is decimal digits with no sign or leading zero''))
         else if kind = Kind_Commit then
           (let hex = list_all (\<lambda>b. is_ascii_digit b \<or> (97 \<le> byte b \<and> byte b \<le> 102)) val
            in if hex \<and> (length val = 40 \<or> length val = 64) then Inr ()
               else Inl (E_InvalidValue kind val ''a commit is a full lowercase SHA''))
         else Inr ())"

definition validate_repository :: "forge_kind \<Rightarrow> string \<Rightarrow> address_error + unit" where
  "validate_repository kind repository =
    (let invalid = Inl (E_InvalidValue Kind_Repo repository ''a repository is owner/repo'')
     in case split_once (CHR ''/'') repository of
          None \<Rightarrow> invalid
        | Some (owner, name) \<Rightarrow>
            if owner \<noteq> [] \<and> name \<noteq> [] \<and> CHR ''/'' \<notin> set name then Inr () else invalid)"

definition address_empty :: address where
  "address_empty = \<lparr>ad_segments = [], ad_of = None, ad_text = []\<rparr>"

definition last_kind :: "address \<Rightarrow> segment_kind option" where
  "last_kind a = (if ad_segments a = [] then None else Some (sg_kind (last (ad_segments a))))"

definition address_push :: "casing \<Rightarrow> address \<Rightarrow> segment_kind \<Rightarrow> string \<Rightarrow> address_error + address" where
  "address_push low a kind val =
    (if ad_of a \<noteq> None then Inl E_OfNotLast
     else if \<not> may_follow kind (last_kind a) then Inl (E_Shape kind (last_kind a))
     else if kind = Kind_Account \<and> last_kind a = Some Kind_Usage \<and> normalise_usage low val \<noteq> val
       then Inl (E_InvalidValue kind val ''usage accounts are trimmed and lowercase'')
     else case validate_value low kind val of
       Inl e \<Rightarrow> Inl e
     | Inr _ \<Rightarrow>
         (let pushed = a\<lparr>ad_text := encode_into val
                 ((if ad_text a \<noteq> [] then ad_text a @ ''/'' else ad_text a) @ kind_str kind @ '':''),
               ad_segments := ad_segments a @ [\<lparr>sg_kind = kind, sg_value = val\<rparr>]\<rparr>
          in if kind = Kind_Repo \<and> sg_value (hd (ad_segments a)) = GITHUB_FORGE_ID
             then (case validate_repository Github val of
                 Inl e \<Rightarrow> Inl e
               | Inr _ \<Rightarrow>
                   if \<not> is_normal_repository low Github val
                   then Inl (E_InvalidValue kind val ''a GitHub repository is lowercase'')
                   else Inr pushed)
             else Inr pushed))"

definition address_child :: "casing \<Rightarrow> address \<Rightarrow> segment_kind \<Rightarrow> string \<Rightarrow> address_error + address" where
  "address_child low a kind val =
    (if kind = Kind_Repo then Inl E_RepositoryNeedsForge else address_push low a kind val)"

definition address_root :: "casing \<Rightarrow> segment_kind \<Rightarrow> string \<Rightarrow> address_error + address" where
  "address_root low kind val = address_child low address_empty kind val"

definition address_project :: "casing \<Rightarrow> string \<Rightarrow> address_error + address" where
  "address_project low name = address_root low Kind_Project name"

definition address_fleet :: "casing \<Rightarrow> string \<Rightarrow> address_error + address" where
  "address_fleet low name = address_root low Kind_Fleet name"

definition address_convoy :: "casing \<Rightarrow> string \<Rightarrow> address_error + address" where
  "address_convoy low name = address_root low Kind_Convoy name"

text \<open>The source unwraps: \<open>address_forge_valid\<close> below shows that a forge's id is never refused.\<close>

definition address_forge :: "casing \<Rightarrow> forge \<Rightarrow> address_error + address" where
  "address_forge low f = address_root low Kind_Forge (fg_id f)"

definition address_repository :: "casing \<Rightarrow> forge \<Rightarrow> string \<Rightarrow> address_error + address" where
  "address_repository low f repository =
    (case validate_repository (fg_kind f) repository of
       Inl e \<Rightarrow> Inl e
     | Inr _ \<Rightarrow> (case address_forge low f of
         Inl e \<Rightarrow> Inl e
       | Inr a \<Rightarrow> address_push low a Kind_Repo (normalise_repository low (fg_kind f) repository)))"

definition address_change_request :: "casing \<Rightarrow> forge \<Rightarrow> string \<Rightarrow> nat \<Rightarrow> address_error + address" where
  "address_change_request low f repository number =
    (case address_repository low f repository of
       Inl e \<Rightarrow> Inl e
     | Inr a \<Rightarrow> address_child low a Kind_ChangeRequest (print_nat number))"

definition address_issue :: "casing \<Rightarrow> forge \<Rightarrow> string \<Rightarrow> nat \<Rightarrow> address_error + address" where
  "address_issue low f repository number =
    (case address_repository low f repository of
       Inl e \<Rightarrow> Inl e
     | Inr a \<Rightarrow> address_child low a Kind_Issue (print_nat number))"

definition address_usage :: "casing \<Rightarrow> string \<Rightarrow> string \<Rightarrow> address_error + address" where
  "address_usage low provider account =
    (case address_root low Kind_Usage (normalise_usage low provider) of
       Inl e \<Rightarrow> Inl e
     | Inr a \<Rightarrow> address_child low a Kind_Account (normalise_usage low account))"

definition address_message :: "casing \<Rightarrow> address \<Rightarrow> string \<Rightarrow> address_error + address" where
  "address_message low inbox i = address_child low inbox Kind_Message i"

definition address_artifact :: "casing \<Rightarrow> address \<Rightarrow> string \<Rightarrow> string \<Rightarrow> address_error + address" where
  "address_artifact low a kind subject =
    (case address_child low a Kind_Artifact kind of
       Inl e \<Rightarrow> Inl e
     | Inr b \<Rightarrow> (case validate_value low Kind_Artifact subject of
         Inl e \<Rightarrow> Inl e
       | Inr _ \<Rightarrow>
           Inr (b\<lparr>ad_text := encode_into subject (ad_text b @ ''/'' @ OF @ '':''), ad_of := Some subject\<rparr>)))"

definition address_finish :: "address \<Rightarrow> address_error + address" where
  "address_finish a =
    (case last_kind a of
       None \<Rightarrow> Inl E_Empty
     | Some kind \<Rightarrow>
         if kind = Kind_Artifact \<and> ad_of a = None then Inl E_ArtifactWithoutSubject else Inr a)"

definition address_kind :: "address \<Rightarrow> segment_kind" where
  "address_kind a = sg_kind (last (ad_segments a))"

definition address_name :: "address \<Rightarrow> string" where
  "address_name a = sg_value (last (ad_segments a))"

definition address_get :: "address \<Rightarrow> segment_kind \<Rightarrow> string option" where
  "address_get a kind = map_option sg_value (find (\<lambda>s. sg_kind s = kind) (ad_segments a))"

definition address_number :: "address \<Rightarrow> nat option" where
  "address_number a =
    (if address_kind a \<in> {Kind_ChangeRequest, Kind_Issue} then parse_u64 (address_name a) else None)"

definition address_parent :: "address \<Rightarrow> address option" where
  "address_parent a =
    (let count = length (ad_segments a) - 1
     in if count = 0 then None
        else (case (if ad_of a = None then Some (ad_text a)
                    else map_option fst (rsplit_once (CHR ''/'') (ad_text a))) of
            None \<Rightarrow> None
          | Some text \<Rightarrow> (case rsplit_once (CHR ''/'') text of
              None \<Rightarrow> None
            | Some (head, _) \<Rightarrow>
                Some \<lparr>ad_segments = take count (ad_segments a), ad_of = None, ad_text = head\<rparr>)))"

definition is_under :: "address \<Rightarrow> address \<Rightarrow> bool" where
  "is_under a base =
    (case strip_prefix (ad_text base) (ad_text a) of
       None \<Rightarrow> False
     | Some rest \<Rightarrow> rest = [] \<or> starts_with (CHR ''/'') rest)"

definition descendant_bounds :: "address \<Rightarrow> string \<times> string" where
  "descendant_bounds a = (ad_text a @ ''/'', ad_text a @ ''0'')"

section \<open>Parsing\<close>

text \<open>One turn of the loop of \<open>from_str\<close>.\<close>

definition from_str_segment :: "casing \<Rightarrow> string \<Rightarrow> address \<Rightarrow> address_error + address" where
  "from_str_segment low raw a =
    (if ad_of a \<noteq> None then Inl E_OfNotLast
     else case split_once (CHR '':'') raw of
       None \<Rightarrow> Inl (E_MalformedSegment raw)
     | Some (token, encoded) \<Rightarrow> (case decode_canonical encoded of
         Inl e \<Rightarrow> Inl e
       | Inr val \<Rightarrow>
           if token = OF then
             (if last_kind a \<noteq> Some Kind_Artifact then Inl E_OfNotAfterArtifact
              else case validate_value low Kind_Artifact val of
                Inl e \<Rightarrow> Inl e
              | Inr _ \<Rightarrow> Inr (a\<lparr>ad_text := ad_text a @ ''/'' @ raw, ad_of := Some val\<rparr>))
           else (case kind_from_str token of
             Inl e \<Rightarrow> Inl e
           | Inr kind \<Rightarrow> address_push low a kind val)))"

definition address_from_str :: "casing \<Rightarrow> string \<Rightarrow> address_error + address" where
  "address_from_str low text =
    (case try_fold (from_str_segment low) (split (CHR ''/'') text) address_empty of
       Inl e \<Rightarrow> Inl e
     | Inr a \<Rightarrow> address_finish a)"

section \<open>References\<close>

definition revision_new :: "string \<Rightarrow> address_error + string" where
  "revision_new revision = (if revision = [] then Inl E_EmptyRevision else Inr revision)"

record reference =
  rf_address :: address
  rf_revision :: string

definition reference_print :: "reference \<Rightarrow> string" where
  "reference_print r = ad_text (rf_address r) @ ''@'' @ encode (rf_revision r)"

definition reference_from_str :: "casing \<Rightarrow> string \<Rightarrow> address_error + reference" where
  "reference_from_str low text =
    (case split_once (CHR ''@'') text of
       None \<Rightarrow> Inl (E_MissingRevision text)
     | Some (address, revision) \<Rightarrow> (case address_from_str low address of
         Inl e \<Rightarrow> Inl e
       | Inr a \<Rightarrow> (case decode_canonical revision of
           Inl e \<Rightarrow> Inl e
         | Inr decoded \<Rightarrow> (case revision_new decoded of
             Inl e \<Rightarrow> Inl e
           | Inr r \<Rightarrow> Inr \<lparr>rf_address = a, rf_revision = r\<rparr>))))"

section \<open>Well-formed addresses\<close>

text \<open>
  What a segment must satisfy after the segments before it, the pieces of the canonical text, and
  the addresses whose segments, subject and text agree.
\<close>

definition segment_ok :: "casing \<Rightarrow> segment list \<Rightarrow> segment \<Rightarrow> bool" where
  "segment_ok low before s \<longleftrightarrow>
    (let parent = (if before = [] then None else Some (sg_kind (last before)))
     in may_follow (sg_kind s) parent
        \<and> (sg_kind s = Kind_Account \<and> parent = Some Kind_Usage \<longrightarrow> normalise_usage low (sg_value s) = sg_value s)
        \<and> validate_value low (sg_kind s) (sg_value s) = Inr ()
        \<and> (sg_kind s = Kind_Repo \<and> sg_value (hd before) = GITHUB_FORGE_ID \<longrightarrow>
            validate_repository Github (sg_value s) = Inr () \<and> is_normal_repository low Github (sg_value s)))"

fun segments_ok :: "casing \<Rightarrow> segment list \<Rightarrow> segment list \<Rightarrow> bool" where
  "segments_ok low before [] = True"
| "segments_ok low before (s # ss) =
    (utf8 (sg_value s) \<and> segment_ok low before s \<and> segments_ok low (before @ [s]) ss)"

definition piece :: "segment \<Rightarrow> string" where
  "piece s = kind_str (sg_kind s) @ '':'' @ encode (sg_value s)"

definition of_piece :: "string \<Rightarrow> string" where
  "of_piece subject = OF @ '':'' @ encode subject"

definition pieces :: "address \<Rightarrow> string list" where
  "pieces a = map piece (ad_segments a) @ (case ad_of a of None \<Rightarrow> [] | Some s \<Rightarrow> [of_piece s])"

definition address_wf :: "casing \<Rightarrow> address \<Rightarrow> bool" where
  "address_wf low a \<longleftrightarrow>
    segments_ok low [] (ad_segments a) \<and> ad_text a = join ''/'' (pieces a)
    \<and> (case ad_of a of
         None \<Rightarrow> True
       | Some s \<Rightarrow> last_kind a = Some Kind_Artifact \<and> s \<noteq> [] \<and> utf8 s)"

definition address_complete :: "address \<Rightarrow> bool" where
  "address_complete a \<longleftrightarrow>
    ad_segments a \<noteq> [] \<and> (last_kind a = Some Kind_Artifact \<longrightarrow> ad_of a \<noteq> None)"

section \<open>Lemmas\<close>

lemma segments_ok_snoc:
  "segments_ok low before (ss @ [s]) \<longleftrightarrow>
    segments_ok low before ss \<and> utf8 (sg_value s) \<and> segment_ok low (before @ ss) s"
  by (induction ss arbitrary: before) auto

lemma segments_ok_take: "segments_ok low before ss \<Longrightarrow> segments_ok low before (take n ss)"
  by (induction ss arbitrary: before n) (auto simp: take_Cons split: nat.splits)

lemma artifact_value [simp]: "validate_value low Kind_Artifact s = Inr () \<longleftrightarrow> s \<noteq> []"
  by (simp add: validate_value_def)

lemma artifact_value_ok [simp]: "s \<noteq> [] \<Longrightarrow> validate_value low Kind_Artifact s = Inr ()"
  by simp

lemma split_piece: "split_once (CHR '':'') (piece s) = Some (kind_str (sg_kind s), encode (sg_value s))"
  by (simp add: split_once_iff piece_def kind_str_no_separator)

lemma split_of_piece: "split_once (CHR '':'') (of_piece t) = Some (OF, encode t)"
  by (simp add: split_once_iff of_piece_def OF_def)

lemma piece_inj: "piece s = piece t \<longleftrightarrow> s = t"
proof
  assume "piece s = piece t"
  then have "split_once (CHR '':'') (piece s) = split_once (CHR '':'') (piece t)"
    by simp
  then have "kind_str (sg_kind s) = kind_str (sg_kind t)" "sg_value s = sg_value t"
    by (simp_all add: split_piece encode_inj)
  then show "s = t"
    by (metis kind_from_kind_str segment.equality old.unit.exhaust sum.inject(2))
qed simp

lemma of_piece_inj: "of_piece s = of_piece t \<longleftrightarrow> s = t"
  by (simp add: of_piece_def encode_inj)

lemma piece_not_of: "piece s \<noteq> of_piece t"
proof
  assume "piece s = of_piece t"
  then have "kind_str (sg_kind s) = OF"
    using split_piece [of s] split_of_piece [of t] by simp
  then show False
    by (simp add: OF_def kind_str_not_of)
qed

lemma of_piece_notin: "of_piece t \<notin> piece ` S"
  using piece_not_of by (metis imageE)

lemma map_piece_inj: "map piece ss = map piece ts \<longleftrightarrow> ss = ts"
  using inj_map_eq_map [of piece] by (simp add: inj_def piece_inj)

lemma piece_no_slash: "p \<in> set (pieces a) \<Longrightarrow> CHR ''/'' \<notin> set p"
  by (auto simp: pieces_def piece_def of_piece_def OF_def kind_str_no_separator encode_no_separator
      split: option.splits)

lemma piece_ne: "p \<in> set (pieces a) \<Longrightarrow> p \<noteq> []"
  by (auto simp: pieces_def piece_def of_piece_def split: option.splits)

lemma pieces_eqD:
  assumes "pieces a = pieces b"
  shows "ad_segments a = ad_segments b \<and> ad_of a = ad_of b"
proof -
  have last: "map piece ss @ [of_piece t] \<noteq> map piece us" for ss t us
  proof
    assume eq: "map piece ss @ [of_piece t] = map piece us"
    have "of_piece t \<in> set (map piece us)"
      unfolding eq [symmetric] by simp
    then show False
      using of_piece_notin [of t "set us"] by simp
  qed
  show ?thesis
    using assms last [of "ad_segments a"] last [of "ad_segments b"]
    by (cases "ad_of a"; cases "ad_of b") (auto simp: pieces_def map_piece_inj of_piece_inj eq_commute)
qed

lemma pieces_inj:
  assumes "address_wf low a" "address_wf low b" "pieces a = pieces b"
  shows "a = b"
  using pieces_eqD [OF assms(3)] assms by (intro address.equality) (auto simp: address_wf_def)

text \<open>A push extends the segments and the text by one piece, exactly when the segment is admissible.\<close>

definition extended :: "address \<Rightarrow> segment \<Rightarrow> address" where
  "extended a s = a\<lparr>ad_segments := ad_segments a @ [s], ad_text := join ''/'' (pieces a @ [piece s])\<rparr>"

lemma address_text_empty: "address_wf low a \<Longrightarrow> ad_text a = [] \<longleftrightarrow> ad_segments a = []"
  by (cases "ad_segments a") (auto simp: address_wf_def pieces_def piece_def last_kind_def
      split: option.splits dest: join_Nil)

lemma address_push_iff:
  assumes "address_wf low a"
  shows "address_push low a k v = Inr b \<longleftrightarrow>
    ad_of a = None \<and> segment_ok low (ad_segments a) \<lparr>sg_kind = k, sg_value = v\<rparr>
    \<and> b = extended a \<lparr>sg_kind = k, sg_value = v\<rparr>"
proof -
  have "ad_of a = None \<Longrightarrow> pieces a = [] \<longleftrightarrow> ad_text a = []"
    using address_text_empty [OF assms] by (simp add: pieces_def)
  moreover have "ad_text a = join ''/'' (pieces a)"
    using assms by (simp add: address_wf_def)
  ultimately have pushed: "ad_of a = None \<Longrightarrow>
      a\<lparr>ad_text := encode_into v ((if ad_text a \<noteq> [] then ad_text a @ ''/'' else ad_text a) @ kind_str k @ '':''),
        ad_segments := ad_segments a @ [\<lparr>sg_kind = k, sg_value = v\<rparr>]\<rparr> = extended a \<lparr>sg_kind = k, sg_value = v\<rparr>"
    by (auto simp: extended_def encode_into_encode join_snoc piece_def)
  show ?thesis
  proof (cases "ad_of a")
    case None
    show ?thesis
      unfolding address_push_def pushed [OF None] Let_def segment_ok_def last_kind_def [symmetric]
      by (cases "validate_value low k v"; cases "validate_repository Github v") (auto simp: None)
  qed (simp add: address_push_def)
qed

lemma address_wf_extended:
  assumes "address_wf low a" "ad_of a = None" "segment_ok low (ad_segments a) s" "utf8 (sg_value s)"
  shows "address_wf low (extended a s)" "pieces (extended a s) = pieces a @ [piece s]"
  using assms by (auto simp: address_wf_def extended_def pieces_def segments_ok_snoc)

lemma address_wf_empty [simp]: "address_wf low address_empty"
  by (simp add: address_wf_def address_empty_def pieces_def)

lemma subject_wf:
  assumes "address_wf low a" "ad_of a = None" "last_kind a = Some Kind_Artifact" "s \<noteq> []" "utf8 s"
    and "b = a\<lparr>ad_text := ad_text a @ ''/'' @ of_piece s, ad_of := Some s\<rparr>"
  shows "address_wf low b \<and> pieces b = pieces a @ [of_piece s]"
proof -
  have "pieces b = pieces a @ [of_piece s]" "pieces a \<noteq> []"
    using assms by (auto simp: pieces_def last_kind_def split: if_splits)
  then show ?thesis
    using assms by (auto simp: address_wf_def last_kind_def join_snoc)
qed

lemma from_str_segment_sound:
  assumes wf: "address_wf low a" and seg: "from_str_segment low raw a = Inr b"
  shows "address_wf low b \<and> pieces b = pieces a @ [raw]"
proof -
  obtain token v where raw: "raw = token @ CHR '':'' # encode v" "CHR '':'' \<notin> set token"
    and v: "utf8 v" and none: "ad_of a = None"
    and rest: "if token = OF then last_kind a = Some Kind_Artifact \<and> v \<noteq> []
          \<and> b = a\<lparr>ad_text := ad_text a @ ''/'' @ raw, ad_of := Some v\<rparr>
        else \<exists>k. kind_from_str token = Inr k \<and> address_push low a k v = Inr b"
    using seg by (auto simp: from_str_segment_def split_once_iff decode_canonical_iff
        split: if_splits option.splits sum.splits prod.splits)
  show ?thesis
  proof (cases "token = OF")
    case True
    then have "raw = of_piece v"
      by (simp add: raw of_piece_def)
    with True rest none v wf show ?thesis
      using subject_wf by simp
  next
    case False
    with rest obtain k where k: "token = kind_str k" "address_push low a k v = Inr b"
      by (auto simp: kind_from_str_iff)
    then have "b = extended a \<lparr>sg_kind = k, sg_value = v\<rparr>" "segment_ok low (ad_segments a) \<lparr>sg_kind = k, sg_value = v\<rparr>"
      using address_push_iff [OF wf] by auto
    moreover have "raw = piece \<lparr>sg_kind = k, sg_value = v\<rparr>"
      by (simp add: raw k piece_def)
    ultimately show ?thesis
      using address_wf_extended [OF wf none] v by simp
  qed
qed

lemma from_str_segment_complete:
  assumes wf: "address_wf low a" "address_wf low b" and pieces: "pieces b = pieces a @ [raw]"
  shows "from_str_segment low raw a = Inr b"
proof (cases "ad_of b")
  case None
  then obtain ss s where b: "ad_segments b = ss @ [s]"
    using pieces by (cases "ad_segments b" rule: rev_cases) (auto simp: pieces_def)
  define c where "c = b\<lparr>ad_segments := ss, ad_text := join ''/'' (map piece ss)\<rparr>"
  have raw: "raw = piece s" and "pieces a = pieces c"
    using pieces None by (auto simp: b c_def pieces_def)
  then have a: "ad_segments a = ss" "ad_of a = None"
    using pieces_eqD [of a c] None by (auto simp: c_def)
  have ok: "segment_ok low ss s" "utf8 (sg_value s)"
    using wf(2) by (simp_all add: address_wf_def b segments_ok_snoc)
  have "address_push low a (sg_kind s) (sg_value s) = Inr (extended a s)"
    using ok a by (subst address_push_iff [OF wf(1)]) (cases s, simp)
  moreover have "extended a s = b"
    using address_wf_extended [OF wf(1) a(2), of s] ok a wf(2) pieces raw by (intro pieces_inj) auto
  ultimately show ?thesis
    using ok a by (simp add: from_str_segment_def raw split_piece decode_canonical_iff [THEN iffD2] OF_def kind_str_not_of)
next
  case (Some t)
  define c where "c = b\<lparr>ad_of := None, ad_text := join ''/'' (map piece (ad_segments b))\<rparr>"
  have raw: "raw = of_piece t" and "pieces a = pieces c"
    using pieces Some by (auto simp: c_def pieces_def)
  then have a: "ad_segments a = ad_segments b" "ad_of a = None"
    using pieces_eqD [of a c] by (auto simp: c_def)
  have t: "last_kind a = Some Kind_Artifact" "t \<noteq> []" "utf8 t"
    using wf(2) Some a by (auto simp: address_wf_def last_kind_def)
  have "a\<lparr>ad_text := ad_text a @ ''/'' @ raw, ad_of := Some t\<rparr> = b"
    using subject_wf [OF wf(1) a(2) t] wf(2) pieces raw by (intro pieces_inj) auto
  then show ?thesis
    using t a by (simp add: from_str_segment_def raw split_of_piece decode_canonical_iff [THEN iffD2])
qed

lemma truncated_wf:
  assumes "address_wf low b" "pieces b = ps @ qs" "qs \<noteq> []"
  shows "\<exists>a. address_wf low a \<and> pieces a = ps"
proof -
  define a where "a = \<lparr>ad_segments = take (length ps) (ad_segments b), ad_of = None, ad_text = join ''/'' ps\<rparr>"
  have "length ps \<le> length (ad_segments b)"
    using arg_cong [OF assms(2), of length] assms(3) by (cases qs) (auto simp: pieces_def split: option.splits)
  then have "take (length ps) (pieces b) = map piece (take (length ps) (ad_segments b))"
    by (simp add: pieces_def take_map)
  moreover have "take (length ps) (pieces b) = ps"
    using assms(2) by simp
  ultimately have "pieces a = ps"
    by (simp add: a_def pieces_def)
  moreover from this have "address_wf low a"
    using assms(1) by (simp add: address_wf_def segments_ok_take) (simp add: a_def segments_ok_take)
  ultimately show ?thesis
    by blast
qed

lemma from_str_segments_iff:
  assumes "address_wf low a"
  shows "try_fold (from_str_segment low) raws a = Inr b
    \<longleftrightarrow> address_wf low b \<and> pieces b = pieces a @ raws"
  using assms
proof (induction raws arbitrary: a)
  case Nil
  then show ?case
    using pieces_inj by auto
next
  case (Cons raw raws)
  show ?case
  proof
    assume "try_fold (from_str_segment low) (raw # raws) a = Inr b"
    then obtain c where "from_str_segment low raw a = Inr c" "try_fold (from_str_segment low) raws c = Inr b"
      by (auto split: sum.splits)
    then show "address_wf low b \<and> pieces b = pieces a @ raw # raws"
      using from_str_segment_sound [OF Cons.prems] Cons.IH by fastforce
  next
    assume b: "address_wf low b \<and> pieces b = pieces a @ raw # raws"
    have "\<exists>c. address_wf low c \<and> pieces c = pieces a @ [raw]"
      using b truncated_wf [of low b "pieces a @ [raw]" raws] by (cases raws) auto
    then obtain c where c: "address_wf low c" "pieces c = pieces a @ [raw]"
      by blast
    with from_str_segment_complete [OF Cons.prems c] Cons.IH [OF c(1)] b
    show "try_fold (from_str_segment low) (raw # raws) a = Inr b"
      by simp
  qed
qed

lemma address_finish_iff: "address_finish a = Inr b \<longleftrightarrow> b = a \<and> address_complete a"
  by (auto simp: address_finish_def address_complete_def last_kind_def split: if_splits)

lemma address_from_str_iff:
  "address_from_str low str = Inr a \<longleftrightarrow> address_wf low a \<and> address_complete a \<and> ad_text a = str"
proof -
  have "address_wf low a \<Longrightarrow> address_complete a \<Longrightarrow>
      pieces a = split (CHR ''/'') str \<longleftrightarrow> ad_text a = str"
    using split_join [of "pieces a" "CHR ''/''"] piece_no_slash [of _ a] join_split [of "CHR ''/''" str]
    by (auto simp: address_wf_def address_complete_def pieces_def)
  moreover have "pieces address_empty = []"
    by (simp add: address_empty_def pieces_def)
  moreover have "address_from_str low str = Inr a \<longleftrightarrow>
      try_fold (from_str_segment low) (split (CHR ''/'') str) address_empty = Inr a \<and> address_complete a"
    by (auto simp: address_from_str_def address_finish_iff split: sum.splits)
  ultimately show ?thesis
    by (auto simp: from_str_segments_iff)
qed

lemma address_child_wf:
  assumes "address_child low a k v = Inr b" "address_wf low a" "utf8 v"
  shows "address_wf low b"
  using assms address_push_iff [OF assms(2)] address_wf_extended(1) [OF assms(2)]
  by (auto simp: address_child_def split: if_splits)

lemma address_push_wf:
  assumes "address_push low a k v = Inr b" "address_wf low a" "utf8 v"
  shows "address_wf low b"
  using assms address_push_iff [OF assms(2)] address_wf_extended(1) [OF assms(2)] by auto

lemma address_root_wf: "address_root low k v = Inr b \<Longrightarrow> utf8 v \<Longrightarrow> address_wf low b"
  unfolding address_root_def by (rule address_child_wf [OF _ address_wf_empty])

lemma address_artifact_wf:
  assumes "address_artifact low a k v = Inr b" "address_wf low a" "utf8 k" "utf8 v"
  shows "address_wf low b"
proof -
  obtain c where c: "address_child low a Kind_Artifact k = Inr c" "v \<noteq> []"
    and b: "b = c\<lparr>ad_text := ad_text c @ ''/'' @ of_piece v, ad_of := Some v\<rparr>"
    using assms(1) by (auto simp: address_artifact_def encode_into_encode of_piece_def split: sum.splits)
  have wf: "address_wf low c"
    using address_child_wf [OF c(1) assms(2,3)] .
  moreover have "ad_of c = None" "last_kind c = Some Kind_Artifact"
    using c(1) address_push_iff [OF assms(2)] by (auto simp: address_child_def extended_def last_kind_def)
  ultimately show ?thesis
    using subject_wf [OF wf _ _ c(2) assms(4) b] by simp
qed

text \<open>The addresses the public constructors build, from \<open>str\<close> arguments.\<close>

inductive address_built :: "casing \<Rightarrow> address \<Rightarrow> bool" for low where
  built_root: "address_root low k v = Inr a \<Longrightarrow> utf8 v \<Longrightarrow> address_built low a"
| built_child: "address_built low a \<Longrightarrow> address_child low a k v = Inr b \<Longrightarrow> utf8 v \<Longrightarrow> address_built low b"
| built_repository: "address_repository low f r = Inr a \<Longrightarrow> utf8 (fg_id f) \<Longrightarrow> utf8 r \<Longrightarrow> address_built low a"
| built_usage: "address_usage low p v = Inr a \<Longrightarrow> utf8 p \<Longrightarrow> utf8 v \<Longrightarrow> address_built low a"
| built_artifact: "address_built low a \<Longrightarrow> address_artifact low a k s = Inr b \<Longrightarrow> utf8 k \<Longrightarrow> utf8 s
    \<Longrightarrow> address_built low b"

definition utf8_casing :: "casing \<Rightarrow> bool" where
  "utf8_casing low \<longleftrightarrow> (\<forall>s. utf8 s \<longrightarrow> utf8 (low s))"

lemma address_built_wf:
  assumes "address_built low a" "utf8_casing low"
  shows "address_wf low a"
  using assms
proof (induction rule: address_built.induct)
  case (built_root k v a)
  then show ?case
    using address_root_wf by blast
next
  case (built_child a k v b)
  then show ?case
    using address_child_wf by blast
next
  case (built_repository f r a)
  then obtain c where c: "address_forge low f = Inr c" "address_push low c Kind_Repo (normalise_repository low (fg_kind f) r) = Inr a"
    by (auto simp: address_repository_def split: sum.splits)
  have "address_wf low c"
    using c(1) built_repository(2) address_root_wf by (auto simp: address_forge_def)
  moreover have "utf8 (normalise_repository low (fg_kind f) r)"
    using built_repository(3,4) by (auto simp: normalise_repository_def utf8_casing_def split: forge_kind.splits)
  ultimately show ?case
    using address_push_wf [OF c(2)] by blast
next
  case (built_usage p v a)
  then obtain c where c: "address_root low Kind_Usage (normalise_usage low p) = Inr c"
    "address_child low c Kind_Account (normalise_usage low v) = Inr a"
    by (auto simp: address_usage_def split: sum.splits)
  have "utf8 (normalise_usage low p)" "utf8 (normalise_usage low v)"
    using built_usage by (auto simp: normalise_usage_def utf8_casing_def utf8_trim)
  with address_root_wf [OF c(1)] address_child_wf [OF c(2)] show ?case
    by blast
next
  case (built_artifact a k s b)
  then show ?case
    using address_artifact_wf by blast
qed

lemma address_forge_valid: "forge_new i k = Inr f \<Longrightarrow> \<exists>a. address_forge low f = Inr a"
  by (auto simp: forge_new_def address_forge_def address_root_def address_child_def address_push_def
      validate_value_def validate_forge_id_def address_empty_def last_kind_def may_follow_def Let_def
      split: sum.splits if_splits)

lemma wf_last_value:
  assumes "address_wf low a" "ad_segments a \<noteq> []"
  shows "validate_value low (address_kind a) (address_name a) = Inr ()"
  using assms by (cases "ad_segments a" rule: rev_cases)
    (auto simp: address_wf_def segments_ok_snoc segment_ok_def Let_def address_kind_def address_name_def)

lemma address_number_some:
  assumes "address_wf low a" "ad_segments a \<noteq> []" "address_kind a \<in> {Kind_ChangeRequest, Kind_Issue}"
  shows "\<exists>n. address_number a = Some n"
  using wf_last_value [OF assms(1,2)] assms(3)
  by (auto simp: address_number_def validate_value_def Let_def split: if_splits)

text \<open>A case mapping on ASCII letters alone keeps UTF-8.\<close>

lemma utf8_lower: "utf8 s \<Longrightarrow> utf8 (to_ascii_lowercase s)"
proof -
  define f where "f = (\<lambda>c. if is_ascii_uppercase c then char_of (byte c + 32) else c)"
  have f: "128 \<le> byte c \<Longrightarrow> f c = c" "byte c < 128 \<Longrightarrow> byte (f c) < 128" for c
    by (auto simp: f_def is_ascii_uppercase_def byte_char_of)
  have c: "cont c \<Longrightarrow> f c = c" "second_ok b c \<Longrightarrow> f c = c" for b c
    using f by (auto simp: cont_def second_ok_def)
  have "utf8 s \<Longrightarrow> utf8 (map f s)"
  proof (induction s rule: length_induct)
    case (1 s)
    have IH: "length t < length s \<Longrightarrow> utf8 t \<Longrightarrow> utf8 (map f t)" for t
      using "1"(1) by blast
    show ?case
    proof (cases s)
      case (Cons b bs)
      consider "byte b < 128" | "128 \<le> byte b \<and> byte b < 194 \<or> 245 \<le> byte b" | "194 \<le> byte b \<and> byte b < 224"
        | "224 \<le> byte b \<and> byte b < 240" | "240 \<le> byte b \<and> byte b < 245"
        by linarith
      then show ?thesis
        using "1.prems" f [of b]
        by cases (auto simp: Cons utf8_Cons c intro!: IH simp del: utf8.simps)
    qed simp
  qed
  then show "utf8 s \<Longrightarrow> utf8 (to_ascii_lowercase s)"
    by (simp add: to_ascii_lowercase_def f_def)
qed

section \<open>Prefixes\<close>

text \<open>No byte lies between \<open>/\<close> and \<open>0\<close>.\<close>

lemma slash_le: "(''/'' \<le> c # r) = (CHR ''/'' \<le> c)"
  by (simp only: Cons_le_Cons Nil_le_Cons simp_thms order_le_less [of "CHR ''/''" c])

lemma less_zero: "(c # r < ''0'') = (c < CHR ''0'')"
  by (simp only: Cons_less_Cons not_less_Nil simp_thms)

lemma only_slash: "(CHR ''/'' \<le> c \<and> c < CHR ''0'') = (c = CHR ''/'')"
proof
  assume "CHR ''/'' \<le> c \<and> c < CHR ''0''"
  then have "byte c = byte (CHR ''/'')"
    by (simp add: less_char_def less_eq_char_def byte_def)
  then show "c = CHR ''/''"
    by (simp only: byte_inj)
qed simp

lemma between_slash_and_zero: "p @ ''/'' \<le> s \<and> s < p @ ''0'' \<longleftrightarrow> (\<exists>r. s = p @ CHR ''/'' # r)"
proof (induction p arbitrary: s)
  case Nil
  show ?case
  proof (cases s)
    case (Cons c r)
    then show ?thesis
      unfolding append_Nil Cons slash_le less_zero only_slash by blast
  qed simp
next
  case (Cons a p)
  show ?case
  proof (cases s)
    case Nil
    then show ?thesis
      by simp
  next
    case (Cons c r)
    show ?thesis
      using Cons.IH [of r] unfolding Cons append_Cons Cons_le_Cons Cons_less_Cons by auto
  qed
qed

lemma join_prefix:
  assumes "ps \<noteq> []" "\<And>p. p \<in> set (ps @ qs) \<Longrightarrow> CHR ''/'' \<notin> set p" "qs \<noteq> []"
  shows "(\<exists>r. join ''/'' qs = join ''/'' ps @ CHR ''/'' # r) \<longleftrightarrow> (\<exists>rs. rs \<noteq> [] \<and> qs = ps @ rs)"
proof
  assume "\<exists>r. join ''/'' qs = join ''/'' ps @ CHR ''/'' # r"
  then obtain r where "join ''/'' qs = join ''/'' ps @ CHR ''/'' # r"
    by blast
  then have "split (CHR ''/'') (join ''/'' qs) = split (CHR ''/'') (join ''/'' ps) @ split (CHR ''/'') r"
    by (simp add: split_append)
  then have "qs = ps @ split (CHR ''/'') r"
    using assms by (simp add: split_join)
  then show "\<exists>rs. rs \<noteq> [] \<and> qs = ps @ rs"
    using split_by_ne by blast
next
  assume "\<exists>rs. rs \<noteq> [] \<and> qs = ps @ rs"
  then show "\<exists>r. join ''/'' qs = join ''/'' ps @ CHR ''/'' # r"
    using assms(1) by (auto simp: join_append)
qed

lemma under_pieces:
  assumes "address_wf low a" "address_wf low b" "ad_segments a \<noteq> []" "ad_segments b \<noteq> []"
  shows "(\<exists>r. ad_text a = ad_text b @ CHR ''/'' # r) \<longleftrightarrow> strict_prefix (pieces b) (pieces a)"
proof -
  have ne: "pieces a \<noteq> []" "pieces b \<noteq> []"
    using assms(3,4) by (simp_all add: pieces_def)
  have texts: "ad_text a = join ''/'' (pieces a)" "ad_text b = join ''/'' (pieces b)"
    using assms(1,2) by (simp_all add: address_wf_def)
  have "strict_prefix (pieces b) (pieces a) \<longleftrightarrow> (\<exists>rs. rs \<noteq> [] \<and> pieces a = pieces b @ rs)"
    by (auto simp: strict_prefix_def prefix_def)
  moreover have "CHR ''/'' \<notin> set p" if "p \<in> set (pieces b @ pieces a)" for p
    using that piece_no_slash [of p a] piece_no_slash [of p b] by auto
  ultimately show ?thesis
    unfolding texts using join_prefix [OF ne(2) _ ne(1)] by blast
qed

lemma piece_prefix: "prefix (map piece ss) (map piece ts) \<longleftrightarrow> prefix ss ts"
proof
  assume "prefix (map piece ss) (map piece ts)"
  then obtain zs where "map piece ts = map piece ss @ zs"
    by (auto simp: prefix_def)
  then obtain us vs where "ts = us @ vs" "map piece us = map piece ss"
    by (auto simp: map_eq_append_conv)
  then show "prefix ss ts"
    by (simp add: map_piece_inj)
qed (rule map_mono_prefix)

lemma prefix_subject:
  "prefix (map piece ss) (map piece ts @ [of_piece t]) \<longleftrightarrow> prefix ss ts"
  "prefix (map piece ss @ [of_piece t]) (map piece ts) \<longleftrightarrow> False"
  "prefix (map piece ss @ [of_piece t]) (map piece ts @ [of_piece u]) \<longleftrightarrow> ss = ts \<and> t = u"
proof -
  have never: "\<not> prefix (map piece ss @ [of_piece t]) (map piece ts)" for ss t ts
    using set_mono_prefix [of "map piece ss @ [of_piece t]" "map piece ts"] of_piece_notin [of t "set ts"] by auto
  then show "prefix (map piece ss @ [of_piece t]) (map piece ts) \<longleftrightarrow> False"
    by simp
  have "map piece ss \<noteq> map piece ts @ [of_piece t]"
    using never [of ts t ss] by auto
  then show "prefix (map piece ss) (map piece ts @ [of_piece t]) \<longleftrightarrow> prefix ss ts"
    by (simp add: piece_prefix)
  show "prefix (map piece ss @ [of_piece t]) (map piece ts @ [of_piece u]) \<longleftrightarrow> ss = ts \<and> t = u"
    using never [of ss t ts] by (auto simp: map_piece_inj of_piece_inj)
qed

lemma pieces_prefix:
  "prefix (pieces b) (pieces a) \<longleftrightarrow>
    (if ad_of b = None then prefix (ad_segments b) (ad_segments a)
     else ad_segments a = ad_segments b \<and> ad_of a = ad_of b)"
  by (cases "ad_of a"; cases "ad_of b") (auto simp: pieces_def piece_prefix prefix_subject simp del: prefix_snoc)

lemma is_under_iff:
  "is_under a b \<longleftrightarrow> ad_text a = ad_text b \<or> (\<exists>r. ad_text a = ad_text b @ CHR ''/'' # r)"
proof (cases "strip_prefix (ad_text b) (ad_text a)")
  case None
  then have "ad_text a \<noteq> ad_text b @ r" for r
    by (metis option.distinct(1) strip_prefix_iff)
  from this [of "[]"] this show ?thesis
    by (auto simp: is_under_def None)
next
  case (Some r)
  then have "ad_text a = ad_text b @ r"
    by (simp add: strip_prefix_iff)
  moreover have "is_under a b \<longleftrightarrow> r = [] \<or> starts_with (CHR ''/'') r"
    by (simp add: is_under_def Some)
  ultimately show ?thesis
    by (cases r) auto
qed

lemma text_inj:
  assumes "address_wf low a" "address_wf low b" "ad_segments a \<noteq> []" "ad_segments b \<noteq> []"
  shows "ad_text a = ad_text b \<longleftrightarrow> a = b"
proof
  assume eq: "ad_text a = ad_text b"
  have "split (CHR ''/'') (ad_text c) = pieces c" if "c \<in> {a, b}" for c
    using that assms split_join [of "pieces c" "CHR ''/''"] piece_no_slash [of _ c]
    by (auto simp: address_wf_def pieces_def)
  with eq have "pieces a = pieces b"
    by (metis insertI1 insertI2)
  then show "a = b"
    using assms(1,2) by (intro pieces_inj)
qed simp

lemma is_under_segments:
  assumes "address_wf low a" "address_wf low b" "ad_segments a \<noteq> []" "ad_segments b \<noteq> []"
  shows "is_under a b \<longleftrightarrow> a = b \<or> (ad_of b = None \<and> prefix (ad_segments b) (ad_segments a))"
proof -
  have "strict_prefix (pieces b) (pieces a) \<longleftrightarrow> prefix (pieces b) (pieces a) \<and> a \<noteq> b"
    using pieces_inj [OF assms(1,2)] by (auto simp: strict_prefix_def)
  moreover have "ad_segments a = ad_segments b \<and> ad_of a = ad_of b \<Longrightarrow> a = b"
    using assms(1,2) by (intro address.equality) (auto simp: address_wf_def pieces_def)
  ultimately show ?thesis
    unfolding is_under_iff under_pieces [OF assms] text_inj [OF assms] pieces_prefix by auto
qed

lemma address_text_no_at: "address_wf low a \<Longrightarrow> CHR ''@'' \<notin> set (ad_text a)"
proof -
  have "CHR ''@'' \<notin> set (join ''/'' ps)" if "\<And>p. p \<in> set ps \<Longrightarrow> CHR ''@'' \<notin> set p" for ps
    using that
  proof (induction ps)
    case (Cons p ps)
    then show ?case
      by (cases ps) auto
  qed simp
  moreover have "CHR ''@'' \<notin> set p" if "p \<in> set (pieces a)" for p
    using that by (auto simp: pieces_def piece_def of_piece_def OF_def kind_str_no_separator encode_no_separator
        split: option.splits)
  ultimately show "address_wf low a \<Longrightarrow> CHR ''@'' \<notin> set (ad_text a)"
    by (simp add: address_wf_def)
qed

lemma reference_from_str_iff:
  "reference_from_str low str = Inr r \<longleftrightarrow>
    address_wf low (rf_address r) \<and> address_complete (rf_address r) \<and> rf_revision r \<noteq> [] \<and> utf8 (rf_revision r)
    \<and> str = reference_print r"
proof -
  have "reference_from_str low str = Inr r \<longleftrightarrow> (\<exists>l e. split_once (CHR ''@'') str = Some (l, e)
      \<and> address_from_str low l = Inr (rf_address r) \<and> decode_canonical e = Inr (rf_revision r) \<and> rf_revision r \<noteq> [])"
    by (cases r) (auto simp: reference_from_str_def revision_new_def split: option.splits sum.splits if_splits)
  then show ?thesis
    using address_text_no_at [of low "rf_address r"]
    by (auto simp: address_from_str_iff decode_canonical_iff split_once_iff reference_print_def)
qed

section \<open>Properties\<close>

text \<open>
  C12: The strict parser of addresses accepts exactly the canonical texts, and returns the address each one
  spells: parsing a text gives an address if and only if the address is well formed (every segment may follow
  the one before it and has a valid UTF-8 value, an artifact has its subject) and the text is that
  address's own. Whatever the constructors build from UTF-8 arguments is well formed, so a complete
  one parses back to itself from its text. A reference likewise parses from its own text alone.
\<close>

theorem address_roundtrip:
  assumes "utf8_casing low"
  shows "(address_from_str low str = Inr a \<longleftrightarrow> address_wf low a \<and> address_complete a \<and> ad_text a = str)
    \<and> (address_built low b \<and> address_complete b \<longrightarrow> address_from_str low (ad_text b) = Inr b)
    \<and> (reference_from_str low str = Inr r \<longleftrightarrow>
        address_wf low (rf_address r) \<and> address_complete (rf_address r) \<and> rf_revision r \<noteq> [] \<and> utf8 (rf_revision r)
        \<and> str = reference_print r)"
  using address_from_str_iff address_built_wf [OF _ assms] reference_from_str_iff by blast

text \<open>
  C21: The prefix query over stored texts selects exactly the descendants. For well-formed addresses, being
  under another on the text is being it or extending its segments, so a name that merely starts
  with another's (\<open>convoy:demo2\<close> and \<open>convoy:demo\<close>) is not under it; and a text lies in the byte
  bounds of \<open>descendant_bounds\<close> if and only if its address is strictly under.
\<close>

theorem address_prefix_query:
  assumes "address_wf low a" and "address_wf low b" and "ad_segments a \<noteq> []" and "ad_segments b \<noteq> []"
  shows "(is_under a b \<longleftrightarrow> a = b \<or> (ad_of b = None \<and> prefix (ad_segments b) (ad_segments a)))
    \<and> (fst (descendant_bounds b) \<le> ad_text a \<and> ad_text a < snd (descendant_bounds b)
        \<longleftrightarrow> is_under a b \<and> a \<noteq> b)"
proof -
  have "\<not> (\<exists>r. ad_text a = ad_text b @ CHR ''/'' # r)" if "a = b"
    using that by simp
  then show ?thesis
    unfolding is_under_segments [OF assms, symmetric]
    using between_slash_and_zero [of "ad_text b" "ad_text a"] text_inj [OF assms]
    by (auto simp: descendant_bounds_def is_under_iff)
qed

section \<open>Witnesses\<close>

definition address_ok :: "address_error + address \<Rightarrow> address" where
  "address_ok r = (case r of Inl _ \<Rightarrow> address_empty | Inr a \<Rightarrow> a)"

definition demo_repository :: address where
  "demo_repository = address_ok (address_repository to_ascii_lowercase forge_github ''Flotilla-Org/Flotilla'')"

definition demo_change_request :: address where
  "demo_change_request = address_ok (address_child to_ascii_lowercase demo_repository Kind_ChangeRequest ''42'')"

theorem address_roundtrip_witness:
  "address_from_str to_ascii_lowercase ''forge:github/repo:flotilla-org%2Fflotilla/cr:42'' = Inr demo_change_request"
proof -
  have "address_repository to_ascii_lowercase forge_github ''Flotilla-Org/Flotilla'' = Inr demo_repository"
    "address_child to_ascii_lowercase demo_repository Kind_ChangeRequest ''42'' = Inr demo_change_request"
    "utf8 (fg_id forge_github)" "utf8 ''Flotilla-Org/Flotilla''" "utf8 ''42''"
    by code_simp+
  then have built: "address_built to_ascii_lowercase demo_change_request"
    by (intro built_child [OF built_repository])
  have "address_complete demo_change_request"
    "ad_text demo_change_request = ''forge:github/repo:flotilla-org%2Fflotilla/cr:42''"
    by code_simp+
  moreover have "utf8_casing to_ascii_lowercase"
    by (simp add: utf8_casing_def utf8_lower)
  ultimately show ?thesis
    using address_roundtrip [of to_ascii_lowercase] built by metis
qed

definition demo_convoy :: address where
  "demo_convoy = address_ok (address_from_str to_ascii_lowercase ''project:flotilla/convoy:demo'')"

definition demo_convoy_2 :: address where
  "demo_convoy_2 = address_ok (address_from_str to_ascii_lowercase ''project:flotilla/convoy:demo2'')"

definition demo_convoy_role :: address where
  "demo_convoy_role = address_ok (address_from_str to_ascii_lowercase ''project:flotilla/convoy:demo/role:coder'')"

theorem address_prefix_query_witness:
  "is_under demo_convoy_role demo_convoy \<and> \<not> is_under demo_convoy_2 demo_convoy
    \<and> ''project:flotilla/convoy:demo/'' \<le> ad_text demo_convoy_role
    \<and> \<not> ad_text demo_convoy_2 < ''project:flotilla/convoy:demo0''"
proof -
  have wf: "address_wf to_ascii_lowercase demo_convoy" "address_wf to_ascii_lowercase demo_convoy_2"
    "address_wf to_ascii_lowercase demo_convoy_role"
    by code_simp+
  have ne: "ad_segments demo_convoy \<noteq> []" "ad_segments demo_convoy_2 \<noteq> []" "ad_segments demo_convoy_role \<noteq> []"
    by code_simp+
  have facts: "ad_of demo_convoy = None" "prefix (ad_segments demo_convoy) (ad_segments demo_convoy_role)"
    "\<not> prefix (ad_segments demo_convoy) (ad_segments demo_convoy_2)" "demo_convoy_2 \<noteq> demo_convoy"
    "demo_convoy_role \<noteq> demo_convoy"
    "descendant_bounds demo_convoy = (''project:flotilla/convoy:demo/'', ''project:flotilla/convoy:demo0'')"
    "''project:flotilla/convoy:demo/'' \<le> ad_text demo_convoy_2"
    by code_simp+
  from address_prefix_query [OF wf(3,1) ne(3,1)] address_prefix_query [OF wf(2,1) ne(2,1)] facts show ?thesis
    by auto
qed

end
