(* ===== verification/Conditions.thy ===== *)
theory Conditions
  imports Address
begin

text \<open>
  The condition and template grammar, \<open>src/crates/flotilla-address/src/condition.rs\<close>: the printer, and
  the cursor that parses the strict and the lenient spelling.

  A cursor is a text, a byte position and a mode; each of its methods returns the cursor it leaves.
  JSON strings are written and read by \<open>serde_json\<close>, whose two functions are the argument \<open>json\<close>.
  The strict parsers accept exactly what the printer writes.
\<close>

section \<open>Operators, paths and variables\<close>

datatype operator =
  Equal | NotEqual | LessThan | LessThanOrEqual | GreaterThan | GreaterThanOrEqual

definition operator_all :: "operator list" where
  "operator_all = [Equal, NotEqual, LessThan, LessThanOrEqual, GreaterThan, GreaterThanOrEqual]"

fun operator_str :: "operator \<Rightarrow> string" where
  "operator_str Equal = ''==''"
| "operator_str NotEqual = ''!=''"
| "operator_str LessThan = ''<''"
| "operator_str LessThanOrEqual = ''<=''"
| "operator_str GreaterThan = ''>''"
| "operator_str GreaterThanOrEqual = ''>=''"

definition operator_from_str :: "string \<Rightarrow> address_error + operator" where
  "operator_from_str token =
    (case find (\<lambda>p. operator_str p = token) operator_all of
       None \<Rightarrow> Inl (E_UnknownOperator token)
     | Some p \<Rightarrow> Inr p)"

type_synonym field_path = "string list"

record variable =
  vr_name :: string
  vr_arguments :: "string list"

definition variable_new :: "string \<Rightarrow> string list \<Rightarrow> address_error + variable" where
  "variable_new name arguments =
    (if name \<noteq> [] \<and> is_ascii_lowercase (hd name)
        \<and> list_all (\<lambda>b. is_ascii_lowercase b \<or> is_ascii_digit b \<or> b = CHR ''_'' \<or> b = CHR ''-'') (tl name)
     then Inr \<lparr>vr_name = name, vr_arguments = arguments\<rparr>
     else Inl (E_InvalidVariable name))"

record condition =
  cn_address :: address
  cn_path :: field_path
  cn_operator :: operator
  cn_literal :: string

record template =
  tp_subject :: variable
  tp_path :: field_path
  tp_operator :: operator
  tp_literal :: string

definition template_bind :: "template \<Rightarrow> address \<Rightarrow> condition" where
  "template_bind t a =
    \<lparr>cn_address = a, cn_path = tp_path t, cn_operator = tp_operator t, cn_literal = tp_literal t\<rparr>"

section \<open>Printing\<close>

record json =
  js_to_string :: "string \<Rightarrow> string"
  js_from_str :: "string \<Rightarrow> string option"

definition is_bare_segment :: "string \<Rightarrow> bool" where
  "is_bare_segment word \<longleftrightarrow>
    word \<noteq> [] \<and> list_all (\<lambda>b. is_ascii_alphanumeric b \<or> b = CHR ''_'' \<or> b = CHR ''-'') word"

definition is_bare_literal :: "string \<Rightarrow> bool" where
  "is_bare_literal word \<longleftrightarrow>
    word \<noteq> [] \<and> list_all (\<lambda>b. is_ascii_alphanumeric b \<or> b \<in> set ''_-.:/+@'') word"

definition write_word :: "json \<Rightarrow> string \<Rightarrow> (string \<Rightarrow> bool) \<Rightarrow> string" where
  "write_word json word bare = (if bare word then word else js_to_string json word)"

definition path_print :: "json \<Rightarrow> field_path \<Rightarrow> string" where
  "path_print json path =
    (if path = [] then ''.'' else concat (map (\<lambda>s. ''.'' @ write_word json s is_bare_segment) path))"

definition variable_print :: "json \<Rightarrow> variable \<Rightarrow> string" where
  "variable_print json v =
    ''$'' @ vr_name v @
    (if vr_arguments v = [] then []
     else ''('' @ join '','' (map (\<lambda>w. write_word json w is_bare_segment) (vr_arguments v)) @ '')'')"

definition comparison_print :: "json \<Rightarrow> field_path \<Rightarrow> operator \<Rightarrow> string \<Rightarrow> string" where
  "comparison_print json path oper literal =
    path_print json path @ '' '' @ operator_str oper @ '' '' @ write_word json literal is_bare_literal"

definition condition_print :: "json \<Rightarrow> condition \<Rightarrow> string" where
  "condition_print json c =
    ad_text (cn_address c) @ '' '' @ comparison_print json (cn_path c) (cn_operator c) (cn_literal c)"

definition template_print :: "json \<Rightarrow> template \<Rightarrow> string" where
  "template_print json t =
    variable_print json (tp_subject t) @ '' '' @ comparison_print json (tp_path t) (tp_operator t) (tp_literal t)"

section \<open>The cursor\<close>

datatype mode = Strict | Lenient

record cursor =
  cu_text :: string
  cu_position :: nat
  cu_mode :: mode

definition cursor_new :: "string \<Rightarrow> mode \<Rightarrow> cursor" where
  "cursor_new text mode = \<lparr>cu_text = text, cu_position = 0, cu_mode = mode\<rparr>"

definition cu_rest :: "cursor \<Rightarrow> string" where
  "cu_rest c = drop (cu_position c) (cu_text c)"

definition cu_peek :: "cursor \<Rightarrow> char option" where
  "cu_peek c = (case cu_rest c of [] \<Rightarrow> None | b # _ \<Rightarrow> Some b)"

definition cu_syntax :: "cursor \<Rightarrow> string \<Rightarrow> address_error" where
  "cu_syntax c expected = E_Syntax (cu_text c) (cu_position c) expected"

definition cu_skip :: "nat \<Rightarrow> cursor \<Rightarrow> cursor" where
  "cu_skip n c = c\<lparr>cu_position := cu_position c + n\<rparr>"

definition cu_token :: "cursor \<Rightarrow> string \<times> cursor" where
  "cu_token c = (let token = fst (token_of (cu_rest c)) in (token, cu_skip (length token) c))"

definition cu_separator :: "cursor \<Rightarrow> address_error + cursor" where
  "cu_separator c =
    (let rest = cu_rest c;
         skipped = (case cu_mode c of
             Strict \<Rightarrow> if starts_with (CHR '' '') rest then 1 else 0
           | Lenient \<Rightarrow> length rest - length (trim_start rest))
     in if skipped = 0 then Inl (cu_syntax c ''a space'') else Inr (cu_skip skipped c))"

definition cu_end :: "cursor \<Rightarrow> address_error + unit" where
  "cu_end c = (if cu_rest c = [] then Inr () else Inl (cu_syntax c ''the end of input''))"

text \<open>
  The end of the JSON string that a text starts with: the loop of \<open>quoted\<close> from the byte \<open>index\<close> on.
\<close>

fun closing_quote :: "bool \<Rightarrow> nat \<Rightarrow> string \<Rightarrow> nat option" where
  "closing_quote escaped index [] = None"
| "closing_quote escaped index (b # bs) =
    (if escaped then closing_quote False (index + 1) bs
     else if b = CHR 0x5C then closing_quote True (index + 1) bs
     else if b = CHR 0x22 then Some (index + 1)
     else closing_quote False (index + 1) bs)"

definition cu_quoted :: "json \<Rightarrow> (string \<Rightarrow> bool) \<Rightarrow> cursor \<Rightarrow> address_error + string \<times> cursor" where
  "cu_quoted json bare c =
    (let rest = cu_rest c
     in case closing_quote False 1 (drop 1 rest) of
          None \<Rightarrow> Inl (cu_syntax c (''a closing `'' @ [CHR 0x22] @ ''`''))
        | Some end_at \<Rightarrow>
            (let spelling = take end_at rest
             in case js_from_str json spelling of
                  None \<Rightarrow> Inl (cu_syntax c ''a JSON string'')
                | Some val \<Rightarrow>
                    if cu_mode c = Strict \<and> (bare val \<or> js_to_string json val \<noteq> spelling)
                    then Inl (E_NonCanonicalQuoting spelling)
                    else Inr (val, cu_skip end_at c)))"

text \<open>Whether the text goes on past the word, at the character it starts with.\<close>

definition ends_word :: "mode \<Rightarrow> string \<Rightarrow> bool" where
  "ends_word mode s =
    (case mode of
       Strict \<Rightarrow> \<not> (is_ascii_alphanumeric (hd s) \<or> hd s = CHR ''_'' \<or> hd s = CHR ''-'')
     | Lenient \<Rightarrow> whitespace_len s > 0 \<or> hd s \<in> {CHR ''.'', CHR '','', CHR ''('', CHR '')'', CHR 0x22})"

fun word_len :: "mode \<Rightarrow> string \<Rightarrow> nat" where
  "word_len mode [] = 0"
| "word_len mode (b # bs) = (if ends_word mode (b # bs) then 0 else Suc (word_len mode bs))"

definition cu_word :: "json \<Rightarrow> (string \<Rightarrow> bool) \<Rightarrow> string \<Rightarrow> cursor \<Rightarrow> address_error + string \<times> cursor" where
  "cu_word json bare expected c =
    (if cu_peek c = Some (CHR 0x22) then cu_quoted json bare c
     else
       (let rest = cu_rest c; end_at = word_len (cu_mode c) rest
        in if end_at = 0 then Inl (cu_syntax c expected)
           else Inr (take end_at rest, cu_skip end_at c)))"

lemma cu_skip_simps [simp]:
  "cu_text (cu_skip n c) = cu_text c" "cu_mode (cu_skip n c) = cu_mode c"
  "cu_position (cu_skip n c) = cu_position c + n"
  by (simp_all add: cu_skip_def)

lemma cu_word_keeps:
  "cu_word json bare expected c = Inr (w, c') \<Longrightarrow> cu_text c' = cu_text c \<and> cu_position c \<le> cu_position c'"
  by (auto simp: cu_word_def cu_quoted_def Let_def split: if_splits option.splits)

lemma cu_peek_within: "cu_peek c = Some b \<Longrightarrow> cu_position c < length (cu_text c)"
  by (cases "cu_position c < length (cu_text c)") (simp_all add: cu_peek_def cu_rest_def)

text \<open>The loop of \<open>field_path\<close> after its first dot, with the segments so far.\<close>

function path_segments :: "json \<Rightarrow> string list \<Rightarrow> cursor \<Rightarrow> address_error + field_path \<times> cursor" where
  "path_segments json segments c =
    (case cu_word json is_bare_segment ''a bare or quoted field name'' c of
       Inl e \<Rightarrow> Inl e
     | Inr (w, c') \<Rightarrow>
         if cu_peek c' \<noteq> Some (CHR ''.'') then Inr (segments @ [w], c')
         else path_segments json (segments @ [w]) (cu_skip 1 c'))"
  by pat_completeness auto
termination
  by (relation "measure (\<lambda>(_, _, c). length (cu_text c) - cu_position c)")
    (auto dest!: cu_word_keeps cu_peek_within)

declare path_segments.simps [simp del]

definition cu_field_path :: "json \<Rightarrow> cursor \<Rightarrow> address_error + field_path \<times> cursor" where
  "cu_field_path json c =
    (if cu_peek c \<noteq> Some (CHR ''.'') then Inl (cu_syntax c ''a field path starting with `.`'')
     else
       (let c1 = cu_skip 1 c
        in if cu_peek c1 \<in> {None, Some (CHR '' ''), Some (CHR 0x09), Some (CHR 0x0A), Some (CHR 0x0D)}
           then Inr ([], c1)
           else path_segments json [] c1))"

definition cu_literal :: "json \<Rightarrow> cursor \<Rightarrow> address_error + string \<times> cursor" where
  "cu_literal json c =
    (let rest = cu_rest c
     in if starts_with (CHR 0x22) rest
        then (case cu_quoted json is_bare_literal c of
            Inl e \<Rightarrow> Inl e
          | Inr (val, c') \<Rightarrow> (case cu_end c' of Inl e \<Rightarrow> Inl e | Inr _ \<Rightarrow> Inr (val, c')))
        else case cu_mode c of
          Strict \<Rightarrow>
            if is_bare_literal rest then Inr (rest, c\<lparr>cu_position := length (cu_text c)\<rparr>)
            else Inl (cu_syntax c ''a bare or quoted literal'')
        | Lenient \<Rightarrow>
            (let val = (case (case strip_prefix [CHR 0x27] rest of
                   None \<Rightarrow> None
                 | Some inner \<Rightarrow> strip_suffix [CHR 0x27] inner) of
                 Some inner \<Rightarrow> inner
               | None \<Rightarrow> join '' '' (split_whitespace rest))
             in if val = [] then Inl (cu_syntax c ''a literal'')
                else Inr (val, c\<lparr>cu_position := length (cu_text c)\<rparr>)))"

definition cu_comparison :: "json \<Rightarrow> cursor \<Rightarrow> address_error + (field_path \<times> operator \<times> string) \<times> cursor" where
  "cu_comparison json c =
    (case cu_field_path json c of
       Inl e \<Rightarrow> Inl e
     | Inr (path, c1) \<Rightarrow> (case cu_separator c1 of
         Inl e \<Rightarrow> Inl e
       | Inr c2 \<Rightarrow> (case cu_token c2 of
           (token, c3) \<Rightarrow> (case operator_from_str token of
             Inl e \<Rightarrow> Inl e
           | Inr oper \<Rightarrow> (case cu_separator c3 of
               Inl e \<Rightarrow> Inl e
             | Inr c4 \<Rightarrow> (case cu_literal json c4 of
                 Inl e \<Rightarrow> Inl e
               | Inr (literal, c5) \<Rightarrow> Inr ((path, oper, literal), c5)))))))"

definition name_char :: "char \<Rightarrow> bool" where
  "name_char b \<longleftrightarrow> is_ascii_lowercase b \<or> is_ascii_digit b \<or> b = CHR ''_'' \<or> b = CHR ''-''"

text \<open>The loop over a variable's arguments, after its opening bracket.\<close>

function variable_arguments :: "json \<Rightarrow> string list \<Rightarrow> cursor \<Rightarrow> address_error + string list \<times> cursor" where
  "variable_arguments json arguments c =
    (case cu_word json is_bare_segment ''a bare or quoted argument'' c of
       Inl e \<Rightarrow> Inl e
     | Inr (w, c') \<Rightarrow>
         if cu_peek c' = Some (CHR '','') then variable_arguments json (arguments @ [w]) (cu_skip 1 c')
         else if cu_peek c' = Some (CHR '')'') then Inr (arguments @ [w], cu_skip 1 c')
         else Inl (cu_syntax c' ''`,` or `)`''))"
  by pat_completeness auto
termination
  by (relation "measure (\<lambda>(_, _, c). length (cu_text c) - cu_position c)")
    (auto dest!: cu_word_keeps cu_peek_within)

declare variable_arguments.simps [simp del]

definition cu_variable :: "json \<Rightarrow> cursor \<Rightarrow> address_error + variable \<times> cursor" where
  "cu_variable json c =
    (if cu_peek c \<noteq> Some (CHR ''$'') then Inl (cu_syntax c ''a `$` variable'')
     else
       (let c1 = cu_skip 1 c; name = takeWhile name_char (cu_rest c1); c2 = cu_skip (length name) c1
        in case (if cu_peek c2 = Some (CHR ''('') then variable_arguments json [] (cu_skip 1 c2) else Inr ([], c2)) of
             Inl e \<Rightarrow> Inl e
           | Inr (arguments, c3) \<Rightarrow> (case variable_new name arguments of
               Inl e \<Rightarrow> Inl e
             | Inr v \<Rightarrow> Inr (v, c3))))"

section \<open>Parsing\<close>

definition path_from_str :: "json \<Rightarrow> string \<Rightarrow> address_error + field_path" where
  "path_from_str json text =
    (case cu_field_path json (cursor_new text Strict) of
       Inl e \<Rightarrow> Inl e
     | Inr (path, c) \<Rightarrow> (case cu_end c of Inl e \<Rightarrow> Inl e | Inr _ \<Rightarrow> Inr path))"

definition condition_from_str :: "casing \<Rightarrow> json \<Rightarrow> string \<Rightarrow> address_error + condition" where
  "condition_from_str low json text =
    (case cu_token (cursor_new text Strict) of
       (token, c) \<Rightarrow> (case address_from_str low token of
         Inl e \<Rightarrow> Inl e
       | Inr a \<Rightarrow> (case cu_separator c of
           Inl e \<Rightarrow> Inl e
         | Inr c1 \<Rightarrow> (case cu_comparison json c1 of
             Inl e \<Rightarrow> Inl e
           | Inr ((path, oper, literal), _) \<Rightarrow>
               Inr \<lparr>cn_address = a, cn_path = path, cn_operator = oper, cn_literal = literal\<rparr>))))"

definition template_from_str :: "json \<Rightarrow> string \<Rightarrow> address_error + template" where
  "template_from_str json text =
    (case cu_variable json (cursor_new text Strict) of
       Inl e \<Rightarrow> Inl e
     | Inr (subject, c) \<Rightarrow> (case cu_separator c of
         Inl e \<Rightarrow> Inl e
       | Inr c1 \<Rightarrow> (case cu_comparison json c1 of
           Inl e \<Rightarrow> Inl e
         | Inr ((path, oper, literal), _) \<Rightarrow>
             Inr \<lparr>tp_subject = subject, tp_path = path, tp_operator = oper, tp_literal = literal\<rparr>)))"

definition template_resolve :: "json \<Rightarrow> string \<Rightarrow> address_error + template" where
  "template_resolve json input =
    (case cu_variable json (cursor_new (trim input) Lenient) of
       Inl e \<Rightarrow> Inl e
     | Inr (subject, c) \<Rightarrow> (case (if cu_peek c \<noteq> Some (CHR ''.'') then cu_separator c else Inr c) of
         Inl e \<Rightarrow> Inl e
       | Inr c1 \<Rightarrow> (case cu_comparison json c1 of
           Inl e \<Rightarrow> Inl e
         | Inr ((path, oper, literal), _) \<Rightarrow>
             Inr \<lparr>tp_subject = subject, tp_path = path, tp_operator = oper, tp_literal = literal\<rparr>)))"

section \<open>What the grammar relies on of JSON\<close>

text \<open>
  \<open>serde_json\<close> writes a string between quotes, every inner quote and backslash behind a backslash,
  and reads back what it wrote.
\<close>

fun json_body :: "string \<Rightarrow> bool" where
  "json_body [] = True"
| "json_body (b # bs) =
    (if b = CHR 0x5C then (case bs of [] \<Rightarrow> False | _ # rest \<Rightarrow> json_body rest)
     else b \<noteq> CHR 0x22 \<and> json_body bs)"

definition json_ok :: "json \<Rightarrow> bool" where
  "json_ok json \<longleftrightarrow> (\<forall>w. utf8 w \<longrightarrow>
    js_from_str json (js_to_string json w) = Some w
    \<and> (\<exists>body. js_to_string json w = CHR 0x22 # body @ [CHR 0x22] \<and> json_body body))"

definition variable_ok :: "variable \<Rightarrow> bool" where
  "variable_ok v \<longleftrightarrow> is_ok (variable_new (vr_name v) []) \<and> list_all utf8 (vr_arguments v)"

section \<open>Lemmas\<close>

lemma cu_rest_skip [simp]: "cu_rest (cu_skip n c) = drop n (cu_rest c)"
  by (simp add: cu_rest_def add.commute)

lemma cu_skip_skip [simp]: "cu_skip m (cu_skip n c) = cu_skip (n + m) c"
  by (simp add: cu_skip_def add.assoc)

lemma cu_peek_rest: "cu_peek c = Some b \<longleftrightarrow> (\<exists>r. cu_rest c = b # r)" "cu_peek c = None \<longleftrightarrow> cu_rest c = []"
  by (auto simp: cu_peek_def split: list.splits)

lemma cu_rest_new [simp]: "cu_rest (cursor_new s m) = s" "cu_mode (cursor_new s m) = m"
  by (simp_all add: cu_rest_def cursor_new_def)

text \<open>A cursor reads a text when the text is next, and leaves the cursor after it.\<close>

definition cu_reads :: "cursor \<Rightarrow> string \<Rightarrow> cursor \<Rightarrow> bool" where
  "cu_reads c s d \<longleftrightarrow> cu_mode c = Strict \<and> prefix s (cu_rest c) \<and> d = cu_skip (length s) c"

lemma cu_reads_rest: "cu_reads c s d \<Longrightarrow> cu_rest c = s @ cu_rest d"
  by (auto simp: cu_reads_def prefix_def)

lemma cu_reads_skip: "cu_mode c = Strict \<Longrightarrow> cu_rest c = s @ r \<Longrightarrow> cu_reads c s (cu_skip (length s) c)"
  by (simp add: cu_reads_def)

lemma cu_reads_mode: "cu_reads c s d \<Longrightarrow> cu_mode d = Strict"
  by (auto simp: cu_reads_def)

lemma cu_reads_trans:
  assumes "cu_reads c s d" "cu_reads d t e"
  shows "cu_reads c (s @ t) e"
proof -
  have "cu_rest c = s @ t @ cu_rest e"
    using cu_reads_rest [OF assms(1)] cu_reads_rest [OF assms(2)] by simp
  then have "prefix (s @ t) (cu_rest c)"
    by (metis append.assoc prefixI)
  then show ?thesis
    using assms by (simp add: cu_reads_def)
qed

lemma cu_reads_next: "cu_reads c [b] d \<longleftrightarrow> cu_mode c = Strict \<and> cu_peek c = Some b \<and> d = cu_skip 1 c"
  by (auto simp: cu_reads_def cu_peek_rest prefix_def)

lemma closing_quote_body:
  "json_body body \<Longrightarrow> closing_quote False i (body @ CHR 0x22 # r) = Some (i + length body + 1)"
  by (induction body arbitrary: i rule: json_body.induct) (auto split: if_splits list.splits)

lemma word_len_le: "word_len m s \<le> length s"
  by (induction s) auto

lemma word_len_strict:
  "is_bare_segment (take (word_len Strict s) s) \<longleftrightarrow> word_len Strict s \<noteq> 0"
  by (induction s) (auto simp: is_bare_segment_def ends_word_def)

lemma word_len_bare:
  assumes "is_bare_segment w" "r = [] \<or> ends_word Strict r"
  shows "word_len Strict (w @ r) = length w"
proof -
  have "word_len Strict r = 0"
    using assms(2) by (cases r) auto
  moreover have "list_all (\<lambda>b. is_ascii_alphanumeric b \<or> b = CHR ''_'' \<or> b = CHR ''-'') w"
    using assms(1) by (simp add: is_bare_segment_def)
  ultimately show ?thesis
    by (induction w) (auto simp: ends_word_def)
qed

lemma closing_quote_le: "closing_quote e i s = Some n \<Longrightarrow> s \<noteq> [] \<and> n \<le> i + length s"
proof (induction s arbitrary: e i)
  case (Cons b bs)
  have "closing_quote e' (i + 1) bs = Some n \<Longrightarrow> n \<le> i + length (b # bs)" for e'
    using Cons.IH [of e' "i + 1"] by simp
  then show ?case
    using Cons.prems by (auto split: if_splits)
qed simp

lemma quoted_sound:
  assumes "cu_quoted json bare c = Inr (w, d)" "cu_mode c = Strict"
  shows "cu_reads c (write_word json w bare) d"
proof -
  obtain n where n: "closing_quote False 1 (drop 1 (cu_rest c)) = Some n"
    and w: "take n (cu_rest c) = js_to_string json w" "\<not> bare w" "d = cu_skip n c"
    using assms by (auto simp: cu_quoted_def Let_def split: option.splits if_splits)
  have "n \<le> length (cu_rest c)"
    using closing_quote_le [OF n] by auto
  then have "length (js_to_string json w) = n"
    using arg_cong [OF w(1), of length] by simp
  moreover have "cu_rest c = js_to_string json w @ drop n (cu_rest c)"
    by (simp flip: w(1))
  ultimately show ?thesis
    using w(2,3) assms(2) by (metis prefixI cu_reads_def write_word_def)
qed

lemma quoted_complete:
  assumes "json_ok json" "utf8 w" "\<not> bare w" "cu_reads c (write_word json w bare) d"
  shows "cu_quoted json bare c = Inr (w, d)" "cu_peek c = Some (CHR 0x22)"
proof -
  obtain body where body: "js_to_string json w = CHR 0x22 # body @ [CHR 0x22]" "json_body body"
    "js_from_str json (js_to_string json w) = Some w"
    using assms(1,2) by (auto simp: json_ok_def)
  have rest: "cu_rest c = js_to_string json w @ cu_rest d"
    using cu_reads_rest [OF assms(4)] assms(3) by (simp add: write_word_def)
  have "closing_quote False 1 (drop 1 (cu_rest c)) = Some (length (js_to_string json w))"
    using closing_quote_body [OF body(2), of 1] by (simp add: rest body(1))
  moreover have "take (length (js_to_string json w)) (cu_rest c) = js_to_string json w"
    by (simp add: rest)
  ultimately show "cu_quoted json bare c = Inr (w, d)"
    using assms(3,4) body(3) by (simp add: cu_quoted_def cu_reads_def write_word_def)
  show "cu_peek c = Some (CHR 0x22)"
    by (simp add: cu_peek_rest rest body(1))
qed

lemma bare_peek:
  assumes "is_bare_segment w" "cu_rest c = w @ r"
  shows "cu_peek c \<noteq> Some (CHR 0x22)"
  using assms by (cases w) (auto simp: cu_peek_rest is_bare_segment_def is_ascii_alphanumeric_def is_ascii_digit_def
      is_ascii_lowercase_def is_ascii_uppercase_def byte_def)

lemma word_sound:
  assumes "cu_word json is_bare_segment expected c = Inr (w, d)" "cu_mode c = Strict"
  shows "cu_reads c (write_word json w is_bare_segment) d"
proof (cases "cu_peek c = Some (CHR 0x22)")
  case True
  then show ?thesis
    using assms quoted_sound by (simp add: cu_word_def)
next
  case False
  define n where "n = word_len Strict (cu_rest c)"
  have w: "n \<noteq> 0" "w = take n (cu_rest c)" "d = cu_skip n c"
    using False assms by (auto simp: cu_word_def n_def Let_def split: if_splits)
  moreover have "is_bare_segment w"
    using w(1,2) word_len_strict by (simp add: n_def)
  moreover have "length w = n"
    using word_len_le [of Strict "cu_rest c"] by (simp add: w(2) n_def)
  ultimately show ?thesis
    using assms(2) by (simp add: cu_reads_def write_word_def take_is_prefix)
qed

lemma word_complete:
  assumes "json_ok json" "utf8 w" "cu_reads c (write_word json w is_bare_segment) d"
    and "cu_rest d = [] \<or> ends_word Strict (cu_rest d)"
  shows "cu_word json is_bare_segment expected c = Inr (w, d)"
proof (cases "is_bare_segment w")
  case True
  have rest: "cu_rest c = w @ cu_rest d"
    using cu_reads_rest [OF assms(3)] True by (simp add: write_word_def)
  then have "word_len Strict (cu_rest c) = length w"
    using word_len_bare [OF True assms(4)] by simp
  moreover have "take (length w) (cu_rest c) = w" "w \<noteq> []"
    using True by (simp_all add: rest is_bare_segment_def)
  ultimately show ?thesis
    using bare_peek [OF True rest] assms(3) True by (simp add: cu_word_def cu_reads_def write_word_def Let_def)
next
  case False
  show ?thesis
    using quoted_complete [OF assms(1,2) False assms(3)] by (simp add: cu_word_def)
qed

text \<open>The segments of a path after the first dot.\<close>

fun segments_print :: "json \<Rightarrow> string list \<Rightarrow> string" where
  "segments_print json [] = []"
| "segments_print json (s # ss) =
    write_word json s is_bare_segment @ (if ss = [] then [] else ''.'' @ segments_print json ss)"

lemma path_print_segments: "path_print json path = ''.'' @ segments_print json path"
proof -
  have "path \<noteq> [] \<Longrightarrow> concat (map (\<lambda>s. ''.'' @ write_word json s is_bare_segment) path) = ''.'' @ segments_print json path"
    by (induction path) auto
  then show ?thesis
    by (simp add: path_print_def)
qed

lemma path_segments_sound:
  assumes "path_segments json ss c = Inr (path, d)" "cu_mode c = Strict"
  shows "\<exists>more. more \<noteq> [] \<and> path = ss @ more \<and> cu_reads c (segments_print json more) d"
  using assms
proof (induction json ss c rule: path_segments.induct)
  case (1 json ss c)
  obtain w e where e: "cu_word json is_bare_segment ''a bare or quoted field name'' c = Inr (w, e)"
    using "1.prems"(1) by (subst (asm) path_segments.simps) (auto split: sum.splits)
  note word = word_sound [OF e "1.prems"(2)]
  show ?case
  proof (cases "cu_peek e = Some (CHR ''.'')")
    case True
    then have "path_segments json (ss @ [w]) (cu_skip 1 e) = Inr (path, d)"
      using "1.prems"(1) e by (subst (asm) path_segments.simps) simp
    with "1.IH" [OF e] True cu_reads_mode [OF word] obtain more where more: "more \<noteq> []" "path = (ss @ [w]) @ more"
      "cu_reads (cu_skip 1 e) (segments_print json more) d"
      by auto
    have dot: "cu_reads e ''.'' (cu_skip 1 e)"
      using True cu_reads_mode [OF word] by (simp add: cu_reads_next)
    have "cu_reads c (segments_print json (w # more)) d"
      using cu_reads_trans [OF word cu_reads_trans [OF dot more(3)]] more(1) by simp
    with more show ?thesis
      by (intro exI [of _ "w # more"]) simp
  next
    case False
    then have "path = ss @ [w]" "d = e"
      using "1.prems"(1) e by (simp_all add: path_segments.simps)
    with word show ?thesis
      by (intro exI [of _ "[w]"]) simp
  qed
qed

text \<open>What a path or an argument may be followed by.\<close>

abbreviation stops :: "cursor \<Rightarrow> bool" where
  "stops d \<equiv> cu_rest d = [] \<or> ends_word Strict (cu_rest d)"

lemma stops_at: "cu_peek d = Some b \<Longrightarrow> b \<in> {CHR ''.'', CHR '' '', CHR '','', CHR '')''} \<Longrightarrow> stops d"
  by (auto simp: cu_peek_rest ends_word_def is_ascii_alphanumeric_def is_ascii_digit_def
      is_ascii_lowercase_def is_ascii_uppercase_def byte_def)

lemma cu_reads_split:
  assumes "cu_reads c (s @ t) d"
  shows "\<exists>m. cu_reads c s m \<and> cu_reads m t d"
proof -
  obtain r where "cu_rest c = s @ t @ r"
    using assms by (auto simp: cu_reads_def prefix_def)
  then show ?thesis
    using assms by (intro exI [of _ "cu_skip (length s) c"]) (simp add: cu_reads_def)
qed

lemma path_segments_complete:
  assumes "json_ok json" "list_all utf8 path" "path \<noteq> []" "cu_reads c (segments_print json path) d"
    and "stops d" "cu_peek d \<noteq> Some (CHR ''.'')"
  shows "path_segments json ss c = Inr (ss @ path, d)"
  using assms
proof (induction path arbitrary: ss c)
  case (Cons w path)
  show ?case
  proof (cases "path = []")
    case True
    with Cons.prems have "cu_word json is_bare_segment ''a bare or quoted field name'' c = Inr (w, d)"
      by (intro word_complete) auto
    with Cons.prems(6) True show ?thesis
      by (simp add: path_segments.simps)
  next
    case False
    then obtain e where e: "cu_reads c (write_word json w is_bare_segment) e" "cu_reads e (''.'' @ segments_print json path) d"
      using Cons.prems(4) cu_reads_split [of c "write_word json w is_bare_segment"] by auto
    then obtain f where f: "cu_reads e ''.'' f" "cu_reads f (segments_print json path) d"
      using cu_reads_split by blast
    have dot: "cu_peek e = Some (CHR ''.'')" "f = cu_skip 1 e"
      using f(1) by (simp_all add: cu_reads_next)
    then have "stops e"
      by (simp add: stops_at)
    with Cons.prems e(1) have "cu_word json is_bare_segment ''a bare or quoted field name'' c = Inr (w, e)"
      by (intro word_complete) auto
    moreover have "path_segments json (ss @ [w]) f = Inr ((ss @ [w]) @ path, d)"
      using Cons.prems f(2) False by (intro Cons.IH) auto
    ultimately show ?thesis
      using dot by (subst path_segments.simps) simp
  qed
qed simp

lemma write_word_head:
  assumes "json_ok json" "utf8 w"
  shows "\<exists>b r. write_word json w is_bare_segment = b # r
    \<and> b \<notin> {CHR '' '', CHR 0x09, CHR 0x0A, CHR 0x0D}"
proof (cases "is_bare_segment w")
  case True
  then show ?thesis
    by (cases w) (auto simp: write_word_def is_bare_segment_def is_ascii_alphanumeric_def is_ascii_digit_def
        is_ascii_lowercase_def is_ascii_uppercase_def byte_def)
next
  case False
  then show ?thesis
    using assms by (auto simp: json_ok_def write_word_def)
qed

lemma field_path_sound:
  assumes "cu_field_path json c = Inr (path, d)" "cu_mode c = Strict"
  shows "cu_reads c (path_print json path) d"
proof -
  define blank where
    "blank = (cu_peek (cu_skip 1 c) \<in> {None, Some (CHR '' ''), Some (CHR 0x09), Some (CHR 0x0A), Some (CHR 0x0D)})"
  have run: "cu_field_path json c =
      (if cu_peek c \<noteq> Some (CHR ''.'') then Inl (cu_syntax c ''a field path starting with `.`'')
       else if blank then Inr ([], cu_skip 1 c) else path_segments json [] (cu_skip 1 c))"
    by (simp only: cu_field_path_def Let_def blank_def)
  have dot: "cu_reads c ''.'' (cu_skip 1 c)"
    using assms by (simp add: run cu_reads_next split: if_splits)
  consider "path = []" "d = cu_skip 1 c" | "path_segments json [] (cu_skip 1 c) = Inr (path, d)"
    using assms(1) by (cases blank) (simp_all add: run split: if_splits)
  then show ?thesis
  proof cases
    case 1
    with dot show ?thesis
      by (simp add: path_print_def)
  next
    case 2
    with path_segments_sound [OF 2] cu_reads_mode [OF dot] have "cu_reads (cu_skip 1 c) (segments_print json path) d"
      by auto
    with cu_reads_trans [OF dot] show ?thesis
      by (simp add: path_print_segments)
  qed
qed

lemma field_path_complete:
  assumes "json_ok json" "list_all utf8 path" "cu_reads c (path_print json path) d"
    and "cu_rest d = [] \<or> cu_peek d = Some (CHR '' '')"
  shows "cu_field_path json c = Inr (path, d)"
proof -
  obtain e where e: "cu_reads c ''.'' e" "cu_reads e (segments_print json path) d"
    using assms(3) cu_reads_split unfolding path_print_segments by blast
  then have dot: "cu_peek c = Some (CHR ''.'')" "e = cu_skip 1 c"
    by (simp_all add: cu_reads_next)
  show ?thesis
  proof (cases path)
    case Nil
    then have "d = e"
      using e(2) by (simp add: cu_reads_def cu_skip_def)
    with assms(4) dot Nil show ?thesis
      by (auto simp: cu_field_path_def cu_peek_rest(2))
  next
    case (Cons w ws)
    obtain b r where "write_word json w is_bare_segment = b # r" "b \<notin> {CHR '' '', CHR 0x09, CHR 0x0A, CHR 0x0D}"
      using write_word_head [OF assms(1), of w] assms(2) Cons by auto
    then have "cu_peek e \<notin> {None, Some (CHR '' ''), Some (CHR 0x09), Some (CHR 0x0A), Some (CHR 0x0D)}"
      using cu_reads_rest [OF e(2)] Cons by (simp add: cu_peek_def)
    moreover have "path_segments json [] e = Inr ([] @ path, d)"
      using assms e(2) Cons stops_at [of d "CHR '' ''"]
      by (intro path_segments_complete) (auto simp: cu_peek_rest)
    ultimately show ?thesis
      using dot by (auto simp: cu_field_path_def Let_def)
  qed
qed

lemma separator_strict:
  "cu_mode c = Strict \<Longrightarrow> cu_separator c = Inr d \<longleftrightarrow> cu_reads c '' '' d"
  by (cases "cu_rest c") (auto simp: cu_separator_def cu_reads_next cu_peek_rest)

lemma token_sound: "cu_token c = (token, d) \<Longrightarrow> cu_mode c = Strict \<Longrightarrow> cu_reads c token d"
  using token_of_append [of "cu_rest c"] by (auto simp: cu_token_def cu_reads_def Let_def intro: prefixI [OF sym])

lemma token_of_plain:
  assumes "list_all (\<lambda>b. 33 \<le> byte b \<and> byte b < 128) w" "s = [] \<or> whitespace_len s > 0"
  shows "token_of (w @ s) = (w, s)"
  using assms
proof (induction w)
  case Nil
  then show ?case
    by (cases s) auto
next
  case (Cons b w)
  then have "whitespace_len (b # w @ s) = 0"
    by (cases "take 2 (w @ s)") (auto simp: whitespace_len_def)
  with Cons show ?case
    by simp
qed

lemma token_complete:
  assumes "cu_reads c w d" "list_all (\<lambda>b. 33 \<le> byte b \<and> byte b < 128) w" "cu_peek d = Some (CHR '' '')"
  shows "cu_token c = (w, d)"
proof -
  have "whitespace_len (cu_rest d) > 0"
    using assms(3) by (auto simp: cu_peek_rest whitespace_len_def byte_def)
  then have "token_of (cu_rest c) = (w, cu_rest d)"
    unfolding cu_reads_rest [OF assms(1)] by (intro token_of_plain [OF assms(2)]) simp
  then show ?thesis
    using assms(1) by (simp add: cu_token_def cu_reads_def)
qed

lemma operator_from_operator_str [simp]: "operator_from_str (operator_str p) = Inr p"
  by (cases p) (simp_all add: operator_from_str_def operator_all_def)

lemma operator_from_str_iff: "operator_from_str token = Inr p \<longleftrightarrow> token = operator_str p"
proof
  assume "operator_from_str token = Inr p"
  then have "find (\<lambda>p. operator_str p = token) operator_all = Some p"
    by (simp add: operator_from_str_def split: option.splits)
  then show "token = operator_str p"
    unfolding find_Some_iff by blast
qed simp

lemma literal_sound:
  assumes "cu_literal json c = Inr (w, d)" "cu_mode c = Strict"
  shows "cu_reads c (write_word json w is_bare_literal) d \<and> cu_rest d = []"
proof (cases "starts_with (CHR 0x22) (cu_rest c)")
  case True
  then have "cu_quoted json is_bare_literal c = Inr (w, d)" "cu_end d = Inr ()"
    using assms(1) by (auto simp: cu_literal_def Let_def split: sum.splits)
  then show ?thesis
    using quoted_sound assms(2) by (auto simp: cu_end_def split: if_splits)
next
  case False
  then have w: "is_bare_literal w" "w = cu_rest c" "d = c\<lparr>cu_position := length (cu_text c)\<rparr>"
    using assms by (auto simp: cu_literal_def Let_def split: if_splits)
  then have "cu_position c < length (cu_text c)"
    by (cases "cu_position c < length (cu_text c)") (auto simp: is_bare_literal_def cu_rest_def)
  then have "d = cu_skip (length w) c" "cu_rest d = []"
    using w(2,3) by (simp_all add: cu_skip_def cu_rest_def)
  then show ?thesis
    using w(1,2) assms(2) by (simp add: cu_reads_def write_word_def)
qed

lemma literal_complete:
  assumes "json_ok json" "utf8 w" "cu_reads c (write_word json w is_bare_literal) d" "cu_rest d = []"
  shows "cu_literal json c = Inr (w, d)"
proof (cases "is_bare_literal w")
  case True
  have rest: "cu_rest c = w"
    using cu_reads_rest [OF assms(3)] assms(4) True by (simp add: write_word_def)
  then have "\<not> starts_with (CHR 0x22) w" "cu_position c < length (cu_text c)"
    using True by (cases w, auto simp: is_bare_literal_def is_ascii_alphanumeric_def is_ascii_digit_def
        is_ascii_lowercase_def is_ascii_uppercase_def byte_def cu_rest_def intro: ccontr)
  moreover from this rest have "cu_skip (length w) c = c\<lparr>cu_position := length (cu_text c)\<rparr>"
    by (auto simp: cu_skip_def cu_rest_def)
  ultimately show ?thesis
    using assms(3) True rest by (simp add: cu_literal_def cu_reads_def write_word_def)
next
  case False
  show ?thesis
    using quoted_complete [OF assms(1,2) False assms(3)] assms(4)
    by (auto simp: cu_literal_def cu_peek_rest cu_end_def)
qed

lemma comparison_sound:
  assumes "cu_comparison json c = Inr ((path, oper, w), d)" "cu_mode c = Strict"
  shows "cu_reads c (comparison_print json path oper w) d \<and> cu_rest d = []"
proof -
  obtain c1 c2 token c3 c4 where
    run: "cu_field_path json c = Inr (path, c1)" "cu_separator c1 = Inr c2" "cu_token c2 = (token, c3)"
      "operator_from_str token = Inr oper" "cu_separator c3 = Inr c4" "cu_literal json c4 = Inr (w, d)"
    using assms(1) by (auto simp: cu_comparison_def split: sum.splits prod.splits)
  note r1 = field_path_sound [OF run(1) assms(2)]
  have r2: "cu_reads c1 '' '' c2"
    using run(2) cu_reads_mode [OF r1] by (simp add: separator_strict)
  have r3: "cu_reads c2 (operator_str oper) c3"
    using token_sound [OF run(3) cu_reads_mode [OF r2]] run(4) by (simp add: operator_from_str_iff)
  have r4: "cu_reads c3 '' '' c4"
    using run(5) cu_reads_mode [OF r3] by (simp add: separator_strict)
  have "cu_reads c4 (write_word json w is_bare_literal) d \<and> cu_rest d = []"
    by (rule literal_sound [OF run(6) cu_reads_mode [OF r4]])
  then show ?thesis
    using cu_reads_trans [OF r1 cu_reads_trans [OF r2 cu_reads_trans [OF r3 cu_reads_trans [OF r4]]]]
    by (simp add: comparison_print_def)
qed

lemma comparison_complete:
  assumes "json_ok json" "list_all utf8 path" "utf8 w" "cu_reads c (comparison_print json path oper w) d" "cu_rest d = []"
  shows "cu_comparison json c = Inr ((path, oper, w), d)"
proof -
  obtain c1 c2 c3 c4 where r: "cu_reads c (path_print json path) c1" "cu_reads c1 '' '' c2"
    "cu_reads c2 (operator_str oper) c3" "cu_reads c3 '' '' c4" "cu_reads c4 (write_word json w is_bare_literal) d"
    using assms(4) unfolding comparison_print_def by (meson cu_reads_split)
  have "cu_field_path json c = Inr (path, c1)"
    using field_path_complete [OF assms(1,2) r(1)] r(2) by (simp add: cu_reads_next)
  moreover have "cu_separator c1 = Inr c2" "cu_separator c3 = Inr c4"
    using r by (simp_all add: separator_strict cu_reads_mode [OF r(1)] cu_reads_mode [OF r(3)])
  moreover have "cu_token c2 = (operator_str oper, c3)"
    using r(3,4) by (intro token_complete) (cases oper; simp add: cu_reads_next byte_def)+
  moreover have "cu_literal json c4 = Inr (w, d)"
    by (rule literal_complete [OF assms(1,3) r(5) assms(5)])
  ultimately show ?thesis
    by (simp add: cu_comparison_def)
qed

abbreviation arguments_print :: "json \<Rightarrow> string list \<Rightarrow> string" where
  "arguments_print json ws \<equiv> join '','' (map (\<lambda>w. write_word json w is_bare_segment) ws)"

lemma arguments_sound:
  assumes "variable_arguments json ws c = Inr (vs, d)" "cu_mode c = Strict"
  shows "\<exists>us. us \<noteq> [] \<and> vs = ws @ us \<and> cu_reads c (arguments_print json us @ '')'') d"
  using assms
proof (induction json ws c rule: variable_arguments.induct)
  case (1 json ws c)
  obtain w e where e: "cu_word json is_bare_segment ''a bare or quoted argument'' c = Inr (w, e)"
    using "1.prems"(1) by (subst (asm) variable_arguments.simps) (auto split: sum.splits)
  note word = word_sound [OF e "1.prems"(2)]
  show ?case
  proof (cases "cu_peek e = Some (CHR '','')")
    case True
    then have "variable_arguments json (ws @ [w]) (cu_skip 1 e) = Inr (vs, d)"
      using "1.prems"(1) e by (subst (asm) variable_arguments.simps) simp
    with "1.IH" [OF e] True cu_reads_mode [OF word] obtain us where us: "us \<noteq> []" "vs = (ws @ [w]) @ us"
      "cu_reads (cu_skip 1 e) (arguments_print json us @ '')'') d"
      by auto
    have comma: "cu_reads e '','' (cu_skip 1 e)"
      using True cu_reads_mode [OF word] by (simp add: cu_reads_next)
    have "cu_reads c (arguments_print json (w # us) @ '')'') d"
      using cu_reads_trans [OF word cu_reads_trans [OF comma us(3)]] us(1) by (simp add: join_Cons)
    with us show ?thesis
      by (intro exI [of _ "w # us"]) simp
  next
    case False
    then have "vs = ws @ [w]" "d = cu_skip 1 e" "cu_peek e = Some (CHR '')'')"
      using "1.prems"(1) e by (auto simp: variable_arguments.simps [of _ _ c] split: if_splits)
    then have "cu_reads c (arguments_print json [w] @ '')'') d"
      using cu_reads_trans [OF word, of "'')''" d] cu_reads_mode [OF word] by (simp add: cu_reads_next)
    with \<open>vs = ws @ [w]\<close> show ?thesis
      by (intro exI [of _ "[w]"]) simp
  qed
qed

lemma arguments_complete:
  assumes "json_ok json" "list_all utf8 us" "us \<noteq> []" "cu_reads c (arguments_print json us @ '')'') d"
  shows "variable_arguments json ws c = Inr (ws @ us, d)"
  using assms
proof (induction us arbitrary: ws c)
  case (Cons w us)
  let ?tail = "if us = [] then '')'' else '','' @ arguments_print json us @ '')''"
  have "cu_reads c (write_word json w is_bare_segment @ ?tail) d"
    using Cons.prems(4) by (cases us) auto
  then obtain e where e: "cu_reads c (write_word json w is_bare_segment) e" "cu_reads e ?tail d"
    using cu_reads_split by blast
  show ?case
  proof (cases "us = []")
    case True
    then have last: "cu_peek e = Some (CHR '')'')" "d = cu_skip 1 e"
      using e(2) by (simp_all add: cu_reads_next)
    then have "cu_word json is_bare_segment ''a bare or quoted argument'' c = Inr (w, e)"
      using Cons.prems(1,2) e(1) stops_at [OF last(1)] by (intro word_complete) auto
    with last True show ?thesis
      by (simp add: variable_arguments.simps [of _ _ c])
  next
    case False
    then obtain f where f: "cu_reads e '','' f" "cu_reads f (arguments_print json us @ '')'') d"
      using e(2) cu_reads_split [of e "'',''"] by auto
    then have comma: "cu_peek e = Some (CHR '','')" "f = cu_skip 1 e"
      by (simp_all add: cu_reads_next)
    then have "cu_word json is_bare_segment ''a bare or quoted argument'' c = Inr (w, e)"
      using Cons.prems(1,2) e(1) stops_at [OF comma(1)] by (intro word_complete) auto
    moreover have "variable_arguments json (ws @ [w]) f = Inr ((ws @ [w]) @ us, d)"
      using Cons.prems f(2) False by (intro Cons.IH) auto
    ultimately show ?thesis
      using comma by (subst variable_arguments.simps) simp
  qed
qed simp

lemma variable_name_chars: "is_ok (variable_new name ws) \<Longrightarrow> list_all name_char name"
  by (cases name) (auto simp: variable_new_def is_ok_def name_char_def list_all_iff split: if_splits)

lemma variable_new_Inr: "variable_new name ws = Inr v \<longleftrightarrow> is_ok (variable_new name []) \<and> v = \<lparr>vr_name = name, vr_arguments = ws\<rparr>"
  by (auto simp: variable_new_def is_ok_def)

lemma variable_sound:
  assumes "cu_variable json c = Inr (v, d)" "cu_mode c = Strict"
  shows "cu_reads c (variable_print json v) d \<and> is_ok (variable_new (vr_name v) [])"
proof -
  define name where "name = takeWhile name_char (cu_rest (cu_skip 1 c))"
  define c2 where "c2 = cu_skip (length name) (cu_skip 1 c)"
  define args where
    "args = (if cu_peek c2 = Some (CHR ''('') then variable_arguments json [] (cu_skip 1 c2) else Inr ([], c2))"
  have run: "cu_variable json c = (if cu_peek c \<noteq> Some (CHR ''$'') then Inl (cu_syntax c ''a `$` variable'')
      else case args of Inl e \<Rightarrow> Inl e
        | Inr (arguments, c3) \<Rightarrow> (case variable_new name arguments of Inl e \<Rightarrow> Inl e | Inr v \<Rightarrow> Inr (v, c3)))"
    by (simp only: cu_variable_def Let_def name_def c2_def args_def)
  have dollar: "cu_reads c ''$'' (cu_skip 1 c)"
    using assms by (simp add: run cu_reads_next split: if_splits)
  have named: "cu_reads (cu_skip 1 c) name c2"
    using cu_reads_mode [OF dollar] by (simp add: cu_reads_def name_def c2_def prefix_def) (metis takeWhile_dropWhile_id)
  note start = cu_reads_trans [OF dollar named]
  have v: "v = \<lparr>vr_name = name, vr_arguments = vr_arguments v\<rparr>" "is_ok (variable_new name [])"
    and arguments: "args = Inr (vr_arguments v, d)"
    using assms(1) by (auto simp: run variable_new_Inr split: sum.splits if_splits)
  show ?thesis
  proof (cases "cu_peek c2 = Some (CHR ''('')")
    case True
    then have bracket: "cu_reads c2 ''('' (cu_skip 1 c2)"
      using cu_reads_mode [OF named] by (simp add: cu_reads_next)
    obtain us where "us \<noteq> []" "vr_arguments v = [] @ us" "cu_reads (cu_skip 1 c2) (arguments_print json us @ '')'') d"
      using arguments_sound [of json "[]" "cu_skip 1 c2"] arguments True cu_reads_mode [OF bracket]
      by (auto simp: args_def)
    with cu_reads_trans [OF start cu_reads_trans [OF bracket]] v show ?thesis
      by (cases v) (simp add: variable_print_def)
  next
    case False
    with start v arguments show ?thesis
      by (cases v) (simp add: variable_print_def args_def)
  qed
qed

lemma variable_complete:
  assumes "json_ok json" "variable_ok v" "cu_reads c (variable_print json v) d" "cu_peek d = Some (CHR '' '')"
  shows "cu_variable json c = Inr (v, d)"
proof -
  let ?tail = "if vr_arguments v = [] then [] else ''('' @ arguments_print json (vr_arguments v) @ '')''"
  obtain c1 c2 where r: "cu_reads c ''$'' c1" "cu_reads c1 (vr_name v) c2" "cu_reads c2 ?tail d"
    using assms(3) unfolding variable_print_def by (meson cu_reads_split)
  then have dollar: "cu_peek c = Some (CHR ''$'')" "c1 = cu_skip 1 c"
    by (simp_all add: cu_reads_next)
  have ok: "is_ok (variable_new (vr_name v) [])" "list_all utf8 (vr_arguments v)"
    using assms(2) by (simp_all add: variable_ok_def)
  have "cu_rest c2 = ?tail @ cu_rest d"
    by (rule cu_reads_rest [OF r(3)])
  moreover obtain t where "cu_rest d = CHR '' '' # t"
    using assms(4) by (auto simp: cu_peek_rest)
  ultimately have after: "cu_rest c2 = (if vr_arguments v = [] then CHR '' '' # t else CHR ''('' # tl (cu_rest c2))"
    by simp
  have "\<not> name_char (CHR '' '')" "\<not> name_char (CHR ''('')"
    by (simp_all add: name_char_def is_ascii_lowercase_def is_ascii_digit_def byte_def)
  then have "takeWhile name_char (cu_rest c2) = []"
    by (subst after) simp
  then have name: "takeWhile name_char (cu_rest c1) = vr_name v"
    using variable_name_chars [OF ok(1)] cu_reads_rest [OF r(2)] by (simp add: list_all_iff)
  have c2: "c2 = cu_skip (length (vr_name v)) c1"
    using r(2) by (simp add: cu_reads_def)
  have "(if cu_peek c2 = Some (CHR ''('') then variable_arguments json [] (cu_skip 1 c2) else Inr ([], c2))
      = Inr (vr_arguments v, d)"
  proof (cases "vr_arguments v = []")
    case True
    then have "d = c2" "cu_peek c2 \<noteq> Some (CHR ''('')"
      using r(3) after by (simp_all add: cu_reads_def cu_skip_def cu_peek_rest)
    with True show ?thesis
      by simp
  next
    case False
    then obtain c3 where c3: "cu_reads c2 ''('' c3" "cu_reads c3 (arguments_print json (vr_arguments v) @ '')'') d"
      using r(3) cu_reads_split [of c2 "''(''"] by auto
    then show ?thesis
      using arguments_complete [OF assms(1) ok(2) False c3(2), of "[]"] by (simp add: cu_reads_next)
  qed
  moreover have "variable_new (vr_name v) (vr_arguments v) = Inr v"
    using ok(1) by (cases v) (simp add: variable_new_Inr)
  ultimately show ?thesis
    unfolding cu_variable_def Let_def dollar(2) [symmetric] name c2 [symmetric] by (simp add: dollar(1))
qed

section \<open>Round trips\<close>

definition template_ok :: "template \<Rightarrow> bool" where
  "template_ok t \<longleftrightarrow> variable_ok (tp_subject t) \<and> list_all utf8 (tp_path t) \<and> utf8 (tp_literal t)"

definition condition_ok :: "casing \<Rightarrow> condition \<Rightarrow> bool" where
  "condition_ok low c \<longleftrightarrow> address_wf low (cn_address c) \<and> address_complete (cn_address c)
    \<and> list_all utf8 (cn_path c) \<and> utf8 (cn_literal c)"

lemma template_sound:
  assumes "template_from_str json str = Inr t"
  shows "str = template_print json t \<and> is_ok (variable_new (vr_name (tp_subject t)) [])"
proof -
  obtain c c1 d where run: "cu_variable json (cursor_new str Strict) = Inr (tp_subject t, c)" "cu_separator c = Inr c1"
    "cu_comparison json c1 = Inr ((tp_path t, tp_operator t, tp_literal t), d)"
    using assms by (auto simp: template_from_str_def split: sum.splits)
  have r1: "cu_reads (cursor_new str Strict) (variable_print json (tp_subject t)) c"
    and ok: "is_ok (variable_new (vr_name (tp_subject t)) [])"
    using variable_sound [OF run(1)] by simp_all
  have r2: "cu_reads c '' '' c1"
    using run(2) cu_reads_mode [OF r1] by (simp add: separator_strict)
  have "cu_reads c1 (comparison_print json (tp_path t) (tp_operator t) (tp_literal t)) d" and ended: "cu_rest d = []"
    using comparison_sound [OF run(3) cu_reads_mode [OF r2]] by simp_all
  from cu_reads_rest [OF cu_reads_trans [OF r1 cu_reads_trans [OF r2 this(1)]]] ended ok show ?thesis
    by (simp add: template_print_def)
qed

lemma template_complete:
  assumes "json_ok json" "template_ok t"
  shows "template_from_str json (template_print json t) = Inr t"
proof -
  let ?c = "cursor_new (template_print json t) Strict"
  let ?d = "cu_skip (length (template_print json t)) ?c"
  have "cu_reads ?c (template_print json t) ?d" and ended: "cu_rest ?d = []"
    by (simp_all add: cu_reads_def)
  then obtain c1 c2 where r: "cu_reads ?c (variable_print json (tp_subject t)) c1" "cu_reads c1 '' '' c2"
    "cu_reads c2 (comparison_print json (tp_path t) (tp_operator t) (tp_literal t)) ?d"
    unfolding template_print_def by (meson cu_reads_split)
  have "cu_variable json ?c = Inr (tp_subject t, c1)"
    using variable_complete [OF assms(1) _ r(1)] assms(2) r(2) by (simp add: template_ok_def cu_reads_next)
  moreover have "cu_separator c1 = Inr c2"
    using r(2) cu_reads_mode [OF r(1)] by (simp add: separator_strict)
  moreover have "cu_comparison json c2 = Inr ((tp_path t, tp_operator t, tp_literal t), ?d)"
    using comparison_complete [OF assms(1) _ _ r(3) ended] assms(2) by (simp add: template_ok_def)
  ultimately show ?thesis
    by (simp add: template_from_str_def)
qed

lemma condition_sound:
  assumes "condition_from_str low json str = Inr k"
  shows "str = condition_print json k \<and> address_wf low (cn_address k) \<and> address_complete (cn_address k)"
proof -
  obtain token c c1 d where run: "cu_token (cursor_new str Strict) = (token, c)" "address_from_str low token = Inr (cn_address k)"
    "cu_separator c = Inr c1" "cu_comparison json c1 = Inr ((cn_path k, cn_operator k, cn_literal k), d)"
    using assms by (auto simp: condition_from_str_def split: sum.splits prod.splits)
  have r1: "cu_reads (cursor_new str Strict) (ad_text (cn_address k)) c"
    and a: "address_wf low (cn_address k)" "address_complete (cn_address k)"
    using token_sound [OF run(1)] run(2) by (auto simp: address_from_str_iff)
  have r2: "cu_reads c '' '' c1"
    using run(3) cu_reads_mode [OF r1] by (simp add: separator_strict)
  have "cu_reads c1 (comparison_print json (cn_path k) (cn_operator k) (cn_literal k)) d" and ended: "cu_rest d = []"
    using comparison_sound [OF run(4) cu_reads_mode [OF r2]] by simp_all
  from cu_reads_rest [OF cu_reads_trans [OF r1 cu_reads_trans [OF r2 this(1)]]] ended a show ?thesis
    by (simp add: condition_print_def)
qed

lemma address_text_plain:
  assumes "address_wf low a"
  shows "list_all (\<lambda>b. 33 \<le> byte b \<and> byte b < 128) (ad_text a)"
proof -
  have encoded: "list_all (\<lambda>b. 33 \<le> byte b \<and> byte b < 128) (encode v)" for v
    using encode_plain [of _ v] by (force simp: list_all_iff is_unreserved_def is_ascii_alphanumeric_def
        is_ascii_digit_def is_ascii_lowercase_def is_ascii_uppercase_def byte_def)
  moreover have "list_all (\<lambda>b. 33 \<le> byte b \<and> byte b < 128) (kind_str k)" for k
    using kind_str_plain by (force simp: list_all_iff is_ascii_lowercase_def)
  ultimately have piece: "p \<in> set (pieces a) \<Longrightarrow> list_all (\<lambda>b. 33 \<le> byte b \<and> byte b < 128) p" for p
    by (auto simp: pieces_def piece_def of_piece_def OF_def byte_def split: option.splits)
  have "(\<And>p. p \<in> set ps \<Longrightarrow> list_all (\<lambda>b. 33 \<le> byte b \<and> byte b < 128) p) \<Longrightarrow>
      list_all (\<lambda>b. 33 \<le> byte b \<and> byte b < 128) (join ''/'' ps)" for ps
  proof (induction ps)
    case (Cons p ps)
    then show ?case
      by (cases ps) (auto simp: byte_def)
  qed simp
  with piece assms show ?thesis
    by (simp add: address_wf_def)
qed

lemma condition_complete:
  assumes "json_ok json" "condition_ok low k"
  shows "condition_from_str low json (condition_print json k) = Inr k"
proof -
  let ?c = "cursor_new (condition_print json k) Strict"
  let ?d = "cu_skip (length (condition_print json k)) ?c"
  have "cu_reads ?c (condition_print json k) ?d" and ended: "cu_rest ?d = []"
    by (simp_all add: cu_reads_def)
  then obtain c1 c2 where r: "cu_reads ?c (ad_text (cn_address k)) c1" "cu_reads c1 '' '' c2"
    "cu_reads c2 (comparison_print json (cn_path k) (cn_operator k) (cn_literal k)) ?d"
    unfolding condition_print_def by (meson cu_reads_split)
  have "address_from_str low (ad_text (cn_address k)) = Inr (cn_address k)"
    using assms(2) by (simp add: condition_ok_def address_from_str_iff)
  moreover have "cu_token ?c = (ad_text (cn_address k), c1)"
    using r(2) assms(2) address_text_plain by (intro token_complete [OF r(1)]) (auto simp: cu_reads_next condition_ok_def)
  moreover have "cu_separator c1 = Inr c2"
    using r(2) cu_reads_mode [OF r(1)] by (simp add: separator_strict)
  moreover have "cu_comparison json c2 = Inr ((cn_path k, cn_operator k, cn_literal k), ?d)"
    using comparison_complete [OF assms(1) _ _ r(3) ended] assms(2) by (simp add: condition_ok_def)
  ultimately show ?thesis
    by (simp add: condition_from_str_def)
qed

section \<open>Properties\<close>

text \<open>
  C18: The strict grammar of conditions and templates is the printer's. Whatever the strict parser
  accepts it prints back to the very text, and every template and condition over \<open>str\<close> values, with
  a valid variable or a complete address, parses back from the text it prints: quoting, the empty
  path, arguments and operators included.
\<close>

theorem conditions_roundtrip:
  assumes "json_ok json"
  shows "(template_from_str json str = Inr t \<longrightarrow> template_print json t = str)
    \<and> (template_ok t \<longrightarrow> template_from_str json (template_print json t) = Inr t)
    \<and> (condition_from_str low json str = Inr k \<longrightarrow> condition_print json k = str)
    \<and> (condition_ok low k \<longrightarrow> condition_from_str low json (condition_print json k) = Inr k)"
  using template_sound template_complete [OF assms] condition_sound condition_complete [OF assms] by blast

section \<open>Witnesses\<close>

text \<open>A JSON writer and reader that escape quotes and backslashes.\<close>

definition demo_escape :: "char \<Rightarrow> string" where
  "demo_escape b = (if b = CHR 0x22 \<or> b = CHR 0x5C then [CHR 0x5C, b] else [b])"

fun demo_unescape :: "string \<Rightarrow> string option" where
  "demo_unescape [] = None"
| "demo_unescape (b # bs) =
    (if b = CHR 0x22 then (if bs = [] then Some [] else None)
     else if b = CHR 0x5C then (case bs of [] \<Rightarrow> None | e # rest \<Rightarrow> map_option ((#) e) (demo_unescape rest))
     else map_option ((#) b) (demo_unescape bs))"

definition demo_json :: json where
  "demo_json =
    \<lparr>js_to_string = (\<lambda>w. CHR 0x22 # concat (map demo_escape w) @ [CHR 0x22]),
     js_from_str = (\<lambda>s. if starts_with (CHR 0x22) s then demo_unescape (tl s) else None)\<rparr>"

lemma demo_json_ok: "json_ok demo_json"
proof -
  have "demo_unescape (concat (map demo_escape w) @ [CHR 0x22]) = Some w" for w
    by (induction w) (auto simp: demo_escape_def)
  moreover have "json_body (concat (map demo_escape w))" for w
    by (induction w) (auto simp: demo_escape_def)
  ultimately show ?thesis
    by (simp add: json_ok_def demo_json_def)
qed

definition demo_template :: template where
  "demo_template =
    \<lparr>tp_subject = \<lparr>vr_name = ''artifact'', vr_arguments = [''reviewer'', ''a b''] \<rparr>,
     tp_path = [''labels'', ''good first issue''], tp_operator = NotEqual, tp_literal = ''in review''\<rparr>"

theorem conditions_roundtrip_witness:
  "template_from_str demo_json (template_print demo_json demo_template) = Inr demo_template"
proof -
  have "template_ok demo_template"
    by code_simp
  then show ?thesis
    using conditions_roundtrip [OF demo_json_ok] by blast
qed

end
