(* ===== verification/Convoy_Spec.thy ===== *)
theory Convoy_Spec
  imports Home Conditions
begin

text \<open>
  What a convoy is: the types of \<open>src/crates/flotilla-state-machines/src/machines/convoy.rs\<close> (its
  seats, promises, duties, spec and states) and the identifiers placement shares with it.

  Addresses are represented by their canonical texts: the machine compares them and never looks
  inside. A promise kind's rules are condition templates. The lemmas relate the lookups by promise id and by seat name
  to the rows.
\<close>

section \<open>Identifiers\<close>

datatype convoy_id = ConvoyId (cv_name: string) (cv_home: string)

datatype seat_name = SeatName (sn_role: string) (sn_seat: string)

instantiation convoy_id :: linorder
begin

definition less_eq_convoy_id :: "convoy_id \<Rightarrow> convoy_id \<Rightarrow> bool" where
  "less_eq_convoy_id a b \<longleftrightarrow> (cv_name a, cv_home a) \<le> (cv_name b, cv_home b)"

definition less_convoy_id :: "convoy_id \<Rightarrow> convoy_id \<Rightarrow> bool" where
  "less_convoy_id a b \<longleftrightarrow> (cv_name a, cv_home a) < (cv_name b, cv_home b)"

instance
  by standard
    (auto simp: less_eq_convoy_id_def less_convoy_id_def less_le_not_le intro: convoy_id.expand)

end

instantiation seat_name :: linorder
begin

definition less_eq_seat_name :: "seat_name \<Rightarrow> seat_name \<Rightarrow> bool" where
  "less_eq_seat_name a b \<longleftrightarrow> (sn_role a, sn_seat a) \<le> (sn_role b, sn_seat b)"

definition less_seat_name :: "seat_name \<Rightarrow> seat_name \<Rightarrow> bool" where
  "less_seat_name a b \<longleftrightarrow> (sn_role a, sn_seat a) < (sn_role b, sn_seat b)"

instance
  by standard
    (auto simp: less_eq_seat_name_def less_seat_name_def less_le_not_le intro: seat_name.expand)

end

type_synonym promise_id = nat
type_synonym duty_id = nat
type_synonym priority = nat
type_synonym vessel_class = string
type_synonym quota = "(vessel_class, nat) btree_map"

section \<open>Seats, promises and duties\<close>

record seat =
  s_role :: string
  s_seat :: string
  s_parent :: "seat_name option"
  s_supervised_by :: string
  s_retired :: bool
  s_replacements :: nat

definition seat_name_of :: "seat \<Rightarrow> seat_name" where
  "seat_name_of s = SeatName (s_role s) (s_seat s)"

datatype promise_source = Template | Dispatch | Crew

datatype progress = PPending | Submitted | Kept | Retracted

record submission =
  sb_address :: string
  sb_revision :: string
  sb_by :: seat_name

record promise =
  p_id :: promise_id
  p_label :: string
  p_kind :: string
  p_target :: string
  p_source :: promise_source
  p_owner :: seat_name
  p_progress :: "progress state_at"
  p_submissions :: "submission records"

datatype duty_scope = Lifetime | WhileOpen "promise_id btree_set"

record terms =
  t_reply_within :: "nat option"
  t_heartbeat :: "nat option"
  t_note :: "string option"

record duty =
  d_owner :: seat_name
  d_scope :: duty_scope
  d_terms :: terms

record promise_kind =
  pk_durable :: "template list"
  pk_ready :: "template list"
  pk_kept :: "template list"

type_synonym promise_kinds = "(string, promise_kind) btree_map"

record convoy_spec =
  cs_project :: string
  cs_promise_floor :: nat
  cs_priority :: priority
  cs_kinds :: promise_kinds
  cs_duties :: "(duty_id, duty) btree_map"
  cs_seats :: "seat records"
  cs_promises :: "promise records"

section \<open>States\<close>

datatype convoy_state =
  Open quota "duty_id btree_set"
| Delivered quota "duty_id btree_set"
| Abandoned quota "duty_id btree_set" string

fun convoy_quota :: "convoy_state \<Rightarrow> quota" where
  "convoy_quota (Open q r) = q"
| "convoy_quota (Delivered q r) = q"
| "convoy_quota (Abandoned q r w) = q"

fun convoy_retired :: "convoy_state \<Rightarrow> duty_id btree_set" where
  "convoy_retired (Open q r) = r"
| "convoy_retired (Delivered q r) = r"
| "convoy_retired (Abandoned q r w) = r"

fun convoy_reason :: "convoy_state \<Rightarrow> string option" where
  "convoy_reason (Abandoned q r w) = Some w"
| "convoy_reason _ = None"

section \<open>Views of the records\<close>

definition promise_open :: "promise \<Rightarrow> bool" where
  "promise_open p \<longleftrightarrow> st_value (p_progress p) = PPending \<or> st_value (p_progress p) = Submitted"

definition find_promise :: "convoy_spec \<Rightarrow> promise_id \<Rightarrow> (nat \<times> promise) option" where
  "find_promise spec i =
    map_option (\<lambda>row. (row_position row, row_record row))
      (find (\<lambda>row. p_id (row_record row) = i) (cs_promises spec))"

definition find_seat :: "convoy_spec \<Rightarrow> seat_name \<Rightarrow> (nat \<times> seat) option" where
  "find_seat spec name =
    map_option (\<lambda>row. (row_position row, row_record row))
      (find (\<lambda>row. s_role (row_record row) = sn_role name \<and> s_seat (row_record row) = sn_seat name)
        (cs_seats spec))"

definition outstanding :: "convoy_spec \<Rightarrow> promise_id btree_set" where
  "outstanding spec =
    bs_of_list (map (p_id \<circ> row_record) (filter (promise_open \<circ> row_record) (cs_promises spec)))"

definition holding :: "convoy_spec \<Rightarrow> duty_id btree_set \<Rightarrow> duty_id btree_set" where
  "holding spec retired =
    bs_of_list (map fst (filter (\<lambda>kv. d_scope (snd kv) = Lifetime \<and> fst kv \<notin> set retired) (cs_duties spec)))"

section \<open>Lemmas\<close>

lemma find_promise_SomeD:
  assumes "find_promise spec i = Some (pos, p)" and "records_dense (cs_promises spec)"
  shows "pos < length (cs_promises spec)" "row_record (cs_promises spec ! pos) = p" "p_id p = i"
proof -
  obtain row where row: "find (\<lambda>row. p_id (row_record row) = i) (cs_promises spec) = Some row"
    "pos = row_position row" "p = row_record row"
    using assms(1) by (auto simp: find_promise_def)
  then obtain n where n: "n < length (cs_promises spec)" "row = cs_promises spec ! n" "p_id p = i"
    by (auto simp: find_Some_iff)
  with row assms(2) have "pos = n"
    by (simp add: records_dense_nth)
  with row n show "pos < length (cs_promises spec)" "row_record (cs_promises spec ! pos) = p" "p_id p = i"
    by simp_all
qed

lemma find_promise_None: "find_promise spec i = None \<longleftrightarrow> i \<notin> p_id ` row_record ` set (cs_promises spec)"
  by (auto simp: find_promise_def find_None_iff)

lemma seat_name_of_eq: "seat_name_of s = n \<longleftrightarrow> s_role s = sn_role n \<and> s_seat s = sn_seat n"
  by (cases n) (simp add: seat_name_of_def)

lemma find_seat_SomeD:
  assumes "find_seat spec n = Some (pos, s)" and "records_dense (cs_seats spec)"
  shows "pos < length (cs_seats spec)" "row_record (cs_seats spec ! pos) = s" "seat_name_of s = n"
proof -
  obtain row where row: "find (\<lambda>row. s_role (row_record row) = sn_role n \<and> s_seat (row_record row) = sn_seat n)
      (cs_seats spec) = Some row" "pos = row_position row" "s = row_record row"
    using assms(1) by (auto simp: find_seat_def)
  then obtain k where k: "k < length (cs_seats spec)" "row = cs_seats spec ! k" "seat_name_of s = n"
    by (auto simp: find_Some_iff seat_name_of_eq)
  with row assms(2) have "pos = k"
    by (simp add: records_dense_nth)
  with row k show "pos < length (cs_seats spec)" "row_record (cs_seats spec ! pos) = s" "seat_name_of s = n"
    by simp_all
qed

lemma find_seat_None: "find_seat spec n = None \<longleftrightarrow> n \<notin> seat_name_of ` row_record ` set (cs_seats spec)"
proof -
  have "find_seat spec n = None \<longleftrightarrow> (\<forall>row \<in> set (cs_seats spec). seat_name_of (row_record row) \<noteq> n)"
    by (auto simp: find_seat_def find_None_iff seat_name_of_eq)
  then show ?thesis
    by auto
qed

lemma set_outstanding:
  "set (outstanding spec) = {p_id p | p. p \<in> row_record ` set (cs_promises spec) \<and> promise_open p}"
  by (auto simp: outstanding_def)

lemma outstanding_Nil:
  "outstanding spec = [] \<longleftrightarrow> (\<forall>row \<in> set (cs_promises spec). \<not> promise_open (row_record row))"
proof -
  have "outstanding spec = [] \<longleftrightarrow> set (outstanding spec) = {}"
    by simp
  then show ?thesis
    unfolding set_outstanding by auto
qed

lemma set_holding:
  "set (holding spec retired)
    = {i. \<exists>d. (i, d) \<in> set (cs_duties spec) \<and> d_scope d = Lifetime \<and> i \<notin> set retired}"
  by (force simp: holding_def)

end
