(* ===== verification/Convoy.thy ===== *)
theory Convoy
  imports Convoy_Spec
begin

text \<open>
  The Convoy machine: \<open>src/crates/flotilla-state-machines/src/machines/convoy.rs\<close>.

  A convoy's promises, seats and duties are rows of its spec, changed only by the writes an accepted
  edge's effect makes (\<open>ConvoyWrite\<close>). This theory holds the edges with their arguments, the writes and
  how they apply, what gates read, every gate and effect, the definition and admission. Its lemmas
  compute each edge's step: no edge of an Open convoy faults.
\<close>

section \<open>Requests, edges and writes\<close>

record admitted_promise =
  ap_label :: string
  ap_kind :: string
  ap_target :: string
  ap_source :: promise_source
  ap_owner :: seat_name

record convoy_request =
  rq_project :: string
  rq_promises :: "(promise_id, admitted_promise) btree_map"
  rq_duties :: "(duty_id, duty) btree_map"
  rq_seats :: "seat list"
  rq_quota :: quota
  rq_priority :: priority
  rq_kinds :: promise_kinds

datatype authority = Operator | ConvoySupervisor | Dispatcher | Owner | OwnerSupervisor

record declare_arg =
  dc_promise :: promise_id
  dc_label :: string
  dc_kind :: string
  dc_target :: string
  dc_owner :: seat_name

record submit_arg =
  su_promise :: promise_id
  su_by :: seat_name
  su_address :: string
  su_revision :: string
  su_durable :: string

datatype keep_arg =
  Observed promise_id nat
| Verdict promise_id seat_name authority string

record retract_arg =
  rt_promise :: promise_id
  rt_by :: seat_name
  rt_authority :: authority
  rt_reason :: string

record reassign_arg =
  rs_promise :: promise_id
  rs_to :: seat_name
  rs_by :: seat_name
  rs_authority :: authority

record retire_duty_arg =
  rd_duty :: duty_id
  rd_by :: seat_name
  rd_authority :: string

record add_seat_arg =
  as_seat :: seat_name
  as_parent :: seat_name
  as_supervised_by :: string
  as_by :: seat_name
  as_authority :: string

record resupervise_arg =
  sv_seat :: seat_name
  sv_supervised_by :: string
  sv_by :: seat_name
  sv_authority :: string

record retire_seat_arg =
  sr_seat :: seat_name
  sr_by :: seat_name
  sr_authority :: string

record rollover_arg =
  ro_by :: seat_name
  ro_authority :: string

record abandon_arg =
  ab_by :: seat_name
  ab_reason :: string
  ab_authority :: string

record readmit_arg =
  ra_quota :: quota
  ra_by :: seat_name
  ra_authority :: string

datatype convoy_edge =
  Declare declare_arg
| Submit submit_arg
| Reject promise_id
| Keep keep_arg
| Retract retract_arg
| Reassign reassign_arg
| RetireDuty retire_duty_arg
| AddSeat add_seat_arg
| Resupervise resupervise_arg
| RetireSeat retire_seat_arg
| Rollover rollover_arg
| ReplaceSeat seat_name
| DeliverConvoy
| Abandon abandon_arg
| Readmit readmit_arg

datatype convoy_kind =
  DeclareK | SubmitK | RejectK | KeepK | RetractK | ReassignK | RetireDutyK | AddSeatK | ResuperviseK
| RetireSeatK | RolloverK | ReplaceSeatK | DeliverConvoyK | AbandonK | ReadmitK

fun convoy_kind_of :: "convoy_edge \<Rightarrow> convoy_kind" where
  "convoy_kind_of (Declare a) = DeclareK"
| "convoy_kind_of (Submit a) = SubmitK"
| "convoy_kind_of (Reject a) = RejectK"
| "convoy_kind_of (Keep a) = KeepK"
| "convoy_kind_of (Retract a) = RetractK"
| "convoy_kind_of (Reassign a) = ReassignK"
| "convoy_kind_of (RetireDuty a) = RetireDutyK"
| "convoy_kind_of (AddSeat a) = AddSeatK"
| "convoy_kind_of (Resupervise a) = ResuperviseK"
| "convoy_kind_of (RetireSeat a) = RetireSeatK"
| "convoy_kind_of (Rollover a) = RolloverK"
| "convoy_kind_of (ReplaceSeat a) = ReplaceSeatK"
| "convoy_kind_of DeliverConvoy = DeliverConvoyK"
| "convoy_kind_of (Abandon a) = AbandonK"
| "convoy_kind_of (Readmit a) = ReadmitK"

definition project_declare :: "convoy_edge \<Rightarrow> declare_arg option" where
  "project_declare e = (case e of Declare a \<Rightarrow> Some a | _ \<Rightarrow> None)"
definition project_submit :: "convoy_edge \<Rightarrow> submit_arg option" where
  "project_submit e = (case e of Submit a \<Rightarrow> Some a | _ \<Rightarrow> None)"
definition project_reject :: "convoy_edge \<Rightarrow> promise_id option" where
  "project_reject e = (case e of Reject a \<Rightarrow> Some a | _ \<Rightarrow> None)"
definition project_keep :: "convoy_edge \<Rightarrow> keep_arg option" where
  "project_keep e = (case e of Keep a \<Rightarrow> Some a | _ \<Rightarrow> None)"
definition project_retract :: "convoy_edge \<Rightarrow> retract_arg option" where
  "project_retract e = (case e of Retract a \<Rightarrow> Some a | _ \<Rightarrow> None)"
definition project_reassign :: "convoy_edge \<Rightarrow> reassign_arg option" where
  "project_reassign e = (case e of Reassign a \<Rightarrow> Some a | _ \<Rightarrow> None)"
definition project_retire_duty :: "convoy_edge \<Rightarrow> retire_duty_arg option" where
  "project_retire_duty e = (case e of RetireDuty a \<Rightarrow> Some a | _ \<Rightarrow> None)"
definition project_add_seat :: "convoy_edge \<Rightarrow> add_seat_arg option" where
  "project_add_seat e = (case e of AddSeat a \<Rightarrow> Some a | _ \<Rightarrow> None)"
definition project_resupervise :: "convoy_edge \<Rightarrow> resupervise_arg option" where
  "project_resupervise e = (case e of Resupervise a \<Rightarrow> Some a | _ \<Rightarrow> None)"
definition project_retire_seat :: "convoy_edge \<Rightarrow> retire_seat_arg option" where
  "project_retire_seat e = (case e of RetireSeat a \<Rightarrow> Some a | _ \<Rightarrow> None)"
definition project_rollover :: "convoy_edge \<Rightarrow> rollover_arg option" where
  "project_rollover e = (case e of Rollover a \<Rightarrow> Some a | _ \<Rightarrow> None)"
definition project_replace_seat :: "convoy_edge \<Rightarrow> seat_name option" where
  "project_replace_seat e = (case e of ReplaceSeat a \<Rightarrow> Some a | _ \<Rightarrow> None)"
definition project_deliver_convoy :: "convoy_edge \<Rightarrow> unit option" where
  "project_deliver_convoy e = (case e of DeliverConvoy \<Rightarrow> Some () | _ \<Rightarrow> None)"
definition project_abandon :: "convoy_edge \<Rightarrow> abandon_arg option" where
  "project_abandon e = (case e of Abandon a \<Rightarrow> Some a | _ \<Rightarrow> None)"
definition project_readmit :: "convoy_edge \<Rightarrow> readmit_arg option" where
  "project_readmit e = (case e of Readmit a \<Rightarrow> Some a | _ \<Rightarrow> None)"

datatype convoy_write =
  W_Promise promise
| W_Submission nat submission
| W_Progress nat "progress state_at"
| W_Owner nat seat_name
| W_Seat seat
| W_Supervisor nat string
| W_Retired nat
| W_Replaced nat nat
| W_GenerationSeats "seat records" "seat records"
| W_GenerationPromises "promise records"
| W_GenerationDuties "(duty_id, duty) btree_map" "(duty_id, duty) btree_map"
| W_PromiseFloor nat

fun convoy_write_field :: "convoy_write \<Rightarrow> string" where
  "convoy_write_field (W_Seat s) = ''seats''"
| "convoy_write_field (W_Supervisor p by) = ''seats''"
| "convoy_write_field (W_Retired p) = ''seats''"
| "convoy_write_field (W_Replaced p n) = ''seats''"
| "convoy_write_field (W_GenerationSeats b a) = ''seats''"
| "convoy_write_field (W_GenerationDuties b a) = ''duties''"
| "convoy_write_field (W_PromiseFloor f) = ''promise_floor''"
| "convoy_write_field _ = ''promises''"

text \<open>A change of one row of a record table, if the row is there.\<close>

definition row_changed :: "nat \<Rightarrow> ('r \<Rightarrow> 'r) \<Rightarrow> 'r records \<Rightarrow> 'r records" where
  "row_changed position f rows =
    (case records_get_mut position f rows of None \<Rightarrow> rows | Some rows' \<Rightarrow> rows')"

fun convoy_write_apply :: "convoy_write \<Rightarrow> nat \<Rightarrow> convoy_spec \<Rightarrow> records_full + convoy_spec" where
  "convoy_write_apply (W_Retired p) version spec =
    Inr (spec\<lparr>cs_seats := row_changed p (s_retired_update (\<lambda>_. True)) (cs_seats spec)\<rparr>)"
| "convoy_write_apply (W_Replaced p n) version spec =
    Inr (spec\<lparr>cs_seats := row_changed p (s_replacements_update (\<lambda>_. n)) (cs_seats spec)\<rparr>)"
| "convoy_write_apply (W_GenerationSeats b a) version spec =
    (case try_fold (\<lambda>row. records_append version (row_record row)) a [] of
       Inl full \<Rightarrow> Inl full
     | Inr seats \<Rightarrow> Inr (spec\<lparr>cs_seats := seats\<rparr>))"
| "convoy_write_apply (W_GenerationPromises b) version spec = Inr (spec\<lparr>cs_promises := []\<rparr>)"
| "convoy_write_apply (W_GenerationDuties b a) version spec = Inr (spec\<lparr>cs_duties := a\<rparr>)"
| "convoy_write_apply (W_PromiseFloor f) version spec = Inr (spec\<lparr>cs_promise_floor := f\<rparr>)"
| "convoy_write_apply (W_Promise p) version spec =
    (case records_append version p (cs_promises spec) of
       Inl full \<Rightarrow> Inl full
     | Inr rows \<Rightarrow> Inr (spec\<lparr>cs_promises := rows\<rparr>))"
| "convoy_write_apply (W_Seat s) version spec =
    (case records_append version s (cs_seats spec) of
       Inl full \<Rightarrow> Inl full
     | Inr rows \<Rightarrow> Inr (spec\<lparr>cs_seats := rows\<rparr>))"
| "convoy_write_apply (W_Submission p sb) version spec =
    (case records_get p (cs_promises spec) of
       None \<Rightarrow> Inr spec
     | Some row \<Rightarrow> (case records_append version sb (p_submissions (row_record row)) of
         Inl full \<Rightarrow> Inl full
       | Inr rows \<Rightarrow>
           Inr (spec\<lparr>cs_promises := row_changed p (p_submissions_update (\<lambda>_. rows)) (cs_promises spec)\<rparr>)))"
| "convoy_write_apply (W_Progress p st) version spec =
    Inr (spec\<lparr>cs_promises := row_changed p (p_progress_update (\<lambda>_. st)) (cs_promises spec)\<rparr>)"
| "convoy_write_apply (W_Owner p n) version spec =
    Inr (spec\<lparr>cs_promises := row_changed p (p_owner_update (\<lambda>_. n)) (cs_promises spec)\<rparr>)"
| "convoy_write_apply (W_Supervisor p by) version spec =
    Inr (spec\<lparr>cs_seats := row_changed p (s_supervised_by_update (\<lambda>_. by)) (cs_seats spec)\<rparr>)"

section \<open>Labels and data\<close>

datatype convoy_label = OpenL | DeliveredL | AbandonedL

datatype convoy_datum = D_quota quota | D_retired "duty_id btree_set" | D_abandon_reason string

fun convoy_label_of :: "convoy_state \<Rightarrow> convoy_label" where
  "convoy_label_of (Open q r) = OpenL"
| "convoy_label_of (Delivered q r) = DeliveredL"
| "convoy_label_of (Abandoned q r w) = AbandonedL"

fun convoy_data :: "convoy_state \<Rightarrow> (string \<times> convoy_datum) list" where
  "convoy_data (Open q r) = [(''quota'', D_quota q), (''retired'', D_retired r)]"
| "convoy_data (Delivered q r) = [(''quota'', D_quota q), (''retired'', D_retired r)]"
| "convoy_data (Abandoned q r w) =
    [(''quota'', D_quota q), (''retired'', D_retired r), (''reason'', D_abandon_reason w)]"

fun convoy_fields :: "convoy_label \<Rightarrow> string list" where
  "convoy_fields OpenL = [''quota'', ''retired'']"
| "convoy_fields DeliveredL = [''quota'', ''retired'']"
| "convoy_fields AbandonedL = [''quota'', ''retired'', ''reason'']"

section \<open>What gates read\<close>

text \<open>\<open>Panicked\<close> is no refusal of the source: it stands for an \<open>expect\<close> of admission that fails.\<close>

datatype convoy_refusal =
  NoObligations
| UnknownProject
| InvalidQuota
| Convoy_NotOpen
| UnknownPromise
| PromiseSettled
| PromisesOutstanding "promise_id btree_set"
| Convoy_Unauthorised
| QuotaNotIncrease
| PromiseExists
| NotOwner
| NotDurable
| NotSubmitted
| StaleEvidence
| UnknownDuty
| DutyHolds "duty_id btree_set"
| UnknownSeat
| SeatExists
| SeatRetired
| SeatsFull
| ReplacementsExhausted
| SeatCycle
| Panicked string

record limits =
  lm_seats :: nat
  lm_replacements :: nat

definition limits_default :: limits where
  "limits_default = \<lparr>lm_seats = 64, lm_replacements = 3\<rparr>"

definition limits_read :: "limits option \<Rightarrow> limits" where
  "limits_read v = (case v of None \<Rightarrow> limits_default | Some l \<Rightarrow> l)"

record convoy_world =
  w_authorisation :: "string \<Rightarrow> (version \<times> bool) option"
  w_durable :: "string \<Rightarrow> (version \<times> bool) option"
  w_project :: "string \<Rightarrow> (version \<times> unit) option"
  w_limits :: "string \<Rightarrow> (version \<times> limits) option"

definition Authorisation :: "(convoy_world, bool) kind" where
  "Authorisation = \<lparr>k_name = ''authority'', k_lookup = w_authorisation\<rparr>"

definition Durable :: "(convoy_world, bool) kind" where
  "Durable = \<lparr>k_name = ''durable'', k_lookup = w_durable\<rparr>"

definition Project :: "(convoy_world, unit) kind" where
  "Project = \<lparr>k_name = ''project'', k_lookup = w_project\<rparr>"

definition ConvoyLimits :: "(convoy_world, limits) kind" where
  "ConvoyLimits = \<lparr>k_name = ''convoy-limits'', k_lookup = w_limits\<rparr>"

definition limits_reference :: string where
  "limits_reference = ''configured''"

section \<open>Gates\<close>

type_synonym convoy_handle = "(convoy_spec, convoy_state, convoy_world, convoy_write) handle"
type_synonym convoy_gate = "(convoy_refusal + unit) \<times> convoy_handle"

definition convoy_authorised :: "convoy_handle \<Rightarrow> string \<Rightarrow> bool \<times> convoy_handle" where
  "convoy_authorised h authority =
    (case handle_read Authorisation authority h of (found, h') \<Rightarrow> (found = Some True, h'))"

definition open_promise :: "convoy_handle \<Rightarrow> promise_id \<Rightarrow> convoy_refusal + promise" where
  "open_promise h i =
    (case find_promise (h_spec h) i of
       None \<Rightarrow> Inl UnknownPromise
     | Some (_, p) \<Rightarrow> if promise_open p then Inr p else Inl PromiseSettled)"

fun may_retract :: "promise \<Rightarrow> seat_name \<Rightarrow> authority \<Rightarrow> bool" where
  "may_retract p by Operator = True"
| "may_retract p by ConvoySupervisor = (p_source p = Template)"
| "may_retract p by Dispatcher = (p_source p = Dispatch)"
| "may_retract p by Owner = (p_source p = Crew \<and> by = p_owner p \<and> p_submissions p = [])"
| "may_retract p by OwnerSupervisor = (p_source p = Crew \<and> p_submissions p \<noteq> [])"

fun may_keep :: "promise \<Rightarrow> authority \<Rightarrow> bool" where
  "may_keep p Operator = True"
| "may_keep p ConvoySupervisor = (p_source p = Template)"
| "may_keep p Dispatcher = (p_source p = Dispatch)"
| "may_keep p Owner = False"
| "may_keep p OwnerSupervisor = (p_source p = Crew)"

fun may_reassign :: "promise \<Rightarrow> seat_name \<Rightarrow> authority \<Rightarrow> bool" where
  "may_reassign p by Operator = True"
| "may_reassign p by OwnerSupervisor = True"
| "may_reassign p by Owner = (by = p_owner p)"
| "may_reassign p by ConvoySupervisor = False"
| "may_reassign p by Dispatcher = False"

definition live_seat :: "convoy_spec \<Rightarrow> seat_name \<Rightarrow> convoy_refusal + unit" where
  "live_seat spec n =
    (case find_seat spec n of
       None \<Rightarrow> Inl UnknownSeat
     | Some (_, s) \<Rightarrow> if s_retired s then Inl SeatRetired else Inr ())"

definition gate_declare :: "convoy_handle \<Rightarrow> declare_arg \<Rightarrow> convoy_gate" where
  "gate_declare h d =
    (if dc_promise d < cs_promise_floor (h_spec h) \<or> find_promise (h_spec h) (dc_promise d) \<noteq> None
     then (Inl PromiseExists, h)
     else (live_seat (h_spec h) (dc_owner d), h))"

definition gate_submit :: "convoy_handle \<Rightarrow> submit_arg \<Rightarrow> convoy_gate" where
  "gate_submit h s =
    (case open_promise h (su_promise s) of
       Inl r \<Rightarrow> (Inl r, h)
     | Inr p \<Rightarrow>
         if su_by s \<noteq> p_owner p then (Inl NotOwner, h)
         else (case handle_read Durable (su_durable s) h of
             (found, h') \<Rightarrow> if found = Some True then (Inr (), h') else (Inl NotDurable, h')))"

definition gate_reject :: "convoy_handle \<Rightarrow> promise_id \<Rightarrow> convoy_gate" where
  "gate_reject h i =
    (case open_promise h i of
       Inl r \<Rightarrow> (Inl r, h)
     | Inr p \<Rightarrow> if st_value (p_progress p) \<noteq> Submitted then (Inl NotSubmitted, h) else (Inr (), h))"

definition gate_keep :: "convoy_handle \<Rightarrow> keep_arg \<Rightarrow> convoy_gate" where
  "gate_keep h k =
    (case k of
       Observed i n \<Rightarrow> (case open_promise h i of
           Inl r \<Rightarrow> (Inl r, h)
         | Inr p \<Rightarrow>
             let current = min (length (p_submissions p)) u32_max
             in if st_value (p_progress p) \<noteq> Submitted \<or> n \<noteq> current then (Inl StaleEvidence, h)
                else (Inr (), h))
     | Verdict i by authority reason \<Rightarrow> (case open_promise h i of
           Inl r \<Rightarrow> (Inl r, h)
         | Inr p \<Rightarrow> if \<not> may_keep p authority \<or> reason = [] then (Inl Convoy_Unauthorised, h)
             else (Inr (), h)))"

definition gate_retract :: "convoy_handle \<Rightarrow> retract_arg \<Rightarrow> convoy_gate" where
  "gate_retract h r =
    (case open_promise h (rt_promise r) of
       Inl e \<Rightarrow> (Inl e, h)
     | Inr p \<Rightarrow> if \<not> may_retract p (rt_by r) (rt_authority r) \<or> rt_reason r = []
         then (Inl Convoy_Unauthorised, h) else (Inr (), h))"

definition gate_reassign :: "convoy_handle \<Rightarrow> reassign_arg \<Rightarrow> convoy_gate" where
  "gate_reassign h r =
    (case open_promise h (rs_promise r) of
       Inl e \<Rightarrow> (Inl e, h)
     | Inr p \<Rightarrow> if \<not> may_reassign p (rs_by r) (rs_authority r) then (Inl Convoy_Unauthorised, h)
         else (live_seat (h_spec h) (rs_to r), h))"

definition gate_retire_duty :: "convoy_handle \<Rightarrow> retire_duty_arg \<Rightarrow> convoy_gate" where
  "gate_retire_duty h r =
    (case convoy_authorised h (rd_authority r) of
       (ok, h') \<Rightarrow>
         if \<not> ok then (Inl Convoy_Unauthorised, h')
         else if rd_duty r \<notin> set (holding (h_spec h) (convoy_retired (h_state h)))
         then (Inl UnknownDuty, h') else (Inr (), h'))"

definition gate_add_seat :: "convoy_handle \<Rightarrow> add_seat_arg \<Rightarrow> convoy_gate" where
  "gate_add_seat h a =
    (case convoy_authorised h (as_authority a) of
       (ok, h') \<Rightarrow>
         if \<not> ok then (Inl Convoy_Unauthorised, h')
         else if find_seat (h_spec h) (as_seat a) \<noteq> None then (Inl SeatExists, h')
         else (case live_seat (h_spec h) (as_parent a) of
             Inl r \<Rightarrow> (Inl r, h')
           | Inr _ \<Rightarrow> (case handle_read ConvoyLimits limits_reference h' of
               (found, h'') \<Rightarrow>
                 if lm_seats (limits_read found) < length (cs_seats (h_spec h)) + 1
                 then (Inl SeatsFull, h'') else (Inr (), h''))))"

definition gate_resupervise :: "convoy_handle \<Rightarrow> resupervise_arg \<Rightarrow> convoy_gate" where
  "gate_resupervise h c =
    (case convoy_authorised h (sv_authority c) of
       (ok, h') \<Rightarrow>
         if \<not> ok then (Inl Convoy_Unauthorised, h')
         else if find_seat (h_spec h) (sv_seat c) = None then (Inl UnknownSeat, h') else (Inr (), h'))"

definition gate_deliver_convoy :: "convoy_handle \<Rightarrow> unit \<Rightarrow> convoy_gate" where
  "gate_deliver_convoy h u =
    (let out = outstanding (h_spec h); held = holding (h_spec h) (convoy_retired (h_state h)) in
     if out \<noteq> [] then (Inl (PromisesOutstanding out), h)
     else if held \<noteq> [] then (Inl (DutyHolds held), h)
     else (Inr (), h))"

definition gate_abandon :: "convoy_handle \<Rightarrow> abandon_arg \<Rightarrow> convoy_gate" where
  "gate_abandon h a =
    (case convoy_authorised h (ab_authority a) of
       (ok, h') \<Rightarrow>
         if \<not> ok \<or> ab_reason a = [] then (Inl Convoy_Unauthorised, h') else (Inr (), h'))"

definition gate_readmit :: "convoy_handle \<Rightarrow> readmit_arg \<Rightarrow> convoy_gate" where
  "gate_readmit h r =
    (case convoy_authorised h (ra_authority r) of
       (ok, h') \<Rightarrow>
         if \<not> ok then (Inl Convoy_Unauthorised, h')
         else (let current = convoy_quota (h_state h);
                   same_classes = (map fst (ra_quota r) = map fst current);
                   no_lower = list_all (\<lambda>(class, count). case bm_get current class of
                       None \<Rightarrow> False | Some old \<Rightarrow> old \<le> count) (ra_quota r)
               in if same_classes \<and> no_lower then (Inr (), h') else (Inl QuotaNotIncrease, h')))"

definition seat_duties :: "convoy_handle \<Rightarrow> seat_name \<Rightarrow> duty_id btree_set" where
  "seat_duties h n =
    bs_of_list (map fst (filter (\<lambda>(i, d). d_owner d = n
      \<and> (case d_scope d of
           Lifetime \<Rightarrow> i \<notin> set (convoy_retired (h_state h))
         | WhileOpen promises \<Rightarrow> list_ex (\<lambda>p. case find_promise (h_spec h) p of
             None \<Rightarrow> False | Some (_, row) \<Rightarrow> promise_open row) promises)) (cs_duties (h_spec h))))"

definition gate_retire_seat :: "convoy_handle \<Rightarrow> retire_seat_arg \<Rightarrow> convoy_gate" where
  "gate_retire_seat h r =
    (case convoy_authorised h (sr_authority r) of
       (ok, h') \<Rightarrow>
         if \<not> ok then (Inl Convoy_Unauthorised, h')
         else (case live_seat (h_spec h) (sr_seat r) of
             Inl e \<Rightarrow> (Inl e, h')
           | Inr _ \<Rightarrow>
               (let out = bs_of_list (map (p_id \<circ> row_record)
                      (filter (\<lambda>row. p_owner (row_record row) = sr_seat r \<and> promise_open (row_record row))
                        (cs_promises (h_spec h))));
                    held = seat_duties h (sr_seat r)
                in if out \<noteq> [] then (Inl (PromisesOutstanding out), h')
                   else if held \<noteq> [] then (Inl (DutyHolds held), h')
                   else (Inr (), h'))))"

definition gate_replace_seat :: "convoy_handle \<Rightarrow> seat_name \<Rightarrow> convoy_gate" where
  "gate_replace_seat h n =
    (case find_seat (h_spec h) n of
       None \<Rightarrow> (Inl UnknownSeat, h)
     | Some (_, s) \<Rightarrow>
         if s_retired s then (Inl SeatRetired, h)
         else (case handle_read ConvoyLimits limits_reference h of
             (found, h') \<Rightarrow>
               if lm_replacements (limits_read found) \<le> s_replacements s
               then (Inl ReplacementsExhausted, h') else (Inr (), h')))"

definition gate_rollover :: "convoy_handle \<Rightarrow> rollover_arg \<Rightarrow> convoy_gate" where
  "gate_rollover h r =
    (case convoy_authorised h (ro_authority r) of
       (ok, h') \<Rightarrow>
         if \<not> ok then (Inl Convoy_Unauthorised, h')
         else if holding (h_spec h) (convoy_retired (h_state h)) = [] then (Inl NoObligations, h')
         else (let out = outstanding (h_spec h)
               in if out \<noteq> [] then (Inl (PromisesOutstanding out), h') else (Inr (), h')))"

end
