(* ===== verification/Convoy_Machine.thy ===== *)
theory Convoy_Machine
  imports Convoy
begin

text \<open>
  The convoy's effects, declaration and admission, of
  \<open>src/crates/flotilla-state-machines/src/machines/convoy.rs\<close>. Where admission \<open>expect\<close>s an append to fit, a failure is the value \<open>Panicked\<close>; a
  rollover only drops seats, so its appends fit.
\<close>

section \<open>Effects\<close>

type_synonym convoy_effect = "convoy_state \<times> convoy_handle"

definition declare_promise :: "convoy_handle \<Rightarrow> convoy_state \<Rightarrow> declare_arg \<Rightarrow> convoy_effect" where
  "declare_promise h state d =
    (state, handle_write (W_Promise
       \<lparr>p_id = dc_promise d, p_label = dc_label d, p_kind = dc_kind d, p_target = dc_target d,
        p_source = Crew, p_owner = dc_owner d,
        p_progress = \<lparr>st_value = PPending, st_since = h_now h\<rparr>, p_submissions = []\<rparr>) h)"

definition submit :: "convoy_handle \<Rightarrow> convoy_state \<Rightarrow> submit_arg \<Rightarrow> convoy_effect" where
  "submit h state s =
    (case find_promise (h_spec h) (su_promise s) of
       None \<Rightarrow> (state, h)
     | Some (position, p) \<Rightarrow>
         (let h' = handle_write (W_Submission position
                \<lparr>sb_address = su_address s, sb_revision = su_revision s, sb_by = su_by s\<rparr>) h
          in (state,
              if st_value (p_progress p) \<noteq> Submitted
              then handle_write (W_Progress position \<lparr>st_value = Submitted, st_since = h_now h\<rparr>) h'
              else h')))"

definition set_progress ::
  "convoy_handle \<Rightarrow> convoy_state \<Rightarrow> promise_id \<Rightarrow> progress \<Rightarrow> convoy_effect" where
  "set_progress h state i to =
    (case find_promise (h_spec h) i of
       None \<Rightarrow> (state, h)
     | Some (position, p) \<Rightarrow>
         (state, handle_write (W_Progress position \<lparr>st_value = to, st_since = h_now h\<rparr>) h))"

definition effect_reject :: "convoy_handle \<Rightarrow> convoy_state \<Rightarrow> promise_id \<Rightarrow> convoy_effect" where
  "effect_reject h state i = set_progress h state i PPending"

fun keep_promise :: "keep_arg \<Rightarrow> promise_id" where
  "keep_promise (Observed i n) = i"
| "keep_promise (Verdict i by authority reason) = i"

definition effect_keep :: "convoy_handle \<Rightarrow> convoy_state \<Rightarrow> keep_arg \<Rightarrow> convoy_effect" where
  "effect_keep h state k = set_progress h state (keep_promise k) Kept"

definition effect_retract :: "convoy_handle \<Rightarrow> convoy_state \<Rightarrow> retract_arg \<Rightarrow> convoy_effect" where
  "effect_retract h state r = set_progress h state (rt_promise r) Retracted"

definition reassign :: "convoy_handle \<Rightarrow> convoy_state \<Rightarrow> reassign_arg \<Rightarrow> convoy_effect" where
  "reassign h state r =
    (case find_promise (h_spec h) (rs_promise r) of
       None \<Rightarrow> (state, h)
     | Some (position, p) \<Rightarrow>
         (state, if p_owner p \<noteq> rs_to r then handle_write (W_Owner position (rs_to r)) h else h))"

definition add_seat :: "convoy_handle \<Rightarrow> convoy_state \<Rightarrow> add_seat_arg \<Rightarrow> convoy_effect" where
  "add_seat h state a =
    (state, handle_write (W_Seat
       \<lparr>s_role = sn_role (as_seat a), s_seat = sn_seat (as_seat a), s_parent = Some (as_parent a),
        s_supervised_by = as_supervised_by a, s_retired = False, s_replacements = 0\<rparr>) h)"

definition resupervise :: "convoy_handle \<Rightarrow> convoy_state \<Rightarrow> resupervise_arg \<Rightarrow> convoy_effect" where
  "resupervise h state c =
    (case find_seat (h_spec h) (sv_seat c) of
       None \<Rightarrow> (state, h)
     | Some (position, s) \<Rightarrow>
         (state, if s_supervised_by s \<noteq> sv_supervised_by c
                 then handle_write (W_Supervisor position (sv_supervised_by c)) h else h))"

definition effect_retire_seat :: "convoy_handle \<Rightarrow> convoy_state \<Rightarrow> retire_seat_arg \<Rightarrow> convoy_effect" where
  "effect_retire_seat h state r =
    (case find_seat (h_spec h) (sr_seat r) of
       None \<Rightarrow> (state, h)
     | Some (position, s) \<Rightarrow> (state, handle_write (W_Retired position) h))"

definition effect_replace_seat :: "convoy_handle \<Rightarrow> convoy_state \<Rightarrow> seat_name \<Rightarrow> convoy_effect" where
  "effect_replace_seat h state n =
    (case find_seat (h_spec h) n of
       None \<Rightarrow> (state, h)
     | Some (position, s) \<Rightarrow> (state, handle_write (W_Replaced position (s_replacements s + 1)) h))"

fun retire_duty :: "convoy_handle \<Rightarrow> convoy_state \<Rightarrow> retire_duty_arg \<Rightarrow> convoy_effect" where
  "retire_duty h (Open q r) a = (Open q (bs_insert (rd_duty a) r), h)"
| "retire_duty h state a = (state, h)"

fun deliver_convoy :: "convoy_handle \<Rightarrow> convoy_state \<Rightarrow> unit \<Rightarrow> convoy_effect" where
  "deliver_convoy h (Open q r) a = (Delivered q r, h)"
| "deliver_convoy h state a = (state, h)"

fun abandon :: "convoy_handle \<Rightarrow> convoy_state \<Rightarrow> abandon_arg \<Rightarrow> convoy_effect" where
  "abandon h (Open q r) a = (Abandoned q r (ab_reason a), h)"
| "abandon h state a = (state, h)"

fun readmit :: "convoy_handle \<Rightarrow> convoy_state \<Rightarrow> readmit_arg \<Rightarrow> convoy_effect" where
  "readmit h (Open q r) a = (Open (ra_quota a) r, h)"
| "readmit h state a = (state, h)"

text \<open>Appends that fit.\<close>

definition records_collect :: "nat \<Rightarrow> 'r list \<Rightarrow> 'r records" where
  "records_collect version rs =
    fold (\<lambda>r rows. case records_append version r rows of Inl _ \<Rightarrow> rows | Inr rows' \<Rightarrow> rows') rs []"

definition rollover_floor :: "convoy_spec \<Rightarrow> nat" where
  "rollover_floor spec =
    (let ids = map (\<lambda>row. p_id (row_record row) + 1) (cs_promises spec)
     in max (if ids = [] then cs_promise_floor spec else fold max ids 0) (cs_promise_floor spec))"

definition rollover_seats :: "convoy_spec \<Rightarrow> seat records" where
  "rollover_seats spec =
    (let kept = filter (\<lambda>s. \<not> s_retired s) (map row_record (cs_seats spec));
         names = map seat_name_of kept
     in records_collect 0 (map (\<lambda>s. case s_parent s of
            None \<Rightarrow> s
          | Some p \<Rightarrow> if p \<notin> set names then s\<lparr>s_parent := None\<rparr> else s) kept))"

definition rollover :: "convoy_handle \<Rightarrow> convoy_state \<Rightarrow> rollover_arg \<Rightarrow> convoy_effect" where
  "rollover h state a =
    (let before = h_spec h; held = holding before (convoy_retired state);
         duties = filter (\<lambda>kv. fst kv \<in> set held) (cs_duties before);
         h1 = handle_write (W_GenerationSeats (cs_seats before) (rollover_seats before)) h;
         h2 = handle_write (W_GenerationPromises (cs_promises before)) h1;
         h3 = handle_write (W_GenerationDuties (cs_duties before) duties) h2;
         h4 = handle_write (W_PromiseFloor (rollover_floor before)) h3
     in (case state of Open q r \<Rightarrow> Open q [] | _ \<Rightarrow> state, h4))"

section \<open>The declaration\<close>

type_synonym convoy_declared =
  "(convoy_label, convoy_kind, convoy_state, convoy_edge, convoy_spec, convoy_world, convoy_write,
    convoy_refusal) declared_edge"

definition declare_edge :: convoy_declared where
  "declare_edge = chained (edge_new DeclareK)
    [edge_from [OpenL], edge_to [OpenL], edge_writes [''promises''],
     edge_gate project_declare ''a new promise id, owned by a seat'' gate_declare,
     edge_effect project_declare declare_promise]"

definition submit_edge :: convoy_declared where
  "submit_edge = chained (edge_new SubmitK)
    [edge_from [OpenL], edge_to [OpenL], edge_writes [''promises''],
     edge_gate project_submit ''the owner submits a durable reference to an open promise'' gate_submit,
     edge_effect project_submit submit]"

definition reject_edge :: convoy_declared where
  "reject_edge = chained (edge_new RejectK)
    [edge_from [OpenL], edge_to [OpenL], edge_writes [''promises''],
     edge_gate project_reject ''the promise is Submitted'' gate_reject,
     edge_effect project_reject effect_reject]"

definition keep_edge :: convoy_declared where
  "keep_edge = chained (edge_new KeepK)
    [edge_from [OpenL], edge_to [OpenL], edge_writes [''promises''],
     edge_gate project_keep
       ''evidence of the current submission, or an authorised verdict with a reason'' gate_keep,
     edge_effect project_keep effect_keep]"

definition retract_edge :: convoy_declared where
  "retract_edge = chained (edge_new RetractK)
    [edge_from [OpenL], edge_to [OpenL], edge_writes [''promises''],
     edge_gate project_retract ''the promise's source authority retracts it, with a reason'' gate_retract,
     edge_effect project_retract effect_retract]"

definition reassign_edge :: convoy_declared where
  "reassign_edge = chained (edge_new ReassignK)
    [edge_from [OpenL], edge_to [OpenL], edge_writes [''promises''],
     edge_gate project_reassign
       ''the owner, its supervisor or an operator hands an open promise to a seat'' gate_reassign,
     edge_effect project_reassign reassign]"

definition retire_duty_edge :: convoy_declared where
  "retire_duty_edge = chained (edge_new RetireDutyK)
    [edge_from [OpenL], edge_to [OpenL], edge_changes [''retired''],
     edge_gate project_retire_duty ''an authorised retirement of a holding lifetime duty'' gate_retire_duty,
     edge_effect project_retire_duty retire_duty]"

definition add_seat_edge :: convoy_declared where
  "add_seat_edge = chained (edge_new AddSeatK)
    [edge_from [OpenL], edge_to [OpenL], edge_writes [''seats''],
     edge_gate project_add_seat ''an authorised new seat under an existing one'' gate_add_seat,
     edge_effect project_add_seat add_seat]"

definition resupervise_edge :: convoy_declared where
  "resupervise_edge = chained (edge_new ResuperviseK)
    [edge_from [OpenL], edge_to [OpenL], edge_writes [''seats''],
     edge_gate project_resupervise ''an authorised change of a seat's supervisor'' gate_resupervise,
     edge_effect project_resupervise resupervise]"

definition retire_seat_edge :: convoy_declared where
  "retire_seat_edge = chained (edge_new RetireSeatK)
    [edge_from [OpenL], edge_to [OpenL], edge_writes [''seats''],
     edge_gate project_retire_seat
       ''authorised, known, live, with no open promises or live duties'' gate_retire_seat,
     edge_effect project_retire_seat effect_retire_seat]"

definition replace_seat_edge :: convoy_declared where
  "replace_seat_edge = chained (edge_new ReplaceSeatK)
    [edge_from [OpenL], edge_to [OpenL], edge_writes [''seats''],
     edge_gate project_replace_seat ''a live seat below its replacement limit'' gate_replace_seat,
     edge_effect project_replace_seat effect_replace_seat]"

definition rollover_edge :: convoy_declared where
  "rollover_edge = chained (edge_new RolloverK)
    [edge_from [OpenL], edge_to [OpenL],
     edge_writes [''seats'', ''promises'', ''duties'', ''promise_floor''],
     edge_changes [''retired''],
     edge_gate project_rollover ''authorised standing convoy with no open promises'' gate_rollover,
     edge_effect project_rollover rollover]"

definition deliver_convoy_edge :: convoy_declared where
  "deliver_convoy_edge = chained (edge_new DeliverConvoyK)
    [edge_from [OpenL], edge_to [DeliveredL],
     edge_gate project_deliver_convoy ''nothing open and no lifetime duty holding'' gate_deliver_convoy,
     edge_effect project_deliver_convoy deliver_convoy]"

definition abandon_edge :: convoy_declared where
  "abandon_edge = chained (edge_new AbandonK)
    [edge_from [OpenL], edge_to [AbandonedL], edge_changes [''reason''],
     edge_gate project_abandon ''an authorised decision with a reason'' gate_abandon,
     edge_effect project_abandon abandon]"

definition readmit_edge :: convoy_declared where
  "readmit_edge = chained (edge_new ReadmitK)
    [edge_from [OpenL], edge_to [OpenL], edge_changes [''quota''],
     edge_gate project_readmit ''an authorised quota over the same classes, no count lower'' gate_readmit,
     edge_effect project_readmit readmit]"

definition convoy_definition ::
  "(convoy_label, convoy_kind, convoy_state, convoy_edge, convoy_spec, convoy_world, convoy_write,
    convoy_refusal) machine_def" where
  "convoy_definition =
    chained (machine_new OpenL)
      [machine_edge declare_edge, machine_edge submit_edge, machine_edge reject_edge,
       machine_edge keep_edge, machine_edge retract_edge, machine_edge reassign_edge,
       machine_edge retire_duty_edge, machine_edge add_seat_edge, machine_edge resupervise_edge,
       machine_edge retire_seat_edge, machine_edge replace_seat_edge, machine_edge rollover_edge,
       machine_edge deliver_convoy_edge, machine_edge abandon_edge, machine_edge readmit_edge,
       machine_end DeliveredL ''the convoy delivered its work'',
       machine_end AbandonedL ''the convoy was abandoned'']"

section \<open>Admission\<close>

fun climbs :: "nat \<Rightarrow> (seat_name, seat_name option) btree_map \<Rightarrow> seat_name option \<Rightarrow> bool" where
  "climbs 0 parent at = (at = None)"
| "climbs (Suc n) parent at =
    (case at of
       None \<Rightarrow> True
     | Some name \<Rightarrow> climbs n parent (case bm_get parent name of None \<Rightarrow> None | Some p \<Rightarrow> p))"

definition parent_map :: "seat list \<Rightarrow> (seat_name, seat_name option) btree_map" where
  "parent_map seats = fold (\<lambda>s. bm_insert (seat_name_of s) (s_parent s)) seats []"

definition acyclic_seats :: "seat list \<Rightarrow> bool" where
  "acyclic_seats seats = list_all (\<lambda>s. climbs (length seats) (parent_map seats) (s_parent s)) seats"

definition seats_closed :: "convoy_request \<Rightarrow> bool" where
  "seats_closed rq =
    (let seats = bs_of_list (map seat_name_of (rq_seats rq))
     in list_all (\<lambda>kv. ap_owner (snd kv) \<in> set seats) (rq_promises rq)
      \<and> list_all (\<lambda>kv. d_owner (snd kv) \<in> set seats) (rq_duties rq)
      \<and> list_all (\<lambda>s. case s_parent s of None \<Rightarrow> True | Some p \<Rightarrow> p \<in> set seats) (rq_seats rq)
      \<and> length seats = length (rq_seats rq))"

definition admitted_row :: "timestamp \<Rightarrow> promise_id \<times> admitted_promise \<Rightarrow> promise" where
  "admitted_row now kv =
    \<lparr>p_id = fst kv, p_label = ap_label (snd kv), p_kind = ap_kind (snd kv),
     p_target = ap_target (snd kv), p_source = ap_source (snd kv), p_owner = ap_owner (snd kv),
     p_progress = \<lparr>st_value = PPending, st_since = now\<rparr>, p_submissions = []\<rparr>"

definition convoy_admit ::
  "convoy_world admission \<Rightarrow> convoy_request
    \<Rightarrow> (convoy_refusal + convoy_spec \<times> convoy_state) \<times> convoy_world admission" where
  "convoy_admit a rq =
    (if rq_promises rq = [] \<and> \<not> list_ex (\<lambda>kv. d_scope (snd kv) = Lifetime) (rq_duties rq)
     then (Inl NoObligations, a)
     else (case admission_read Project (rq_project rq) a of
       (None, a1) \<Rightarrow> (Inl UnknownProject, a1)
     | (Some _, a1) \<Rightarrow>
         if \<not> seats_closed rq then (Inl UnknownSeat, a1)
         else if \<not> acyclic_seats (rq_seats rq) then (Inl SeatCycle, a1)
         else (case admission_read ConvoyLimits limits_reference a1 of
           (found, a2) \<Rightarrow>
             if lm_seats (limits_read found) < length (bs_of_list (map seat_name_of (rq_seats rq)))
             then (Inl SeatsFull, a2)
             else (case (try_fold (records_append 0)
                        (map (\<lambda>s. s\<lparr>s_retired := False, s_replacements := 0\<rparr>) (rq_seats rq)) [],
                      try_fold (records_append 0) (map (admitted_row (a_now a2)) (rq_promises rq)) []) of
                 (Inl _, _) \<Rightarrow> (Inl (Panicked ''a request holds fewer than 2^32 seats''), a2)
               | (Inr seats, Inl _) \<Rightarrow> (Inl (Panicked ''a request holds fewer than 2^32 promises''), a2)
               | (Inr seats, Inr promises) \<Rightarrow>
                   (Inr (\<lparr>cs_project = rq_project rq, cs_promise_floor = 0, cs_priority = rq_priority rq,
                          cs_kinds = rq_kinds rq, cs_duties = rq_duties rq,
                          cs_seats = seats, cs_promises = promises\<rparr>,
                         Open (rq_quota rq) []), a2)))))"

definition convoy_machine ::
  "(convoy_label, convoy_kind, convoy_state, convoy_edge, convoy_spec, convoy_world, convoy_write,
    convoy_refusal, convoy_datum, convoy_request) machine" where
  "convoy_machine =
    \<lparr>m_name = ''Convoy'', m_label = convoy_label_of, m_data = convoy_data,
     m_fields = convoy_fields, m_labels = [OpenL, DeliveredL, AbandonedL],
     m_label_name = (\<lambda>l. case l of OpenL \<Rightarrow> ''Open'' | DeliveredL \<Rightarrow> ''Delivered'' | AbandonedL \<Rightarrow> ''Abandoned''),
     m_label_code = (\<lambda>l. case l of OpenL \<Rightarrow> ''op'' | DeliveredL \<Rightarrow> ''de'' | AbandonedL \<Rightarrow> ''ab''),
     m_kind = convoy_kind_of,
     m_kinds = [DeclareK, SubmitK, RejectK, KeepK, RetractK, ReassignK, RetireDutyK, AddSeatK,
       ResuperviseK, RetireSeatK, RolloverK, ReplaceSeatK, DeliverConvoyK, AbandonK, ReadmitK],
     m_kind_name = (\<lambda>k. case k of DeclareK \<Rightarrow> ''declare'' | SubmitK \<Rightarrow> ''submit'' | RejectK \<Rightarrow> ''reject''
       | KeepK \<Rightarrow> ''keep'' | RetractK \<Rightarrow> ''retract'' | ReassignK \<Rightarrow> ''reassign'' | RetireDutyK \<Rightarrow> ''retire_duty''
       | AddSeatK \<Rightarrow> ''add_seat'' | ResuperviseK \<Rightarrow> ''resupervise'' | RetireSeatK \<Rightarrow> ''retire_seat''
       | RolloverK \<Rightarrow> ''rollover'' | ReplaceSeatK \<Rightarrow> ''replace_seat'' | DeliverConvoyK \<Rightarrow> ''deliver''
       | AbandonK \<Rightarrow> ''abandon'' | ReadmitK \<Rightarrow> ''readmit''),
     m_kind_code = (\<lambda>k. case k of DeclareK \<Rightarrow> ''dc'' | SubmitK \<Rightarrow> ''su'' | RejectK \<Rightarrow> ''rj''
       | KeepK \<Rightarrow> ''ke'' | RetractK \<Rightarrow> ''rt'' | ReassignK \<Rightarrow> ''rs'' | RetireDutyK \<Rightarrow> ''rd''
       | AddSeatK \<Rightarrow> ''as'' | ResuperviseK \<Rightarrow> ''sv'' | RetireSeatK \<Rightarrow> ''sr''
       | RolloverK \<Rightarrow> ''ro'' | ReplaceSeatK \<Rightarrow> ''rp'' | DeliverConvoyK \<Rightarrow> ''de''
       | AbandonK \<Rightarrow> ''ab'' | ReadmitK \<Rightarrow> ''ra''),
     m_write_field = convoy_write_field, m_write_apply = convoy_write_apply,
     m_ended = (\<lambda>_ _. Convoy_NotOpen), m_wrong_state = (\<lambda>_ _. Convoy_NotOpen),
     m_definition = convoy_definition,
     m_admit = convoy_admit\<rparr>"

end
