(* ===== verification/Convoy_Steps.thy ===== *)
theory Convoy_Steps
  imports Convoy_Machine
begin

text \<open>
  What each edge of an Open convoy does: its step is its gate and then its effect, and never a
  fault; an ended convoy refuses every edge.
\<close>

section \<open>Lemmas: steps\<close>

lemmas convoy_project_defs = project_declare_def project_submit_def project_reject_def project_keep_def project_retract_def project_reassign_def project_retire_duty_def project_add_seat_def project_resupervise_def project_retire_seat_def project_replace_seat_def project_rollover_def project_deliver_convoy_def project_abandon_def project_readmit_def

lemmas convoy_edge_defs = declare_edge_def submit_edge_def reject_edge_def keep_edge_def retract_edge_def reassign_edge_def retire_duty_edge_def add_seat_edge_def resupervise_edge_def retire_seat_edge_def replace_seat_edge_def rollover_edge_def deliver_convoy_edge_def abandon_edge_def readmit_edge_def

lemmas convoy_effect_defs = declare_promise_def submit_def set_progress_def effect_reject_def
  effect_keep_def effect_retract_def reassign_def add_seat_def resupervise_def
  effect_retire_seat_def effect_replace_seat_def rollover_def Let_def

lemma convoy_kinds:
  "d_kind declare_edge = DeclareK"
  "d_kind submit_edge = SubmitK"
  "d_kind reject_edge = RejectK"
  "d_kind keep_edge = KeepK"
  "d_kind retract_edge = RetractK"
  "d_kind reassign_edge = ReassignK"
  "d_kind retire_duty_edge = RetireDutyK"
  "d_kind add_seat_edge = AddSeatK"
  "d_kind resupervise_edge = ResuperviseK"
  "d_kind retire_seat_edge = RetireSeatK"
  "d_kind replace_seat_edge = ReplaceSeatK"
  "d_kind rollover_edge = RolloverK"
  "d_kind deliver_convoy_edge = DeliverConvoyK"
  "d_kind abandon_edge = AbandonK"
  "d_kind readmit_edge = ReadmitK"
  by (simp_all add: convoy_edge_defs edge_builder_defs)

lemma convoy_definition_eq:
  "convoy_definition =
    \<lparr>md_initial = OpenL,
     md_edges = [declare_edge, submit_edge, reject_edge, keep_edge, retract_edge, reassign_edge, retire_duty_edge, add_seat_edge, resupervise_edge, retire_seat_edge, replace_seat_edge, rollover_edge, deliver_convoy_edge, abandon_edge, readmit_edge],
     md_ends = [(DeliveredL, ''the convoy delivered its work''), (AbandonedL, ''the convoy was abandoned'')],
     md_by_kind = [(ReadmitK, 14), (AbandonK, 13), (DeliverConvoyK, 12), (RolloverK, 11), (ReplaceSeatK, 10), (RetireSeatK, 9), (ResuperviseK, 8), (AddSeatK, 7), (RetireDutyK, 6), (ReassignK, 5), (RetractK, 4), (KeepK, 3), (RejectK, 2), (SubmitK, 1), (DeclareK, 0)]\<rparr>"
  by (simp add: convoy_definition_def machine_builder_defs convoy_kinds)

lemma convoy_find:
  "find_edge convoy_definition DeclareK = Some declare_edge"
  "find_edge convoy_definition SubmitK = Some submit_edge"
  "find_edge convoy_definition RejectK = Some reject_edge"
  "find_edge convoy_definition KeepK = Some keep_edge"
  "find_edge convoy_definition RetractK = Some retract_edge"
  "find_edge convoy_definition ReassignK = Some reassign_edge"
  "find_edge convoy_definition RetireDutyK = Some retire_duty_edge"
  "find_edge convoy_definition AddSeatK = Some add_seat_edge"
  "find_edge convoy_definition ResuperviseK = Some resupervise_edge"
  "find_edge convoy_definition RetireSeatK = Some retire_seat_edge"
  "find_edge convoy_definition ReplaceSeatK = Some replace_seat_edge"
  "find_edge convoy_definition RolloverK = Some rollover_edge"
  "find_edge convoy_definition DeliverConvoyK = Some deliver_convoy_edge"
  "find_edge convoy_definition AbandonK = Some abandon_edge"
  "find_edge convoy_definition ReadmitK = Some readmit_edge"
  by (simp_all add: find_edge_def convoy_definition_eq eval_nat_numeral)

lemma convoy_ends:
  "end_reason convoy_definition OpenL = None"
  "end_reason convoy_definition DeliveredL = Some ''the convoy delivered its work''"
  "end_reason convoy_definition AbandonedL = Some ''the convoy was abandoned''"
  by (simp_all add: convoy_definition_eq end_reason_def)

lemma convoy_machine_simps [simp]:
  "m_definition convoy_machine = convoy_definition"
  "m_label convoy_machine = convoy_label_of"
  "m_data convoy_machine = convoy_data"
  "m_kind convoy_machine = convoy_kind_of"
  "m_ended convoy_machine l r = Convoy_NotOpen"
  "m_wrong_state convoy_machine l k = Convoy_NotOpen"
  "m_write_field convoy_machine = convoy_write_field"
  "m_write_apply convoy_machine = convoy_write_apply"
  "m_admit convoy_machine = convoy_admit"
  by (simp_all add: convoy_machine_def)

lemma authorised_view [simp]: "same_view h (snd (convoy_authorised h a))"
  by (simp add: convoy_authorised_def handle_read_eq)

lemma gate_declare_view: "same_view h (snd (gate_declare h a))"
  by (simp add: gate_declare_def convoy_authorised_def handle_read_eq Let_def
      split: option.split sum.split keep_arg.split prod.split)

lemma gate_submit_view: "same_view h (snd (gate_submit h a))"
  by (simp add: gate_submit_def convoy_authorised_def handle_read_eq Let_def
      split: option.split sum.split keep_arg.split prod.split)

lemma gate_reject_view: "same_view h (snd (gate_reject h a))"
  by (simp add: gate_reject_def convoy_authorised_def handle_read_eq Let_def
      split: option.split sum.split keep_arg.split prod.split)

lemma gate_keep_view: "same_view h (snd (gate_keep h a))"
  by (simp add: gate_keep_def convoy_authorised_def handle_read_eq Let_def
      split: option.split sum.split keep_arg.split prod.split)

lemma gate_retract_view: "same_view h (snd (gate_retract h a))"
  by (simp add: gate_retract_def convoy_authorised_def handle_read_eq Let_def
      split: option.split sum.split keep_arg.split prod.split)

lemma gate_reassign_view: "same_view h (snd (gate_reassign h a))"
  by (simp add: gate_reassign_def convoy_authorised_def handle_read_eq Let_def
      split: option.split sum.split keep_arg.split prod.split)

lemma gate_retire_duty_view: "same_view h (snd (gate_retire_duty h a))"
  by (simp add: gate_retire_duty_def convoy_authorised_def handle_read_eq Let_def
      split: option.split sum.split keep_arg.split prod.split)

lemma gate_add_seat_view: "same_view h (snd (gate_add_seat h a))"
  by (simp add: gate_add_seat_def convoy_authorised_def handle_read_eq Let_def
      split: option.split sum.split keep_arg.split prod.split)

lemma gate_resupervise_view: "same_view h (snd (gate_resupervise h a))"
  by (simp add: gate_resupervise_def convoy_authorised_def handle_read_eq Let_def
      split: option.split sum.split keep_arg.split prod.split)

lemma gate_retire_seat_view: "same_view h (snd (gate_retire_seat h a))"
  by (simp add: gate_retire_seat_def convoy_authorised_def handle_read_eq Let_def
      split: option.split sum.split keep_arg.split prod.split)

lemma gate_replace_seat_view: "same_view h (snd (gate_replace_seat h a))"
  by (simp add: gate_replace_seat_def convoy_authorised_def handle_read_eq Let_def
      split: option.split sum.split keep_arg.split prod.split)

lemma gate_rollover_view: "same_view h (snd (gate_rollover h a))"
  by (simp add: gate_rollover_def convoy_authorised_def handle_read_eq Let_def
      split: option.split sum.split keep_arg.split prod.split)

lemma gate_deliver_convoy_view: "same_view h (snd (gate_deliver_convoy h a))"
  by (simp add: gate_deliver_convoy_def convoy_authorised_def handle_read_eq Let_def
      split: option.split sum.split keep_arg.split prod.split)

lemma gate_abandon_view: "same_view h (snd (gate_abandon h a))"
  by (simp add: gate_abandon_def convoy_authorised_def handle_read_eq Let_def
      split: option.split sum.split keep_arg.split prod.split)

lemma gate_readmit_view: "same_view h (snd (gate_readmit h a))"
  by (simp add: gate_readmit_def convoy_authorised_def handle_read_eq Let_def
      split: option.split sum.split keep_arg.split prod.split)

lemmas convoy_gates_view = gate_declare_view gate_submit_view gate_reject_view gate_keep_view gate_retract_view gate_reassign_view gate_retire_duty_view gate_add_seat_view gate_resupervise_view gate_retire_seat_view gate_replace_seat_view gate_rollover_view gate_deliver_convoy_view gate_abandon_view gate_readmit_view

lemma convoy_changed:
  "set (changed (convoy_data (Open q r)) (convoy_data (Open q r'))) \<subseteq> {''retired''}"
  "set (changed (convoy_data (Open q r)) (convoy_data (Open q' r))) \<subseteq> {''quota''}"
  "changed (convoy_data (Open q r)) (convoy_data (Delivered q r)) = []"
  "set (changed (convoy_data (Open q r)) (convoy_data (Abandoned q r w))) \<subseteq> {''reason''}"
     apply (simp_all only: changed_subset)
     apply (simp_all add: changed_def)
  done

lemmas convoy_step_simps = convoy_find convoy_ends convoy_edge_defs edge_builder_defs
  convoy_changed convoy_gates_view convoy_project_defs convoy_effect_defs

lemma step_declare:
  assumes "h_state h = Open q r"
  shows "step convoy_machine (Declare a) h = gated (gate_declare h a) (\<lambda>h1. declare_promise h1 (Open q r) a)"
  using assms by (subst step_of_gated [where d = declare_edge and p = project_declare
        and gate = gate_declare and eff = declare_promise and arg = "a"])
    (simp_all add: convoy_step_simps del: convoy_data.simps split: option.splits prod.splits)

lemma step_submit:
  assumes "h_state h = Open q r"
  shows "step convoy_machine (Submit a) h = gated (gate_submit h a) (\<lambda>h1. submit h1 (Open q r) a)"
  using assms by (subst step_of_gated [where d = submit_edge and p = project_submit
        and gate = gate_submit and eff = submit and arg = "a"])
    (simp_all add: convoy_step_simps del: convoy_data.simps split: option.splits prod.splits)

lemma step_reject:
  assumes "h_state h = Open q r"
  shows "step convoy_machine (Reject a) h = gated (gate_reject h a) (\<lambda>h1. effect_reject h1 (Open q r) a)"
  using assms by (subst step_of_gated [where d = reject_edge and p = project_reject
        and gate = gate_reject and eff = effect_reject and arg = "a"])
    (simp_all add: convoy_step_simps del: convoy_data.simps split: option.splits prod.splits)

lemma step_keep:
  assumes "h_state h = Open q r"
  shows "step convoy_machine (Keep a) h = gated (gate_keep h a) (\<lambda>h1. effect_keep h1 (Open q r) a)"
  using assms by (subst step_of_gated [where d = keep_edge and p = project_keep
        and gate = gate_keep and eff = effect_keep and arg = "a"])
    (simp_all add: convoy_step_simps del: convoy_data.simps split: option.splits prod.splits)

lemma step_retract:
  assumes "h_state h = Open q r"
  shows "step convoy_machine (Retract a) h = gated (gate_retract h a) (\<lambda>h1. effect_retract h1 (Open q r) a)"
  using assms by (subst step_of_gated [where d = retract_edge and p = project_retract
        and gate = gate_retract and eff = effect_retract and arg = "a"])
    (simp_all add: convoy_step_simps del: convoy_data.simps split: option.splits prod.splits)

lemma step_reassign:
  assumes "h_state h = Open q r"
  shows "step convoy_machine (Reassign a) h = gated (gate_reassign h a) (\<lambda>h1. reassign h1 (Open q r) a)"
  using assms by (subst step_of_gated [where d = reassign_edge and p = project_reassign
        and gate = gate_reassign and eff = reassign and arg = "a"])
    (simp_all add: convoy_step_simps del: convoy_data.simps split: option.splits prod.splits)

lemma step_retire_duty:
  assumes "h_state h = Open q r"
  shows "step convoy_machine (RetireDuty a) h = gated (gate_retire_duty h a) (\<lambda>h1. retire_duty h1 (Open q r) a)"
  using assms by (subst step_of_gated [where d = retire_duty_edge and p = project_retire_duty
        and gate = gate_retire_duty and eff = retire_duty and arg = "a"])
    (simp_all add: convoy_step_simps del: convoy_data.simps split: option.splits prod.splits)

lemma step_add_seat:
  assumes "h_state h = Open q r"
  shows "step convoy_machine (AddSeat a) h = gated (gate_add_seat h a) (\<lambda>h1. add_seat h1 (Open q r) a)"
  using assms by (subst step_of_gated [where d = add_seat_edge and p = project_add_seat
        and gate = gate_add_seat and eff = add_seat and arg = "a"])
    (simp_all add: convoy_step_simps del: convoy_data.simps split: option.splits prod.splits)

lemma step_resupervise:
  assumes "h_state h = Open q r"
  shows "step convoy_machine (Resupervise a) h = gated (gate_resupervise h a) (\<lambda>h1. resupervise h1 (Open q r) a)"
  using assms by (subst step_of_gated [where d = resupervise_edge and p = project_resupervise
        and gate = gate_resupervise and eff = resupervise and arg = "a"])
    (simp_all add: convoy_step_simps del: convoy_data.simps split: option.splits prod.splits)

lemma step_retire_seat:
  assumes "h_state h = Open q r"
  shows "step convoy_machine (RetireSeat a) h = gated (gate_retire_seat h a) (\<lambda>h1. effect_retire_seat h1 (Open q r) a)"
  using assms by (subst step_of_gated [where d = retire_seat_edge and p = project_retire_seat
        and gate = gate_retire_seat and eff = effect_retire_seat and arg = "a"])
    (simp_all add: convoy_step_simps del: convoy_data.simps split: option.splits prod.splits)

lemma step_replace_seat:
  assumes "h_state h = Open q r"
  shows "step convoy_machine (ReplaceSeat a) h = gated (gate_replace_seat h a) (\<lambda>h1. effect_replace_seat h1 (Open q r) a)"
  using assms by (subst step_of_gated [where d = replace_seat_edge and p = project_replace_seat
        and gate = gate_replace_seat and eff = effect_replace_seat and arg = "a"])
    (simp_all add: convoy_step_simps del: convoy_data.simps split: option.splits prod.splits)

lemma step_rollover:
  assumes "h_state h = Open q r"
  shows "step convoy_machine (Rollover a) h = gated (gate_rollover h a) (\<lambda>h1. rollover h1 (Open q r) a)"
  using assms by (subst step_of_gated [where d = rollover_edge and p = project_rollover
        and gate = gate_rollover and eff = rollover and arg = "a"])
    (simp_all add: convoy_step_simps del: convoy_data.simps split: option.splits prod.splits)

lemma step_deliver_convoy:
  assumes "h_state h = Open q r"
  shows "step convoy_machine DeliverConvoy h = gated (gate_deliver_convoy h ()) (\<lambda>h1. deliver_convoy h1 (Open q r) ())"
  using assms by (subst step_of_gated [where d = deliver_convoy_edge and p = project_deliver_convoy
        and gate = gate_deliver_convoy and eff = deliver_convoy and arg = "()"])
    (simp_all add: convoy_step_simps del: convoy_data.simps split: option.splits prod.splits)

lemma step_abandon:
  assumes "h_state h = Open q r"
  shows "step convoy_machine (Abandon a) h = gated (gate_abandon h a) (\<lambda>h1. abandon h1 (Open q r) a)"
  using assms by (subst step_of_gated [where d = abandon_edge and p = project_abandon
        and gate = gate_abandon and eff = abandon and arg = "a"])
    (simp_all add: convoy_step_simps del: convoy_data.simps split: option.splits prod.splits)

lemma step_readmit:
  assumes "h_state h = Open q r"
  shows "step convoy_machine (Readmit a) h = gated (gate_readmit h a) (\<lambda>h1. readmit h1 (Open q r) a)"
  using assms by (subst step_of_gated [where d = readmit_edge and p = project_readmit
        and gate = gate_readmit and eff = readmit and arg = "a"])
    (simp_all add: convoy_step_simps del: convoy_data.simps split: option.splits prod.splits)

lemmas convoy_steps = step_declare step_submit step_reject step_keep step_retract step_reassign step_retire_duty step_add_seat step_resupervise step_retire_seat step_replace_seat step_rollover step_deliver_convoy step_abandon step_readmit

lemma convoy_step_ended:
  "convoy_label_of (h_state h) \<noteq> OpenL \<Longrightarrow> step convoy_machine e h = (Inl (Refused Convoy_NotOpen), h)"
  by (cases "h_state h")
    (simp_all add: step_ended [where reason = "''the convoy delivered its work''"]
      step_ended [where reason = "''the convoy was abandoned''"] convoy_ends)

lemma convoy_step_no_fault: "fst (step convoy_machine e h) \<noteq> Inl (Fault f)"
proof (cases "h_state h")
  case (Open q r)
  then show ?thesis
    by (cases e) (simp_all add: convoy_steps)
qed (simp_all add: convoy_step_ended)

end
