(* ===== verification/Convoy_Refinement.thy ===== *)
theory Convoy_Refinement
  imports Convoy_Steps
begin

text \<open>
  An abstract specification of the convoy and the proof that the machine implements it.

  \<open>convoy_accepts h e state ws\<close> says, edge by edge, on what evidence an Open convoy takes edge \<open>e\<close>,
  the state it then has and the record writes it makes: a rule for each edge of the specification,
  without the order in which the gates check or the declaration the engine interprets. The engine's
  step over the declared machine accepts exactly these.
\<close>

section \<open>The specification\<close>

definition declared_promise :: "timestamp \<Rightarrow> declare_arg \<Rightarrow> promise" where
  "declared_promise now d =
    \<lparr>p_id = dc_promise d, p_label = dc_label d, p_kind = dc_kind d, p_target = dc_target d,
     p_source = Crew, p_owner = dc_owner d,
     p_progress = \<lparr>st_value = PPending, st_since = now\<rparr>, p_submissions = []\<rparr>"

definition added_seat :: "add_seat_arg \<Rightarrow> seat" where
  "added_seat a =
    \<lparr>s_role = sn_role (as_seat a), s_seat = sn_seat (as_seat a), s_parent = Some (as_parent a),
     s_supervised_by = as_supervised_by a, s_retired = False, s_replacements = 0\<rparr>"

definition is_authorised :: "convoy_handle \<Rightarrow> string \<Rightarrow> bool" where
  "is_authorised h authority \<longleftrightarrow> look Authorisation authority h = Some True"

definition configured :: "convoy_handle \<Rightarrow> limits" where
  "configured h = limits_read (look ConvoyLimits limits_reference h)"

fun keep_evidence :: "promise \<Rightarrow> keep_arg \<Rightarrow> bool" where
  "keep_evidence p (Observed i n) \<longleftrightarrow>
    st_value (p_progress p) = Submitted \<and> n = min (length (p_submissions p)) u32_max"
| "keep_evidence p (Verdict i by authority reason) \<longleftrightarrow> may_keep p authority \<and> reason \<noteq> []"

inductive convoy_accepts ::
  "convoy_handle \<Rightarrow> convoy_edge \<Rightarrow> convoy_state \<Rightarrow> convoy_write list \<Rightarrow> bool" for h where
  accept_declare:
    "h_state h = Open q r \<Longrightarrow> cs_promise_floor (h_spec h) \<le> dc_promise a \<Longrightarrow>
     find_promise (h_spec h) (dc_promise a) = None \<Longrightarrow>
     find_seat (h_spec h) (dc_owner a) = Some (k, s) \<Longrightarrow> \<not> s_retired s \<Longrightarrow>
     convoy_accepts h (Declare a) (Open q r) [W_Promise (declared_promise (h_now h) a)]"
| accept_submit:
    "h_state h = Open q r \<Longrightarrow> find_promise (h_spec h) (su_promise a) = Some (k, p) \<Longrightarrow> promise_open p \<Longrightarrow>
     su_by a = p_owner p \<Longrightarrow> look Durable (su_durable a) h = Some True \<Longrightarrow>
     convoy_accepts h (Submit a) (Open q r)
       (W_Submission k \<lparr>sb_address = su_address a, sb_revision = su_revision a, sb_by = su_by a\<rparr>
        # (if st_value (p_progress p) = Submitted then []
           else [W_Progress k \<lparr>st_value = Submitted, st_since = h_now h\<rparr>]))"
| accept_reject:
    "h_state h = Open q r \<Longrightarrow> find_promise (h_spec h) i = Some (k, p) \<Longrightarrow>
     st_value (p_progress p) = Submitted \<Longrightarrow>
     convoy_accepts h (Reject i) (Open q r) [W_Progress k \<lparr>st_value = PPending, st_since = h_now h\<rparr>]"
| accept_keep:
    "h_state h = Open q r \<Longrightarrow> find_promise (h_spec h) (keep_promise a) = Some (k, p) \<Longrightarrow>
     promise_open p \<Longrightarrow> keep_evidence p a \<Longrightarrow>
     convoy_accepts h (Keep a) (Open q r) [W_Progress k \<lparr>st_value = Kept, st_since = h_now h\<rparr>]"
| accept_retract:
    "h_state h = Open q r \<Longrightarrow> find_promise (h_spec h) (rt_promise a) = Some (k, p) \<Longrightarrow>
     promise_open p \<Longrightarrow> may_retract p (rt_by a) (rt_authority a) \<Longrightarrow> rt_reason a \<noteq> [] \<Longrightarrow>
     convoy_accepts h (Retract a) (Open q r) [W_Progress k \<lparr>st_value = Retracted, st_since = h_now h\<rparr>]"
| accept_reassign:
    "h_state h = Open q r \<Longrightarrow> find_promise (h_spec h) (rs_promise a) = Some (k, p) \<Longrightarrow>
     promise_open p \<Longrightarrow> may_reassign p (rs_by a) (rs_authority a) \<Longrightarrow>
     find_seat (h_spec h) (rs_to a) = Some (j, s) \<Longrightarrow> \<not> s_retired s \<Longrightarrow> p_owner p \<noteq> rs_to a \<Longrightarrow>
     convoy_accepts h (Reassign a) (Open q r) [W_Owner k (rs_to a)]"
| accept_reassign_same:
    "h_state h = Open q r \<Longrightarrow> find_promise (h_spec h) (rs_promise a) = Some (k, p) \<Longrightarrow>
     promise_open p \<Longrightarrow> may_reassign p (rs_by a) (rs_authority a) \<Longrightarrow>
     find_seat (h_spec h) (rs_to a) = Some (j, s) \<Longrightarrow> \<not> s_retired s \<Longrightarrow> p_owner p = rs_to a \<Longrightarrow>
     convoy_accepts h (Reassign a) (Open q r) []"
| accept_retire_duty:
    "h_state h = Open q r \<Longrightarrow> is_authorised h (rd_authority a) \<Longrightarrow>
     rd_duty a \<in> set (holding (h_spec h) r) \<Longrightarrow>
     convoy_accepts h (RetireDuty a) (Open q (bs_insert (rd_duty a) r)) []"
| accept_add_seat:
    "h_state h = Open q r \<Longrightarrow> is_authorised h (as_authority a) \<Longrightarrow>
     find_seat (h_spec h) (as_seat a) = None \<Longrightarrow> find_seat (h_spec h) (as_parent a) = Some (k, s) \<Longrightarrow>
     \<not> s_retired s \<Longrightarrow> length (cs_seats (h_spec h)) < lm_seats (configured h) \<Longrightarrow>
     convoy_accepts h (AddSeat a) (Open q r) [W_Seat (added_seat a)]"
| accept_resupervise:
    "h_state h = Open q r \<Longrightarrow> is_authorised h (sv_authority a) \<Longrightarrow>
     find_seat (h_spec h) (sv_seat a) = Some (k, s) \<Longrightarrow>
     convoy_accepts h (Resupervise a) (Open q r)
       (if s_supervised_by s = sv_supervised_by a then [] else [W_Supervisor k (sv_supervised_by a)])"
| accept_retire_seat:
    "h_state h = Open q r \<Longrightarrow> is_authorised h (sr_authority a) \<Longrightarrow>
     find_seat (h_spec h) (sr_seat a) = Some (k, s) \<Longrightarrow> \<not> s_retired s \<Longrightarrow>
     (\<And>row. row \<in> set (cs_promises (h_spec h)) \<Longrightarrow> p_owner (row_record row) = sr_seat a
        \<Longrightarrow> \<not> promise_open (row_record row)) \<Longrightarrow>
     seat_duties h (sr_seat a) = [] \<Longrightarrow>
     convoy_accepts h (RetireSeat a) (Open q r) [W_Retired k]"
| accept_replace_seat:
    "h_state h = Open q r \<Longrightarrow> find_seat (h_spec h) n = Some (k, s) \<Longrightarrow> \<not> s_retired s \<Longrightarrow>
     s_replacements s < lm_replacements (configured h) \<Longrightarrow>
     convoy_accepts h (ReplaceSeat n) (Open q r) [W_Replaced k (s_replacements s + 1)]"
| accept_rollover:
    "h_state h = Open q r \<Longrightarrow> is_authorised h (ro_authority a) \<Longrightarrow> holding (h_spec h) r \<noteq> [] \<Longrightarrow>
     outstanding (h_spec h) = [] \<Longrightarrow>
     convoy_accepts h (Rollover a) (Open q [])
       [W_GenerationSeats (cs_seats (h_spec h)) (rollover_seats (h_spec h)),
        W_GenerationPromises (cs_promises (h_spec h)),
        W_GenerationDuties (cs_duties (h_spec h))
          (filter (\<lambda>kv. fst kv \<in> set (holding (h_spec h) r)) (cs_duties (h_spec h))),
        W_PromiseFloor (rollover_floor (h_spec h))]"
| accept_deliver:
    "h_state h = Open q r \<Longrightarrow> outstanding (h_spec h) = [] \<Longrightarrow> holding (h_spec h) r = [] \<Longrightarrow>
     convoy_accepts h DeliverConvoy (Delivered q r) []"
| accept_abandon:
    "h_state h = Open q r \<Longrightarrow> is_authorised h (ab_authority a) \<Longrightarrow> ab_reason a \<noteq> [] \<Longrightarrow>
     convoy_accepts h (Abandon a) (Abandoned q r (ab_reason a)) []"
| accept_readmit:
    "h_state h = Open q r \<Longrightarrow> is_authorised h (ra_authority a) \<Longrightarrow> map fst (ra_quota a) = map fst q \<Longrightarrow>
     (\<And>class count. (class, count) \<in> set (ra_quota a) \<Longrightarrow> \<exists>old. bm_get q class = Some old \<and> old \<le> count) \<Longrightarrow>
     convoy_accepts h (Readmit a) (Open (ra_quota a) r) []"

inductive_simps accepts_declare: "convoy_accepts h (Declare a) st ws"
inductive_simps accepts_submit: "convoy_accepts h (Submit a) st ws"
inductive_simps accepts_reject: "convoy_accepts h (Reject a) st ws"
inductive_simps accepts_keep: "convoy_accepts h (Keep a) st ws"
inductive_simps accepts_retract: "convoy_accepts h (Retract a) st ws"
inductive_simps accepts_reassign: "convoy_accepts h (Reassign a) st ws"
inductive_simps accepts_retire_duty: "convoy_accepts h (RetireDuty a) st ws"
inductive_simps accepts_add_seat: "convoy_accepts h (AddSeat a) st ws"
inductive_simps accepts_resupervise: "convoy_accepts h (Resupervise a) st ws"
inductive_simps accepts_retire_seat: "convoy_accepts h (RetireSeat a) st ws"
inductive_simps accepts_replace_seat: "convoy_accepts h (ReplaceSeat a) st ws"
inductive_simps accepts_rollover: "convoy_accepts h (Rollover a) st ws"
inductive_simps accepts_deliver: "convoy_accepts h DeliverConvoy st ws"
inductive_simps accepts_abandon: "convoy_accepts h (Abandon a) st ws"
inductive_simps accepts_readmit: "convoy_accepts h (Readmit a) st ws"

section \<open>Lemmas\<close>

text \<open>What a step answers and writes, beyond what the handle had written.\<close>

definition takes ::
  "convoy_handle \<Rightarrow> convoy_edge \<Rightarrow> convoy_state \<Rightarrow> convoy_write list \<Rightarrow> bool" where
  "takes h e st ws \<longleftrightarrow> (\<exists>h'. step convoy_machine e h = (Inr st, h') \<and> h_writes h' = h_writes h @ ws)"

lemma takes_gated:
  assumes "step convoy_machine e h = gated g eff" and "same_view h (snd g)"
  shows "takes h e st ws \<longleftrightarrow>
    is_ok (fst g) \<and> fst (eff (snd g)) = st \<and> h_writes (snd (eff (snd g))) = h_writes (snd g) @ ws"
proof (cases g)
  case (Pair res h1)
  with assms show ?thesis
    by (cases res; cases "eff h1") (auto simp: takes_def gated_def same_viewD)
qed

lemma open_promise_InrD:
  "open_promise h i = Inr p \<longleftrightarrow> (\<exists>k. find_promise (h_spec h) i = Some (k, p)) \<and> promise_open p"
  by (auto simp: open_promise_def split: option.splits)

lemma live_seat_ok:
  "is_ok (live_seat spec n) \<longleftrightarrow> (\<exists>k s. find_seat spec n = Some (k, s) \<and> \<not> s_retired s)"
  by (auto simp: live_seat_def split: option.splits)

lemma authorised_fst: "fst (convoy_authorised h a) = is_authorised h a"
  by (auto simp: convoy_authorised_def is_authorised_def handle_read_eq)

lemma takes_declare:
  assumes "h_state h = Open q r"
  shows "takes h (Declare a) st ws \<longleftrightarrow> convoy_accepts h (Declare a) st ws"
  unfolding takes_gated [OF step_declare [OF assms] gate_declare_view] accepts_declare using assms
  by (auto simp: gate_declare_def declare_promise_def declared_promise_def live_seat_ok
      simp del: not_None_eq split: option.splits if_splits keep_arg.splits)

lemma takes_submit:
  assumes "h_state h = Open q r"
  shows "takes h (Submit a) st ws \<longleftrightarrow> convoy_accepts h (Submit a) st ws"
  unfolding takes_gated [OF step_submit [OF assms] gate_submit_view] accepts_submit using assms
  by (auto simp: gate_submit_def submit_def open_promise_def handle_read_eq Let_def
      split: option.splits if_splits keep_arg.splits)

lemma takes_reject:
  assumes "h_state h = Open q r"
  shows "takes h (Reject a) st ws \<longleftrightarrow> convoy_accepts h (Reject a) st ws"
  unfolding takes_gated [OF step_reject [OF assms] gate_reject_view] accepts_reject using assms
  by (auto simp: gate_reject_def effect_reject_def set_progress_def open_promise_def promise_open_def
      split: option.splits if_splits keep_arg.splits)

lemma takes_keep:
  assumes "h_state h = Open q r"
  shows "takes h (Keep a) st ws \<longleftrightarrow> convoy_accepts h (Keep a) st ws"
  unfolding takes_gated [OF step_keep [OF assms] gate_keep_view] accepts_keep using assms
  by (auto simp: gate_keep_def effect_keep_def set_progress_def open_promise_def Let_def
      split: option.splits if_splits keep_arg.splits)

lemma takes_retract:
  assumes "h_state h = Open q r"
  shows "takes h (Retract a) st ws \<longleftrightarrow> convoy_accepts h (Retract a) st ws"
  unfolding takes_gated [OF step_retract [OF assms] gate_retract_view] accepts_retract using assms
  by (auto simp: gate_retract_def effect_retract_def set_progress_def open_promise_def
      split: option.splits if_splits keep_arg.splits)

lemma takes_reassign:
  assumes "h_state h = Open q r"
  shows "takes h (Reassign a) st ws \<longleftrightarrow> convoy_accepts h (Reassign a) st ws"
  unfolding takes_gated [OF step_reassign [OF assms] gate_reassign_view] accepts_reassign using assms
  by (auto simp: gate_reassign_def reassign_def open_promise_def live_seat_ok
      split: option.splits if_splits)

lemma takes_retire_duty:
  assumes "h_state h = Open q r"
  shows "takes h (RetireDuty a) st ws \<longleftrightarrow> convoy_accepts h (RetireDuty a) st ws"
  unfolding takes_gated [OF step_retire_duty [OF assms] gate_retire_duty_view] accepts_retire_duty using assms
  by (auto simp: gate_retire_duty_def convoy_authorised_def is_authorised_def handle_read_eq
      split: option.splits if_splits keep_arg.splits)

lemma takes_add_seat:
  assumes "h_state h = Open q r"
  shows "takes h (AddSeat a) st ws \<longleftrightarrow> convoy_accepts h (AddSeat a) st ws"
  unfolding takes_gated [OF step_add_seat [OF assms] gate_add_seat_view] accepts_add_seat using assms
  by (auto simp: gate_add_seat_def add_seat_def added_seat_def configured_def live_seat_def handle_read_eq convoy_authorised_def is_authorised_def handle_read_eq
      simp del: not_None_eq split: option.splits if_splits keep_arg.splits)

lemma takes_resupervise:
  assumes "h_state h = Open q r"
  shows "takes h (Resupervise a) st ws \<longleftrightarrow> convoy_accepts h (Resupervise a) st ws"
  unfolding takes_gated [OF step_resupervise [OF assms] gate_resupervise_view] accepts_resupervise using assms
  by (auto simp: gate_resupervise_def resupervise_def convoy_authorised_def is_authorised_def handle_read_eq
      split: option.splits if_splits keep_arg.splits)

lemma takes_retire_seat:
  assumes "h_state h = Open q r"
  shows "takes h (RetireSeat a) st ws \<longleftrightarrow> convoy_accepts h (RetireSeat a) st ws"
  unfolding takes_gated [OF step_retire_seat [OF assms] gate_retire_seat_view] accepts_retire_seat using assms
  by (auto simp: gate_retire_seat_def effect_retire_seat_def live_seat_def Let_def filter_empty_conv convoy_authorised_def is_authorised_def handle_read_eq
      split: option.splits if_splits keep_arg.splits)

lemma takes_replace_seat:
  assumes "h_state h = Open q r"
  shows "takes h (ReplaceSeat a) st ws \<longleftrightarrow> convoy_accepts h (ReplaceSeat a) st ws"
  unfolding takes_gated [OF step_replace_seat [OF assms] gate_replace_seat_view] accepts_replace_seat using assms
  by (auto simp: gate_replace_seat_def effect_replace_seat_def configured_def handle_read_eq
      split: option.splits if_splits keep_arg.splits)

lemma takes_rollover:
  assumes "h_state h = Open q r"
  shows "takes h (Rollover a) st ws \<longleftrightarrow> convoy_accepts h (Rollover a) st ws"
  unfolding takes_gated [OF step_rollover [OF assms] gate_rollover_view] accepts_rollover using assms
  by (auto simp: gate_rollover_def rollover_def Let_def convoy_authorised_def is_authorised_def handle_read_eq
      split: option.splits if_splits keep_arg.splits)

lemma takes_deliver_convoy:
  assumes "h_state h = Open q r"
  shows "takes h DeliverConvoy st ws \<longleftrightarrow> convoy_accepts h DeliverConvoy st ws"
  unfolding takes_gated [OF step_deliver_convoy [OF assms] gate_deliver_convoy_view] accepts_deliver using assms
  by (auto simp: gate_deliver_convoy_def Let_def
      split: option.splits if_splits keep_arg.splits)

lemma takes_abandon:
  assumes "h_state h = Open q r"
  shows "takes h (Abandon a) st ws \<longleftrightarrow> convoy_accepts h (Abandon a) st ws"
  unfolding takes_gated [OF step_abandon [OF assms] gate_abandon_view] accepts_abandon using assms
  by (auto simp: gate_abandon_def convoy_authorised_def is_authorised_def handle_read_eq
      split: option.splits if_splits keep_arg.splits)

lemma takes_readmit:
  assumes "h_state h = Open q r"
  shows "takes h (Readmit a) st ws \<longleftrightarrow> convoy_accepts h (Readmit a) st ws"
  unfolding takes_gated [OF step_readmit [OF assms] gate_readmit_view] accepts_readmit using assms
  by (fastforce simp: gate_readmit_def Let_def list_all_iff convoy_authorised_def is_authorised_def handle_read_eq
      split: option.splits if_splits keep_arg.splits)

lemmas takes_open = takes_declare takes_submit takes_reject takes_keep takes_retract takes_reassign takes_retire_duty takes_add_seat takes_resupervise takes_retire_seat takes_replace_seat takes_rollover takes_deliver_convoy takes_abandon takes_readmit

lemma not_open_accepts: "convoy_accepts h e st ws \<Longrightarrow> \<exists>q r. h_state h = Open q r"
  by (cases rule: convoy_accepts.cases) auto

lemma takes_accepts: "takes h e state ws \<longleftrightarrow> convoy_accepts h e state ws"
proof (cases "h_state h")
  case (Open q r)
  then show ?thesis
    by (cases e) (simp_all add: takes_open)
next
  case (Delivered q r)
  then show ?thesis
    using not_open_accepts by (fastforce simp: takes_def convoy_step_ended)
next
  case (Abandoned q r w)
  then show ?thesis
    using not_open_accepts by (fastforce simp: takes_def convoy_step_ended)
qed

section \<open>Properties\<close>


end
