(* ===== verification/Convoy_Home.thy ===== *)
theory Convoy_Home
  imports Convoy_Invariant "HOL-Library.Sublist"
begin

text \<open>
  Convoys at a home. Admission establishes the invariant (its bounded climb decides acyclicity) and
  every accepted edge keeps it, so every convoy of a home satisfies it after any run; what a convoy
  has settled and recorded stays, over any later edges. The interface \<open>record_writes\<close> is discharged
  here for the convoy's writes: whether they fit does not depend on the version they are stamped with.
\<close>

section \<open>Definitions\<close>

text \<open>What the writes' room depends on: how many seats, and how many submissions each promise has.\<close>

definition convoy_shape :: "convoy_spec \<Rightarrow> nat \<times> nat list" where
  "convoy_shape sp = (length (cs_seats sp), map (\<lambda>p. length (p_submissions p)) (promises_of sp))"

definition same_promise :: "promise \<Rightarrow> promise \<Rightarrow> bool" where
  "same_promise p p' \<longleftrightarrow>
    p_id p' = p_id p \<and> p_label p' = p_label p \<and> p_kind p' = p_kind p \<and> p_target p' = p_target p
    \<and> p_source p' = p_source p
    \<and> prefix (p_submissions p) (p_submissions p')
    \<and> (\<not> promise_open p \<longrightarrow> p' = p)"

definition quota_grows :: "quota \<Rightarrow> quota \<Rightarrow> bool" where
  "quota_grows q q' \<longleftrightarrow> map fst q' = map fst q
    \<and> (\<forall>class count. bm_get q class = Some count \<longrightarrow> (\<exists>count' \<ge> count. bm_get q' class = Some count'))"

definition promises_kept :: "convoy_spec \<Rightarrow> convoy_spec \<Rightarrow> bool" where
  "promises_kept sp sp' \<longleftrightarrow>
    cs_promise_floor sp \<le> cs_promise_floor sp'
    \<and> (\<forall>i < length (promises_of sp). p_id (promises_of sp ! i) < cs_promise_floor sp'
        \<or> (i < length (promises_of sp') \<and> same_promise (promises_of sp ! i) (promises_of sp' ! i)))"

text \<open>
  How a convoy may change: fixed parts stay, an ended convoy is frozen, quota counts never fall, ids
  under the floor are spent, and every promise is kept at its position with its history, unless its
  id fell under a raised floor.
\<close>

definition convoy_moves :: "convoy_spec \<Rightarrow> convoy_state \<Rightarrow> convoy_spec \<Rightarrow> convoy_state \<Rightarrow> bool" where
  "convoy_moves sp st sp' st' \<longleftrightarrow>
    cs_project sp' = cs_project sp \<and> cs_priority sp' = cs_priority sp \<and> cs_kinds sp' = cs_kinds sp
    \<and> (convoy_label_of st \<noteq> OpenL \<longrightarrow> sp' = sp \<and> st' = st)
    \<and> quota_grows (convoy_quota st) (convoy_quota st') \<and> promises_kept sp sp'"

section \<open>The cycle check\<close>

lemma climbs_None [simp]: "climbs n parent None"
  by (cases n) simp_all

lemma parent_map_get:
  assumes "distinct (map seat_name_of seats)"
  shows "bm_get (parent_map seats) n = map_of (links seats) n"
proof -
  have "bm_get (fold (\<lambda>s. bm_insert (seat_name_of s) (s_parent s)) seats m) n
      = (case map_of (links seats) n of None \<Rightarrow> bm_get m n | Some p \<Rightarrow> Some p)" for m
    using assms
    by (induction seats arbitrary: m) (auto simp: links_def split: option.splits dest!: map_of_SomeD)
  from this [of "[]"] show ?thesis
    by (simp add: parent_map_def split: option.splits)
qed

lemma parent_map_parents:
  assumes "distinct (map seat_name_of seats)"
  shows "(n, p) \<in> parents (links seats) \<longleftrightarrow> bm_get (parent_map seats) n = Some (Some p)"
proof -
  have "distinct (map fst (links seats))"
    using assms by (simp add: links_def comp_def)
  then show ?thesis
    by (simp add: parent_map_get [OF assms] parents_def)
qed

lemma cycle_climbs:
  assumes "distinct (map seat_name_of seats)" and "(n, n) \<in> (parents (links seats))\<^sup>+"
  shows "\<not> climbs k (parent_map seats) (Some n)"
  using assms(2)
proof (induction k arbitrary: n)
  case (Suc k)
  then obtain m where m: "(n, m) \<in> parents (links seats)" "(m, n) \<in> (parents (links seats))\<^sup>*"
    by (meson tranclD)
  then have "(m, m) \<in> (parents (links seats))\<^sup>+"
    by auto
  with Suc.IH m(1) show ?case
    by (simp add: parent_map_parents [OF assms(1)])
qed simp

lemma no_climb_chain:
  assumes "distinct (map seat_name_of seats)" and "acyclic (parents (links seats))"
    and "\<not> climbs k (parent_map seats) (Some n)"
  shows "\<exists>A. finite A \<and> card A = k \<and> A \<subseteq> Domain (parents (links seats))
    \<and> (\<forall>a \<in> A. (n, a) \<in> (parents (links seats))\<^sup>*)"
  using assms(3)
proof (induction k arbitrary: n)
  case 0
  show ?case
    by (rule exI [of _ "{}"]) simp
next
  case (Suc k)
  then obtain m where m: "(n, m) \<in> parents (links seats)" "\<not> climbs k (parent_map seats) (Some m)"
    using parent_map_parents [OF assms(1)] by (auto split: option.splits) (metis climbs_None option.exhaust)
  obtain A where A: "finite A" "card A = k" "A \<subseteq> Domain (parents (links seats))"
    "\<forall>a \<in> A. (m, a) \<in> (parents (links seats))\<^sup>*"
    using Suc.IH [OF m(2)] by blast
  have "n \<notin> A"
    using A(4) m(1) assms(2) by (meson acyclic_def rtrancl_into_trancl2)
  with A m show ?case
    by (intro exI [of _ "insert n A"]) (auto intro: converse_rtrancl_into_rtrancl)
qed

lemma acyclic_seats_iff:
  assumes "distinct (map seat_name_of seats)"
  shows "acyclic_seats seats \<longleftrightarrow> acyclic (parents (links seats))"
proof
  assume climbs: "acyclic_seats seats"
  show "acyclic (parents (links seats))"
  proof (rule acyclicI, rule allI, rule notI)
    fix n assume "(n, n) \<in> (parents (links seats))\<^sup>+"
    then obtain m where m: "(n, m) \<in> parents (links seats)" "(m, m) \<in> (parents (links seats))\<^sup>+"
      by (meson rtrancl_into_trancl1 tranclD)
    then obtain s where "s \<in> set seats" "s_parent s = Some m"
      by (auto simp: parents_links)
    with climbs have "climbs (length seats) (parent_map seats) (Some m)"
      by (auto simp: acyclic_seats_def list_all_iff)
    with cycle_climbs [OF assms m(2)] show False
      by simp
  qed
next
  let ?R = "parents (links seats)"
  assume acyclic: "acyclic ?R"
  have "climbs (length seats) (parent_map seats) (s_parent s)" if s: "s \<in> set seats" for s
  proof (rule ccontr)
    assume "\<not> climbs (length seats) (parent_map seats) (s_parent s)"
    then obtain m where m: "s_parent s = Some m" "\<not> climbs (length seats) (parent_map seats) (Some m)"
      by (cases "s_parent s") auto
    obtain A where A: "card A = length seats" "A \<subseteq> Domain ?R" "\<forall>a \<in> A. (m, a) \<in> ?R\<^sup>*" "finite A"
      using no_climb_chain [OF assms acyclic m(2)] by blast
    have dom: "Domain ?R \<subseteq> seat_name_of ` set seats"
      by (auto simp: parents_links)
    then have "card (Domain ?R) \<le> length seats"
      by (meson List.finite_set card_image_le card_length card_mono finite_imageI le_trans)
    then have "A = Domain ?R"
      using A dom by (metis List.finite_set card_seteq finite_imageI finite_subset)
    moreover have "(seat_name_of s, m) \<in> ?R"
      using s m by (auto simp: parents_links)
    ultimately show False
      using A(3) acyclic by (meson DomainI acyclic_def rtrancl_into_trancl2)
  qed
  then show "acyclic_seats seats"
    by (simp add: acyclic_seats_def list_all_iff)
qed

section \<open>Admission\<close>

lemma length_bs_of_list: "length (bs_of_list xs) = length xs \<Longrightarrow> distinct xs"
  by (metis bs_inv_def bs_inv_of_list card_distinct distinct_card set_bs_of_list strict_sorted_iff)

lemma convoy_admit_inv:
  assumes "convoy_admit a rq = (Inr (sp, st), a')"
  shows "convoy_inv sp st"
proof -
  let ?seats = "map (\<lambda>s. s\<lparr>s_retired := False, s_replacements := 0\<rparr>) (rq_seats rq)"
  obtain now seats promises where closed: "seats_closed rq" and acyclic: "acyclic_seats (rq_seats rq)"
    and rows: "try_fold (records_append 0) ?seats [] = Inr seats"
      "try_fold (records_append 0) (map (admitted_row now) (rq_promises rq)) [] = Inr promises"
    and sp: "sp = \<lparr>cs_project = rq_project rq, cs_promise_floor = 0, cs_priority = rq_priority rq,
        cs_kinds = rq_kinds rq, cs_duties = rq_duties rq, cs_seats = seats, cs_promises = promises\<rparr>"
      "st = Open (rq_quota rq) []"
    using assms by (auto simp: convoy_admit_def split: if_splits option.splits prod.splits sum.splits)
  have ss: "seats_of sp = ?seats" "records_dense seats"
    and ps: "promises_of sp = map (admitted_row now) (rq_promises rq)" "records_dense promises"
    using try_fold_records [OF rows(1)] try_fold_records [OF rows(2)] by (simp_all add: sp seats_of_def promises_of_def)
  have distinct: "distinct (map seat_name_of (rq_seats rq))"
    using closed length_bs_of_list [of "map seat_name_of (rq_seats rq)"] by (simp add: seats_closed_def Let_def)
  have name: "seat_name_of (s\<lparr>s_retired := b, s_replacements := n\<rparr>) = seat_name_of s" for s b n
    by (simp add: seat_name_of_def)
  have links: "links (seats_of sp) = links (rq_seats rq)"
    by (simp add: ss links_def comp_def name)
  have live: "live_names (seats_of sp) = seat_name_of ` set (rq_seats rq)"
    by (auto simp: ss live_names_alt name)
  have "Range (parents (links (rq_seats rq))) \<subseteq> seat_name_of ` set (rq_seats rq)"
    using closed by (auto simp: parents_links seats_closed_def Let_def list_all_iff split: option.splits)
  moreover have "map fst (links (rq_seats rq)) = map seat_name_of (rq_seats rq)"
    by (simp add: links_def comp_def)
  ultimately have "forest (links (seats_of sp))"
    unfolding links forest_def fst_links using distinct acyclic_seats_iff [OF distinct] acyclic by simp
  moreover have "promise_ok 0 (live_names (seats_of sp)) p" if "p \<in> set (promises_of sp)" for p
    using that closed by (auto simp: ps live promise_ok_def admitted_row_def seats_closed_def Let_def list_all_iff)
  moreover have "duties_ok (rq_duties rq) [] (live_names (seats_of sp))"
    using closed by (auto simp: live duties_ok_def seats_closed_def Let_def list_all_iff)
  ultimately show ?thesis
    using ss(2) ps(2) by (simp add: convoy_inv_def sp)
qed

section \<open>Record writes\<close>

lemma shape_change:
  assumes "\<And>p. p_submissions (f p) = p_submissions p"
  shows "convoy_shape (sp\<lparr>cs_promises := row_changed k f (cs_promises sp)\<rparr>) = convoy_shape sp"
proof -
  have "map (\<lambda>p. length (p_submissions p)) (xs[k := f (xs ! k)]) = map (\<lambda>p. length (p_submissions p)) xs" for xs
    using assms by (cases "k < length xs") (simp_all add: map_update list_update_beyond, metis list_update_id length_map nth_map)
  then show ?thesis
    by (simp add: convoy_shape_def promises_of_def row_changed_eq)
qed

lemma shape_promises:
  "convoy_shape (sp\<lparr>cs_promises := rows\<rparr>)
    = (fst (convoy_shape sp), map (\<lambda>p. length (p_submissions p)) (map row_record rows))"
  by (simp add: convoy_shape_def promises_of_def)

lemma shape_seats:
  "convoy_shape (sp\<lparr>cs_seats := rows\<rparr>) = (length rows, snd (convoy_shape sp))"
  "convoy_shape (sp\<lparr>cs_duties := d\<rparr>) = convoy_shape sp" "convoy_shape (sp\<lparr>cs_promise_floor := f\<rparr>) = convoy_shape sp"
  by (simp_all add: convoy_shape_def promises_of_def)

text \<open>The outcome of a write, up to the shape, is a function of the shape.\<close>

fun shape_write :: "convoy_write \<Rightarrow> nat \<times> nat list \<Rightarrow> (nat \<times> nat list) option" where
  "shape_write (W_GenerationSeats b a) (n, ls) = (if length a \<le> Suc u32_max then Some (length a, ls) else None)"
| "shape_write (W_GenerationPromises b) (n, ls) = Some (n, [])"
| "shape_write (W_Promise p) (n, ls) =
    (if length ls \<le> u32_max then Some (n, ls @ [length (p_submissions p)]) else None)"
| "shape_write (W_Seat s) (n, ls) = (if n \<le> u32_max then Some (Suc n, ls) else None)"
| "shape_write (W_Submission k sb) (n, ls) =
    (if k < length ls then if ls ! k \<le> u32_max then Some (n, ls[k := Suc (ls ! k)]) else None
     else Some (n, ls))"
| "shape_write _ shape = Some shape"

lemma try_fold_rows_fit:
  "length rows \<le> Suc u32_max \<Longrightarrow>
    (if length rows + length a \<le> Suc u32_max
     then \<exists>rows'. try_fold (\<lambda>row. records_append v (row_record row)) a rows = Inr rows'
       \<and> length rows' = length rows + length a
     else try_fold (\<lambda>row. records_append v (row_record row)) a rows = Inl RecordsFull)"
proof (induction a arbitrary: rows)
  case (Cons x a)
  show ?case
  proof (cases "length rows \<le> u32_max")
    case True
    let ?rows = "rows @ [\<lparr>row_position = length rows, row_version = v, row_record = row_record x\<rparr>]"
    have "records_append v (row_record x) rows = Inr ?rows"
      using True by (simp add: records_append_def)
    with Cons.IH [of ?rows] True show ?thesis
      by (auto split: if_splits)
  next
    case False
    with Cons.prems show ?thesis
      by (simp add: records_append_def)
  qed
qed simp

lemma shape_write_apply:
  "map_option convoy_shape (case convoy_write_apply w v sp of Inl _ \<Rightarrow> None | Inr sp' \<Rightarrow> Some sp')
    = shape_write w (convoy_shape sp)"
proof (cases w)
  case (W_Submission k sb)
  show ?thesis
  proof (cases "k < length (cs_promises sp)")
    case True
    then show ?thesis
      by (simp add: W_Submission records_get_def records_append_def shape_promises row_changed_eq map_update)
        (simp add: convoy_shape_def promises_of_def)
  qed (simp add: W_Submission records_get_def convoy_shape_def)
next
  case (W_GenerationSeats b a)
  then show ?thesis
    using try_fold_rows_fit [of "[]" a v] by (auto simp: convoy_shape_def promises_of_def split: if_splits)
next
  case (W_Promise p)
  then show ?thesis
    by (simp add: shape_promises records_append_def) (simp add: convoy_shape_def promises_of_def)
next
  case (W_GenerationPromises b)
  then show ?thesis
    by (simp add: shape_promises) (simp add: convoy_shape_def)
next
  case (W_Seat s)
  then show ?thesis
    by (simp add: shape_seats records_append_def) (simp add: convoy_shape_def)
qed (simp_all add: shape_change shape_seats, simp_all add: convoy_shape_def)

interpretation convoy_rows: record_writes convoy_write_apply convoy_shape
proof (unfold_locales, goal_cases)
  case (1 sp sp' w v v')
  then show ?case
    using shape_write_apply [of w v sp] shape_write_apply [of w v' sp'] by (auto simp: is_ok_def split: sum.splits)
next
  case (2 sp sp' w v a v' b)
  then show ?case
    using shape_write_apply [of w v sp] shape_write_apply [of w v' sp'] by (metis option.inject option.simps(9) sum.simps(6))
qed

section \<open>Progress\<close>

lemma same_promise_refl [simp]: "same_promise p p"
  by (simp add: same_promise_def)

lemma same_promise_trans: "same_promise p p' \<Longrightarrow> same_promise p' p'' \<Longrightarrow> same_promise p p''"
  by (auto simp: same_promise_def)

lemma quota_grows_refl [simp]: "quota_grows q q"
  by (simp add: quota_grows_def)

lemma quota_grows_trans: "quota_grows q q' \<Longrightarrow> quota_grows q' q'' \<Longrightarrow> quota_grows q q''"
  unfolding quota_grows_def by (metis le_trans)

lemma promises_kept_refl [simp]: "promises_kept sp sp"
  by (simp add: promises_kept_def)

lemma promises_kept_trans:
  assumes "promises_kept sp sp'" and "promises_kept sp' sp''"
  shows "promises_kept sp sp''"
  unfolding promises_kept_def
proof (intro conjI allI impI)
  show "cs_promise_floor sp \<le> cs_promise_floor sp''"
    using assms by (simp add: promises_kept_def)
next
  fix i assume i: "i < length (promises_of sp)"
  show "p_id (promises_of sp ! i) < cs_promise_floor sp''
      \<or> (i < length (promises_of sp'') \<and> same_promise (promises_of sp ! i) (promises_of sp'' ! i))"
  proof (cases "p_id (promises_of sp ! i) < cs_promise_floor sp'")
    case True
    with assms(2) show ?thesis
      by (simp add: promises_kept_def)
  next
    case False
    with assms(1) i have here: "i < length (promises_of sp')" "same_promise (promises_of sp ! i) (promises_of sp' ! i)"
      by (auto simp: promises_kept_def)
    with assms(2) have "p_id (promises_of sp' ! i) < cs_promise_floor sp''
        \<or> (i < length (promises_of sp'') \<and> same_promise (promises_of sp' ! i) (promises_of sp'' ! i))"
      by (simp add: promises_kept_def)
    moreover have "p_id (promises_of sp' ! i) = p_id (promises_of sp ! i)"
      using here(2) by (simp add: same_promise_def)
    ultimately show ?thesis
      using same_promise_trans [OF here(2)] by metis
  qed
qed

lemma moves_refl [simp]: "convoy_moves sp st sp st"
  by (simp add: convoy_moves_def)

lemma moves_trans:
  assumes "convoy_moves sp st sp' st'" and "convoy_moves sp' st' sp'' st''"
  shows "convoy_moves sp st sp'' st''"
proof -
  have "quota_grows (convoy_quota st) (convoy_quota st'')" "promises_kept sp sp''"
    using assms quota_grows_trans promises_kept_trans unfolding convoy_moves_def by metis+
  with assms show ?thesis
    unfolding convoy_moves_def by metis
qed

lemma moves_promise_change:
  assumes "k < length (cs_promises sp) \<Longrightarrow> same_promise (promises_of sp ! k) (f (promises_of sp ! k))"
  shows "convoy_moves sp (Open q r) (sp\<lparr>cs_promises := row_changed k f (cs_promises sp)\<rparr>) (Open q r)"
proof -
  have "promises_of (sp\<lparr>cs_promises := row_changed k f (cs_promises sp)\<rparr>) = (promises_of sp)[k := f (promises_of sp ! k)]"
    by (simp add: promises_of_def row_changed_eq)
  with assms show ?thesis
    by (cases "k < length (cs_promises sp)")
      (auto simp: convoy_moves_def promises_kept_def nth_list_update list_update_beyond)
qed

lemma moves_promise_new:
  assumes "records_append v p (cs_promises sp) = Inr rows"
  shows "convoy_moves sp (Open q r) (sp\<lparr>cs_promises := rows\<rparr>) (Open q r)"
proof -
  have "promises_of (sp\<lparr>cs_promises := rows\<rparr>) = promises_of sp @ [p]"
    using map_row_record_append [OF assms] by (simp add: promises_of_def)
  then show ?thesis
    by (simp add: convoy_moves_def promises_kept_def nth_append)
qed

lemma moves_others:
  "convoy_moves sp (Open q r) (sp\<lparr>cs_seats := rows\<rparr>) (Open q r)"
  "convoy_moves sp (Open q r) sp (Open q r')"
  "convoy_moves sp (Open q r) sp (Delivered q r)"
  "convoy_moves sp (Open q r) sp (Abandoned q r w)"
  by (simp_all add: convoy_moves_def promises_kept_def promises_of_def)

lemma moves_rollover:
  "convoy_moves sp (Open q r) (sp\<lparr>cs_seats := rows, cs_promises := [], cs_duties := d,
     cs_promise_floor := rollover_floor sp\<rparr>) (Open q [])"
  using rollover_floor_above(1) [of _ sp] rollover_floor_above(2) [of sp] nth_mem [of _ "promises_of sp"] by (simp add: convoy_moves_def promises_kept_def)

lemma moves_readmit:
  assumes "map fst q' = map fst q"
    and "\<And>class count. (class, count) \<in> set q' \<Longrightarrow> \<exists>old. bm_get q class = Some old \<and> old \<le> count"
  shows "convoy_moves sp (Open q r) sp (Open q' r)"
proof -
  have "\<exists>count' \<ge> count. bm_get q' cls = Some count'" if old: "bm_get q cls = Some count" for cls count
  proof -
    have "cls \<in> fst ` set q'"
      using old map_of_SomeD [OF old] assms(1) by (metis fst_conv image_eqI set_map)
    then obtain count' where "bm_get q' cls = Some count'"
      by (metis map_of_eq_None_iff not_None_eq)
    with assms(2) [OF map_of_SomeD [OF this]] old show ?thesis
      by auto
  qed
  with assms(1) show ?thesis
    by (simp add: convoy_moves_def quota_grows_def)
qed

lemma moves_progress:
  assumes "find_promise sp i = Some (k, p)" and "promise_open p" and "records_dense (cs_promises sp)"
  shows "convoy_moves sp (Open q r) (sp\<lparr>cs_promises := row_changed k (p_progress_update f) (cs_promises sp)\<rparr>) (Open q r)"
    and "convoy_moves sp (Open q r) (sp\<lparr>cs_promises := row_changed k (p_owner_update g) (cs_promises sp)\<rparr>) (Open q r)"
  using found_promise [OF assms(1,3)] assms(2) by (auto intro!: moves_promise_change simp: same_promise_def)

lemma moves_submission:
  assumes "find_promise sp i = Some (k, p)" and "promise_open p" and dense: "records_dense (cs_promises sp)"
    and sub: "convoy_write_apply (W_Submission k sb) v sp = Inr sp1"
    and rest: "ws = [] \<or> ws = [W_Progress k st]"
    and trial: "trial_writes convoy_write_apply v ws sp1 = Inr sp'"
  shows "convoy_moves sp (Open q r) sp' (Open q r)"
proof -
  note found = found_promise [OF assms(1) dense]
  then obtain rows where rows: "records_append v sb (p_submissions p) = Inr rows"
    and sp1: "sp1 = sp\<lparr>cs_promises := row_changed k (p_submissions_update (\<lambda>_. rows)) (cs_promises sp)\<rparr>"
    using sub by (auto simp: records_get_def promises_of_def split: sum.splits)
  have "prefix (p_submissions p) rows"
    using rows by (auto simp: records_append_def split: if_splits)
  then have first: "convoy_moves sp (Open q r) sp1 (Open q r)"
    unfolding sp1 using found assms(2) by (intro moves_promise_change) (simp add: same_promise_def)
  have "promises_of sp1 ! k = p\<lparr>p_submissions := rows\<rparr>"
    using found by (simp add: sp1 promises_of_def row_changed_eq)
  then have "convoy_moves sp1 (Open q r)
      (sp1\<lparr>cs_promises := row_changed k (p_progress_update (\<lambda>_. st)) (cs_promises sp1)\<rparr>) (Open q r)"
    using assms(2) by (intro moves_promise_change) (simp add: same_promise_def promise_open_def)
  with first rest trial show ?thesis
    using moves_trans by fastforce
qed

lemma moves_accepts:
  assumes "convoy_accepts h e st ws" and inv: "convoy_inv (h_spec h) (h_state h)"
    and trial: "trial_writes convoy_write_apply v ws (h_spec h) = Inr sp"
  shows "convoy_moves (h_spec h) (h_state h) sp st"
proof -
  have dense: "records_dense (cs_promises (h_spec h))" "records_dense (cs_seats (h_spec h))"
    using inv by (simp_all add: convoy_inv_def)
  show ?thesis
    using assms(1)
  proof (cases rule: convoy_accepts.cases)
    case (accept_declare q r a k s)
    with trial show ?thesis
      by (auto intro: moves_promise_new split: sum.splits)
  next
    case (accept_submit q r a k p)
    define rest where "rest = (if st_value (p_progress p) = Submitted then []
      else [W_Progress k \<lparr>st_value = Submitted, st_since = h_now h\<rparr>])"
    obtain sp1 where "convoy_write_apply (W_Submission k
        \<lparr>sb_address = su_address a, sb_revision = su_revision a, sb_by = su_by a\<rparr>) v (h_spec h) = Inr sp1"
      "trial_writes convoy_write_apply v rest sp1 = Inr sp"
      using trial accept_submit(3) by (auto simp: rest_def simp del: convoy_write_apply.simps)
    from moves_submission [OF accept_submit(5,6) dense(1) this(1) _ this(2),
      where st = "\<lparr>st_value = Submitted, st_since = h_now h\<rparr>"] show ?thesis
      by (simp add: rest_def accept_submit(2,4))
  next
    case (accept_reject q r i k p)
    then have "promise_open p"
      by (simp add: promise_open_def)
    from moves_progress [OF accept_reject(5) this dense(1)] accept_reject trial show ?thesis
      by simp
  next
    case (accept_keep q r a k p)
    with moves_progress [OF accept_keep(5,6) dense(1)] trial show ?thesis
      by simp
  next
    case (accept_retract q r a k p)
    with moves_progress [OF accept_retract(5,6) dense(1)] trial show ?thesis
      by simp
  next
    case (accept_reassign q r a k p j s)
    with moves_progress [OF accept_reassign(5,6) dense(1)] trial show ?thesis
      by simp
  next
    case (accept_add_seat q r a k s)
    with trial show ?thesis
      by (auto simp: moves_others split: sum.splits)
  next
    case (accept_resupervise q r a k s)
    with trial show ?thesis
      by (auto simp: moves_others split: if_splits)
  next
    case (accept_rollover q r a)
    with trial show ?thesis
      by (auto simp: moves_rollover split: sum.splits)
  next
    case (accept_readmit q r a)
    with trial show ?thesis
      by (auto intro!: moves_readmit)
  qed (use trial in \<open>simp_all add: moves_others\<close>)
qed

section \<open>Homes\<close>

lemma convoy_step_outcome:
  assumes "step convoy_machine e h = (Inr st, h')" and "h_writes h = []"
    and "is_ok (trial_writes convoy_write_apply 0 (h_writes h') (h_spec h))"
  shows "convoy_accepts h e st (h_writes h')"
    and "trial_writes convoy_write_apply v (h_writes h') (h_spec h)
      = Inr (apply_writes convoy_write_apply v (h_writes h') (h_spec h))"
proof -
  have "takes h e st (h_writes h')"
    using assms(1,2) by (simp add: takes_def)
  then show "convoy_accepts h e st (h_writes h')"
    by (simp add: takes_accepts)
  show "trial_writes convoy_write_apply v (h_writes h') (h_spec h)
      = Inr (apply_writes convoy_write_apply v (h_writes h') (h_spec h))"
    using assms(3) convoy_rows.apply_after_trial by (auto simp: is_ok_iff)
qed

lemma convoy_machine_writes [simp]: "m_write_apply convoy_machine = convoy_write_apply" "m_admit convoy_machine = convoy_admit"
  by (simp_all add: convoy_machine_def)

interpretation convoy: machine_progress convoy_machine convoy_inv convoy_moves
proof (unfold_locales, goal_cases)
  case (1 a request spec state a')
  then show ?case
    using convoy_admit_inv by simp
next
  case (2 h edge state' h' v)
  then show ?case
    using inv_accepts [OF convoy_step_outcome(1) [OF 2(3,2)] _ convoy_step_outcome(2) [OF 2(3,2)]] by simp
next
  case (3 sp s)
  show ?case
    by simp
next
  case (4 sp s sp' s' sp'' s'')
  then show ?case
    by (rule moves_trans)
next
  case (5 h edge state' h' v)
  then show ?case
    using moves_accepts [OF convoy_step_outcome(1) [OF 5(3,2)] _ convoy_step_outcome(2) [OF 5(3,2)]] by simp
qed

lemma convoy_home_inv:
  assumes "home_with_log convoy_machine writer lg = Inr start" and "log_keeps L"
    and "home_run convoy_machine L start home" and "bm_get (hm_resources home) name = Some r"
  shows "convoy_inv (res_spec r) (st_value (res_state r))"
proof -
  have "home_all convoy_inv home"
    by (rule convoy.all_run [OF assms(3,2) home_all_fresh [OF assms(1)]])
  then show ?thesis
    using assms(4) by (auto simp: home_all_def bm_get_in_set)
qed

section \<open>Properties\<close>

text \<open>
  C5: Whatever a home does with its convoys (creates, edges and evictions in any order, against any
  worlds), each convoy it holds satisfies the convoy invariant: its record tables are dense, its
  seats have distinct names and form a forest, its promise ids are not below the floor, a Submitted
  promise has submissions, and every open promise and every unretired lifetime duty is owned by a
  seat that is not retired.
\<close>

theorem convoy_home_invariant:
  assumes "home_with_log convoy_machine writer lg = Inr start" and "log_keeps L"
    and "home_run convoy_machine L start home" and "bm_get (hm_resources home) name = Some r"
  shows "convoy_inv (res_spec r) (st_value (res_state r))"
  by (rule convoy_home_inv [OF assms])

text \<open>
  C15: A delivered convoy delivered everything. At a home, after any run, a convoy in the state
  Delivered has no promise that is neither kept nor retracted, and each of its duties that holds for
  the convoy's lifetime was retired.
\<close>

theorem convoy_delivery_complete:
  assumes "home_with_log convoy_machine writer lg = Inr start" and "log_keeps L"
    and "home_run convoy_machine L start home" and "bm_get (hm_resources home) name = Some r"
    and "st_value (res_state r) = Delivered quota retired"
  shows "(\<forall>row \<in> set (cs_promises (res_spec r)).
        st_value (p_progress (row_record row)) \<in> {Kept, Retracted})
    \<and> (\<forall>(i, d) \<in> set (cs_duties (res_spec r)). d_scope d = Lifetime \<longrightarrow> i \<in> set retired)"
proof -
  have "outstanding (res_spec r) = []" and "holding (res_spec r) retired = []"
    using convoy_home_inv [OF assms(1-4)] assms(5) by (simp_all add: convoy_inv_def)
  moreover from this(2) have "i \<in> set retired" if "(i, d) \<in> set (cs_duties (res_spec r))" "d_scope d = Lifetime" for i d
    using that set_holding [of "res_spec r" retired] by auto
  moreover have "st_value (p_progress p) \<in> {Kept, Retracted}" if "\<not> promise_open p" for p
    using that by (cases "st_value (p_progress p)") (simp_all add: promise_open_def)
  ultimately show ?thesis
    by (auto simp: outstanding_Nil)
qed

text \<open>
  C8: A convoy's history stays. At a home, over any creates and edges, a convoy keeps its project,
  priority and kinds; its promise floor and quota counts never fall; once ended it does not change;
  and each promise stays at its position with its id, label, kind, target, source and a prefix of
  its submissions, a settled one unchanged, unless a rollover raised the floor above its id.
\<close>

theorem convoy_home_history:
  assumes "home_with_log convoy_machine writer lg = Inr start" and "log_keeps L"
    and "home_run convoy_machine L start home" and "home_writes convoy_machine L home home'"
    and "bm_get (hm_resources home) name = Some r"
  shows "\<exists>r'. bm_get (hm_resources home') name = Some r'
    \<and> convoy_moves (res_spec r) (st_value (res_state r)) (res_spec r') (st_value (res_state r'))"
proof -
  have "home_all convoy_inv home"
    by (rule convoy.all_run [OF assms(3,2) home_all_fresh [OF assms(1)]])
  from convoy.progress_writes [OF assms(4,2) this assms(5)] show ?thesis
    by blast
qed

text \<open>
  C29: The bounded climb of admission decides acyclicity. For seats with distinct names, climbing as
  many parents as there are seats from every seat reaches a root exactly when no seat is its own
  ancestor.
\<close>

theorem seat_cycle_check_exact:
  assumes "distinct (map seat_name_of seats)"
  shows "acyclic_seats seats
    \<longleftrightarrow> acyclic {(seat_name_of s, p) | s p. s \<in> set seats \<and> s_parent s = Some p}"
  unfolding parents_links [symmetric] by (rule acyclic_seats_iff [OF assms])

text \<open>
  C30: The trial of a convoy's record writes at version 0 is enough: if it fits, the same writes
  stamped with the version the log assigned fit as well, and applying them leaves none out.
\<close>

theorem convoy_trial_suffices:
  assumes "is_ok (trial_writes convoy_write_apply 0 ws spec)"
  shows "trial_writes convoy_write_apply version ws spec
    = Inr (apply_writes convoy_write_apply version ws spec)"
  using assms convoy_rows.apply_after_trial by (auto simp: is_ok_iff)

section \<open>Witnesses\<close>

definition demo_seats :: "seat list" where
  "demo_seats =
    [\<lparr>s_role = ''lead'', s_seat = ''a'', s_parent = None, s_supervised_by = ''ops'', s_retired = False, s_replacements = 0\<rparr>,
     \<lparr>s_role = ''coder'', s_seat = ''b'', s_parent = Some (SeatName ''lead'' ''a''), s_supervised_by = ''ops'',
      s_retired = False, s_replacements = 0\<rparr>]"

definition demo_coder :: seat_name where
  "demo_coder = SeatName ''coder'' ''b''"

definition demo_request :: convoy_request where
  "demo_request =
    \<lparr>rq_project = ''flotilla'',
     rq_promises = [(7, \<lparr>ap_label = ''pr'', ap_kind = ''change'', ap_target = ''repo'', ap_source = Dispatch,
       ap_owner = demo_coder\<rparr>)],
     rq_duties = [(1, \<lparr>d_owner = demo_coder, d_scope = WhileOpen [7],
       d_terms = \<lparr>t_reply_within = Some 60, t_heartbeat = None, t_note = None\<rparr>\<rparr>)],
     rq_seats = demo_seats, rq_quota = [(''small'', 2)], rq_priority = 1, rq_kinds = []\<rparr>"

definition demo_convoy_world :: convoy_world where
  "demo_convoy_world =
    \<lparr>w_authorisation = (\<lambda>_. None), w_durable = (\<lambda>n. if n = ''pushed'' then Some (1, True) else None),
     w_project = (\<lambda>n. if n = ''flotilla'' then Some (1, ()) else None), w_limits = (\<lambda>_. None)\<rparr>"

definition demo_convoys_start ::
  "(convoy_spec, convoy_state, (convoy_label, convoy_kind, convoy_edge) memory_log) home" where
  "demo_convoys_start = \<lparr>hm_writer = ''home'', hm_resources = [], hm_log = memory_log_new\<rparr>"

definition demo_edge where
  "demo_edge e now = snd \<circ> home_apply convoy_machine memory_log_ops ''c1'' e demo_convoy_world now"

definition demo_convoy_open where
  "demo_convoy_open =
    snd (home_create convoy_machine memory_log_ops ''c1'' demo_request demo_convoy_world 1 demo_convoys_start)"

definition demo_convoy_kept where
  "demo_convoy_kept =
    demo_edge (Keep (Observed 7 1)) 3
      (demo_edge (Submit \<lparr>su_promise = 7, su_by = demo_coder, su_address = ''pr/1'', su_revision = ''abc'',
          su_durable = ''pushed''\<rparr>) 2 demo_convoy_open)"

definition demo_convoy_delivered where
  "demo_convoy_delivered = demo_edge DeliverConvoy 4 demo_convoy_kept"

lemma demo_convoy_states:
  "map_option (st_value \<circ> res_state) (bm_get (hm_resources demo_convoy_open) ''c1'') = Some (Open [(''small'', 2)] [])"
  "map_option (\<lambda>r. map (\<lambda>p. (p_id p, st_value (p_progress p), length (p_submissions p))) (promises_of (res_spec r)))
     (bm_get (hm_resources demo_convoy_kept) ''c1'') = Some [(7, Kept, 1)]"
  "map_option (st_value \<circ> res_state) (bm_get (hm_resources demo_convoy_delivered) ''c1'') = Some (Delivered [(''small'', 2)] [])"
  by code_simp+

lemma demo_convoy_fresh: "home_with_log convoy_machine ''home'' memory_log_new = Inr demo_convoys_start"
proof -
  have "validate convoy_machine = Inr ()"
    by code_simp
  then show ?thesis
    by (simp add: home_with_log_def demo_convoys_start_def)
qed

lemma demo_convoy_runs:
  "home_run convoy_machine memory_log_ops demo_convoys_start demo_convoy_open"
  "home_run convoy_machine memory_log_ops demo_convoys_start demo_convoy_kept"
  "home_run convoy_machine memory_log_ops demo_convoys_start demo_convoy_delivered"
  "home_writes convoy_machine memory_log_ops demo_convoy_open demo_convoy_delivered"
  unfolding demo_convoy_delivered_def demo_convoy_kept_def demo_convoy_open_def demo_edge_def comp_def
  by (rule run_start run_apply run_create writes_start writes_apply)+

theorem convoy_home_invariant_witness:
  "\<exists>r. bm_get (hm_resources demo_convoy_kept) ''c1'' = Some r \<and> convoy_inv (res_spec r) (st_value (res_state r))"
proof -
  obtain r where r: "bm_get (hm_resources demo_convoy_kept) ''c1'' = Some r"
    using demo_convoy_states(2) by auto
  from convoy_home_invariant [OF demo_convoy_fresh memory_log_keeps demo_convoy_runs(2) r] r show ?thesis
    by auto
qed

theorem convoy_delivery_complete_witness:
  "\<exists>r. bm_get (hm_resources demo_convoy_delivered) ''c1'' = Some r
    \<and> (\<forall>row \<in> set (cs_promises (res_spec r)). st_value (p_progress (row_record row)) \<in> {Kept, Retracted})"
proof -
  obtain r where r: "bm_get (hm_resources demo_convoy_delivered) ''c1'' = Some r"
    "st_value (res_state r) = Delivered [(''small'', 2)] []"
    using demo_convoy_states(3) by auto
  from convoy_delivery_complete [OF demo_convoy_fresh memory_log_keeps demo_convoy_runs(3) r] r show ?thesis
    by auto
qed

theorem convoy_home_history_witness:
  "\<exists>r r'. bm_get (hm_resources demo_convoy_open) ''c1'' = Some r \<and> bm_get (hm_resources demo_convoy_delivered) ''c1'' = Some r'
    \<and> convoy_moves (res_spec r) (st_value (res_state r)) (res_spec r') (st_value (res_state r'))"
proof -
  obtain r where r: "bm_get (hm_resources demo_convoy_open) ''c1'' = Some r"
    using demo_convoy_states(1) by auto
  from convoy_home_history [OF demo_convoy_fresh memory_log_keeps demo_convoy_runs(1,4) r] r show ?thesis
    by auto
qed

theorem seat_cycle_check_exact_witness:
  "acyclic {(seat_name_of s, p) | s p. s \<in> set demo_seats \<and> s_parent s = Some p}"
proof -
  have "distinct (map seat_name_of demo_seats)" "acyclic_seats demo_seats"
    by code_simp+
  with seat_cycle_check_exact [of demo_seats] show ?thesis
    by simp
qed

definition demo_spec :: convoy_spec where
  "demo_spec = \<lparr>cs_project = ''flotilla'', cs_promise_floor = 0, cs_priority = 1, cs_kinds = [], cs_duties = [],
    cs_seats = [], cs_promises = []\<rparr>"

theorem convoy_trial_suffices_witness:
  "trial_writes convoy_write_apply 9 (map W_Seat demo_seats) demo_spec
    = Inr (apply_writes convoy_write_apply 9 (map W_Seat demo_seats) demo_spec)"
proof -
  have "is_ok (trial_writes convoy_write_apply 0 (map W_Seat demo_seats) demo_spec)"
    by code_simp
  then show ?thesis
    by (rule convoy_trial_suffices)
qed

end
