(* ===== verification/Placement.thy ===== *)
theory Placement
  imports Convoy_Spec "HOL-Library.Multiset"
begin

text \<open>
  The host ledger of \<open>src/crates/flotilla-state-machines/src/placement.rs\<close>: the rule \<open>place\<close> over
  one snapshot, and the in-memory ledger that computes snapshots and holds the live leases.

  The lemmas reduce \<open>available\<close>, which subtracts leases one dimension at a time and fails on the
  first that does not fit, to sums: it succeeds exactly when the units leased in each dimension are
  within the host's capacity, and answers the difference. Every ledger operation keeps that.
\<close>

section \<open>Requests and leases\<close>

type_synonym host = string
type_synonym dimension = nat
type_synonym units = "(dimension, nat) btree_map"
type_synonym vessel_id = string

record placement_request =
  pr_convoy :: convoy_id
  pr_class :: vessel_class
  pr_shape :: units
  pr_priority :: priority

record evidence =
  e_host :: host
  e_available :: units
  e_waiting :: "placement_request list"
  e_live :: nat
  e_cap :: nat
  e_admitted :: bool

record lease =
  le_request :: placement_request
  le_host :: host

datatype placement_refusal =
  PR_WrongState | NotAdmitted | QuotaExceeded | DoesNotFit | HigherPriorityWaiting | PR_MissingEvidence

definition fits :: "placement_request \<Rightarrow> units \<Rightarrow> bool" where
  "fits request available =
    list_all (\<lambda>(dimension, units). case bm_get available dimension of
       None \<Rightarrow> False | Some free \<Rightarrow> units \<le> free) (pr_shape request)"

definition place :: "placement_request \<Rightarrow> evidence \<Rightarrow> placement_refusal + lease" where
  "place request ev =
    (if \<not> e_admitted ev then Inl NotAdmitted
     else if e_cap ev \<le> e_live ev then Inl QuotaExceeded
     else if \<not> fits request (e_available ev) then Inl DoesNotFit
     else if list_ex (\<lambda>waiting. pr_priority request < pr_priority waiting \<and> fits waiting (e_available ev))
               (e_waiting ev) then Inl HigherPriorityWaiting
     else Inr \<lparr>le_request = request, le_host = e_host ev\<rparr>)"

section \<open>The ledger\<close>

datatype placed_vessel = Waiting placement_request | Leased lease

datatype ledger_error =
  UnknownVessel vessel_id
| UnknownHost host
| DuplicateHost host
| UnknownDimension host dimension
| DuplicateRequest vessel_id
| NotWaiting vessel_id
| NotLeased vessel_id
| CapacityUnderflow host dimension
| Ledger_Refused placement_refusal

record ledger =
  lg_hosts :: "(host, units) btree_map"
  lg_caps :: "(convoy_id, quota) btree_map"
  lg_vessels :: "(vessel_id, placed_vessel) btree_map"

definition ledger_new :: ledger where
  "ledger_new = \<lparr>lg_hosts = [], lg_caps = [], lg_vessels = []\<rparr>"

definition ledger_add_host :: "host \<Rightarrow> units \<Rightarrow> ledger \<Rightarrow> (ledger_error + unit) \<times> ledger" where
  "ledger_add_host host capacity l =
    (if bm_contains (lg_hosts l) host then (Inl (DuplicateHost host), l)
     else (Inr (), l\<lparr>lg_hosts := bm_insert host capacity (lg_hosts l)\<rparr>))"

definition ledger_set_caps :: "convoy_id \<Rightarrow> quota \<Rightarrow> ledger \<Rightarrow> ledger" where
  "ledger_set_caps convoy quota l = l\<lparr>lg_caps := bm_insert convoy quota (lg_caps l)\<rparr>"

definition ledger_set_cap :: "convoy_id \<Rightarrow> vessel_class \<Rightarrow> nat \<Rightarrow> ledger \<Rightarrow> ledger" where
  "ledger_set_cap convoy cls cap l =
    (let quota = (case bm_get (lg_caps l) convoy of None \<Rightarrow> [] | Some q \<Rightarrow> q)
     in l\<lparr>lg_caps := bm_insert convoy (bm_insert cls cap quota) (lg_caps l)\<rparr>)"

definition ledger_request :: "vessel_id \<Rightarrow> placement_request \<Rightarrow> ledger \<Rightarrow> (ledger_error + unit) \<times> ledger" where
  "ledger_request i request l =
    (if bm_contains (lg_vessels l) i then (Inl (DuplicateRequest i), l)
     else (Inr (), l\<lparr>lg_vessels := bm_insert i (Waiting request) (lg_vessels l)\<rparr>))"

definition ledger_vessel :: "ledger \<Rightarrow> vessel_id \<Rightarrow> placed_vessel option" where
  "ledger_vessel l i = bm_get (lg_vessels l) i"

definition ledger_leases :: "ledger \<Rightarrow> (vessel_id \<times> lease) list" where
  "ledger_leases l =
    List.map_filter (\<lambda>(i, v). case v of Leased lease \<Rightarrow> Some (i, lease) | Waiting _ \<Rightarrow> None) (lg_vessels l)"

text \<open>One step of \<open>available\<close>'s inner loop: the units of one dimension are taken from what is free.\<close>

fun take_units :: "host \<Rightarrow> dimension \<times> nat \<Rightarrow> units \<Rightarrow> ledger_error + units" where
  "take_units host (dimension, units) available =
    (case bm_get available dimension of
       None \<Rightarrow> Inl (UnknownDimension host dimension)
     | Some free \<Rightarrow>
         if units \<le> free then Inr (bm_insert dimension (free - units) available)
         else Inl (CapacityUnderflow host dimension))"

definition ledger_available :: "host \<Rightarrow> ledger \<Rightarrow> ledger_error + units" where
  "ledger_available host l =
    (case bm_get (lg_hosts l) host of
       None \<Rightarrow> Inl (UnknownHost host)
     | Some capacity \<Rightarrow>
         try_fold (\<lambda>lease. try_fold (take_units host) (pr_shape (le_request lease)))
           (filter (\<lambda>lease. le_host lease = host) (map snd (ledger_leases l))) capacity)"

definition ledger_cap :: "convoy_id \<Rightarrow> vessel_class \<Rightarrow> ledger \<Rightarrow> nat" where
  "ledger_cap convoy cls l =
    (case bm_get (lg_caps l) convoy of
       None \<Rightarrow> 0
     | Some quota \<Rightarrow> (case bm_get quota cls of None \<Rightarrow> 0 | Some cap \<Rightarrow> cap))"

definition ledger_live :: "convoy_id \<Rightarrow> vessel_class \<Rightarrow> ledger \<Rightarrow> nat" where
  "ledger_live convoy cls l =
    min u32_max (length (filter (\<lambda>(i, lease). pr_convoy (le_request lease) = convoy
      \<and> pr_class (le_request lease) = cls) (ledger_leases l)))"

definition ledger_waiting :: "vessel_id \<Rightarrow> ledger \<Rightarrow> ledger_error + placement_request" where
  "ledger_waiting i l =
    (case bm_get (lg_vessels l) i of
       Some (Waiting request) \<Rightarrow> Inr request
     | Some (Leased _) \<Rightarrow> Inl (NotWaiting i)
     | None \<Rightarrow> Inl (UnknownVessel i))"

definition ledger_evidence :: "vessel_id \<Rightarrow> host \<Rightarrow> ledger \<Rightarrow> ledger_error + evidence" where
  "ledger_evidence i host l =
    (case ledger_waiting i l of
       Inl e \<Rightarrow> Inl e
     | Inr request \<Rightarrow> (case ledger_available host l of
         Inl e \<Rightarrow> Inl e
       | Inr available \<Rightarrow>
          (let cap = ledger_cap (pr_convoy request) (pr_class request) l
           in Inr \<lparr>e_host = host, e_available = available,
               e_waiting = List.map_filter (\<lambda>(other, v). case v of
                  Waiting request \<Rightarrow> if other \<noteq> i then Some request else None
                | Leased _ \<Rightarrow> None) (lg_vessels l),
               e_live = ledger_live (pr_convoy request) (pr_class request) l,
               e_cap = cap, e_admitted = (0 < cap)\<rparr>)))"

definition ledger_place :: "vessel_id \<Rightarrow> host \<Rightarrow> ledger \<Rightarrow> (ledger_error + lease) \<times> ledger" where
  "ledger_place i host l =
    (case ledger_evidence i host l of
       Inl e \<Rightarrow> (Inl e, l)
     | Inr ev \<Rightarrow> (case ledger_waiting i l of
         Inl e \<Rightarrow> (Inl e, l)
       | Inr request \<Rightarrow> (case place request ev of
           Inl refusal \<Rightarrow> (Inl (Ledger_Refused refusal), l)
         | Inr lease \<Rightarrow>
             if bm_contains (lg_vessels l) i
             then (Inr lease, l\<lparr>lg_vessels := bm_insert i (Leased lease) (lg_vessels l)\<rparr>)
             else (Inl (UnknownVessel i), l))))"

definition ledger_restore :: "vessel_id \<Rightarrow> lease \<Rightarrow> ledger \<Rightarrow> (ledger_error + unit) \<times> ledger" where
  "ledger_restore i lease l =
    (if bm_contains (lg_vessels l) i then (Inl (DuplicateRequest i), l)
     else (let l1 = l\<lparr>lg_vessels := bm_insert i (Leased lease) (lg_vessels l)\<rparr>
           in case ledger_available (le_host lease) l1 of
                Inl e \<Rightarrow> (Inl e, l1\<lparr>lg_vessels := bm_remove i (lg_vessels l1)\<rparr>)
              | Inr _ \<Rightarrow> (Inr (), l1)))"

definition ledger_release :: "vessel_id \<Rightarrow> ledger \<Rightarrow> (ledger_error + lease) \<times> ledger" where
  "ledger_release i l =
    (let l1 = l\<lparr>lg_vessels := bm_remove i (lg_vessels l)\<rparr>
     in case bm_get (lg_vessels l) i of
          Some (Leased lease) \<Rightarrow> (Inr lease, l1)
        | Some waiting \<Rightarrow> (Inl (NotLeased i), l1\<lparr>lg_vessels := bm_insert i waiting (lg_vessels l1)\<rparr>)
        | None \<Rightarrow> (Inl (UnknownVessel i), l1))"

text \<open>Any sequence of the operations, accepted or refused.\<close>

datatype ledger_op =
  AddHost host units
| SetCaps convoy_id quota
| SetCap convoy_id vessel_class nat
| RequestVessel vessel_id placement_request
| PlaceVessel vessel_id host
| RestoreLease vessel_id lease
| ReleaseVessel vessel_id

fun ledger_do :: "ledger_op \<Rightarrow> ledger \<Rightarrow> ledger" where
  "ledger_do (AddHost h capacity) l = snd (ledger_add_host h capacity l)"
| "ledger_do (SetCaps c q) l = ledger_set_caps c q l"
| "ledger_do (SetCap c cls n) l = ledger_set_cap c cls n l"
| "ledger_do (RequestVessel i r) l = snd (ledger_request i r l)"
| "ledger_do (PlaceVessel i h) l = snd (ledger_place i h l)"
| "ledger_do (RestoreLease i le) l = snd (ledger_restore i le l)"
| "ledger_do (ReleaseVessel i) l = snd (ledger_release i l)"

section \<open>What is leased\<close>

text \<open>The units a list of shapes takes in one dimension, and the shapes leased on one host.\<close>

definition units_in :: "dimension \<Rightarrow> (dimension \<times> nat) list \<Rightarrow> nat" where
  "units_in d shape = sum_list (map snd (filter (\<lambda>du. fst du = d) shape))"

fun vessel_units :: "host \<Rightarrow> placed_vessel \<Rightarrow> (dimension \<times> nat) list" where
  "vessel_units h (Leased le) = (if le_host le = h then pr_shape (le_request le) else [])"
| "vessel_units h (Waiting r) = []"

definition leased_units :: "host \<Rightarrow> (vessel_id, placed_vessel) btree_map \<Rightarrow> (dimension \<times> nat) list" where
  "leased_units h vs = concat (map (vessel_units h \<circ> snd) vs)"

definition within :: "(dimension \<times> nat) list \<Rightarrow> units \<Rightarrow> bool" where
  "within us capacity \<longleftrightarrow>
    (\<forall>(d, n) \<in> set us. bm_get capacity d \<noteq> None)
    \<and> (\<forall>d c. bm_get capacity d = Some c \<longrightarrow> units_in d us \<le> c)"

definition ledger_inv :: "ledger \<Rightarrow> bool" where
  "ledger_inv l \<longleftrightarrow>
    bm_inv (lg_vessels l) \<and> bm_inv (lg_hosts l)
    \<and> (\<forall>i r. bm_get (lg_vessels l) i = Some (Waiting r) \<longrightarrow> bm_inv (pr_shape r))
    \<and> (\<forall>i le. bm_get (lg_vessels l) i = Some (Leased le) \<longrightarrow> bm_get (lg_hosts l) (le_host le) \<noteq> None)
    \<and> (\<forall>h capacity. bm_get (lg_hosts l) h = Some capacity \<longrightarrow> within (leased_units h (lg_vessels l)) capacity)"

section \<open>Lemmas: units\<close>

lemma units_in_simps [simp]:
  "units_in d [] = 0" "units_in d (u # us) = (if fst u = d then snd u else 0) + units_in d us"
  "units_in d (us @ vs) = units_in d us + units_in d vs"
  by (simp_all add: units_in_def)

lemma units_in_concat: "units_in d (concat uss) = sum_list (map (units_in d) uss)"
  by (induction uss) simp_all

lemma units_in_shape:
  assumes "distinct (map fst shape)" and "(d, n) \<in> set shape"
  shows "units_in d shape = n"
  using assms
proof (induction shape)
  case (Cons u us)
  have "units_in d us = 0" if "d \<notin> fst ` set us"
    using that by (induction us) auto
  with Cons show ?case
    by (cases u) (force split: if_splits)
qed simp

lemma units_in_absent: "d \<notin> fst ` set us \<Longrightarrow> units_in d us = 0"
  by (induction us) auto

text \<open>Taking units one by one succeeds exactly when their sums are within what is free.\<close>

lemma within_Cons:
  "bm_get free e = Some c \<Longrightarrow> within ((e, n) # us) free \<longleftrightarrow> n \<le> c \<and> within us (bm_insert e (c - n) free)"
  by (auto simp: within_def split: if_splits)

lemma take_units_ok: "is_ok (try_fold (take_units h) us free) \<longleftrightarrow> within us free"
proof (induction us arbitrary: free)
  case (Cons u us)
  obtain e n where u: "u = (e, n)"
    by (cases u)
  show ?case
  proof (cases "bm_get free e")
    case None
    then show ?thesis
      by (auto simp: u within_def)
  next
    case (Some c)
    with Cons.IH show ?thesis
      unfolding u within_Cons [OF Some] by simp
  qed
qed (simp add: within_def)

lemma take_units_get:
  "try_fold (take_units h) us free = Inr free' \<Longrightarrow>
    bm_get free' d = map_option (\<lambda>c. c - units_in d us) (bm_get free d)"
proof (induction us arbitrary: free)
  case (Cons u us)
  obtain e n where u: "u = (e, n)"
    by (cases u)
  with Cons.prems obtain c where "bm_get free e = Some c" "n \<le> c"
    "try_fold (take_units h) us (bm_insert e (c - n) free) = Inr free'"
    by (auto split: option.splits if_splits)
  with Cons.IH [of "bm_insert e (c - n) free"] show ?case
    by (auto simp: u)
qed (simp add: option.map_ident)

lemma leased_units_leases:
  "concat (map (\<lambda>le. pr_shape (le_request le)) (filter (\<lambda>le. le_host le = h) (map snd (ledger_leases l))))
    = leased_units h (lg_vessels l)"
proof -
  have "concat (map (\<lambda>le. pr_shape (le_request le)) (filter (\<lambda>le. le_host le = h)
      (map snd (List.map_filter (\<lambda>(i, v). case v of Leased le \<Rightarrow> Some (i, le) | Waiting _ \<Rightarrow> None) vs))))
    = concat (map (vessel_units h \<circ> snd) vs)" for vs :: "(vessel_id, placed_vessel) btree_map"
    by (induction vs) (auto simp: List.map_filter_simps split: placed_vessel.splits)
  then show ?thesis
    by (simp add: ledger_leases_def leased_units_def)
qed

lemma try_fold_concat: "try_fold (\<lambda>x. try_fold f (g x)) xs s = try_fold f (concat (map g xs)) s"
  by (induction xs arbitrary: s) (auto simp: try_fold_append split: sum.splits)

lemma ledger_available_eq:
  "ledger_available h l = (case bm_get (lg_hosts l) h of
      None \<Rightarrow> Inl (UnknownHost h)
    | Some capacity \<Rightarrow> try_fold (take_units h) (leased_units h (lg_vessels l)) capacity)"
  unfolding ledger_available_def try_fold_concat leased_units_leases ..

lemma ledger_available_ok:
  "is_ok (ledger_available h l) \<longleftrightarrow>
    (\<exists>capacity. bm_get (lg_hosts l) h = Some capacity \<and> within (leased_units h (lg_vessels l)) capacity)"
  by (auto simp: ledger_available_eq take_units_ok split: option.splits)

lemma ledger_available_get:
  assumes "ledger_available h l = Inr free" and "bm_get (lg_hosts l) h = Some capacity"
  shows "bm_get free d = map_option (\<lambda>c. c - units_in d (leased_units h (lg_vessels l))) (bm_get capacity d)"
  using assms take_units_get by (simp add: ledger_available_eq)

section \<open>Lemmas: maps as multisets\<close>

lemma mset_bm_remove:
  assumes "bm_inv m" and "bm_get m k = Some v"
  shows "mset m = add_mset (k, v) (mset (bm_remove k m))"
  using assms
proof (induction m)
  case (Cons kv m)
  then show ?case
  proof (cases "fst kv = k")
    case True
    then have "bm_remove k m = m"
      using Cons.prems(1) by (cases kv) (force simp: bm_inv_Cons bm_remove_def filter_id_conv)
    with True Cons.prems(2) show ?thesis
      by (cases kv) (simp add: bm_remove_def)
  next
    case False
    with Cons show ?thesis
      by (cases kv) (simp add: bm_inv_Cons bm_remove_def)
  qed
qed simp

lemma mset_bm_insert: "bm_inv m \<Longrightarrow> mset (bm_insert k v m) = add_mset (k, v) (mset (bm_remove k m))"
  using mset_bm_remove [of "bm_insert k v m" k v] bm.canonical [of "bm_remove k (bm_insert k v m)" "bm_remove k m"]
  by (simp add: fun_upd_upd)

lemma leased_units_mset: "units_in d (leased_units h vs) = (\<Sum>kv \<in># mset vs. units_in d (vessel_units h (snd kv)))"
  by (simp add: leased_units_def units_in_concat comp_def flip: sum_mset_sum_list mset_map)

lemma leased_units_insert:
  "bm_inv vs \<Longrightarrow> units_in d (leased_units h (bm_insert i v vs))
    = units_in d (vessel_units h v) + units_in d (leased_units h (bm_remove i vs))"
  by (simp add: leased_units_mset mset_bm_insert)

lemma leased_units_held:
  "bm_inv vs \<Longrightarrow> bm_get vs i = Some v \<Longrightarrow> units_in d (leased_units h vs)
    = units_in d (vessel_units h v) + units_in d (leased_units h (bm_remove i vs))"
  by (simp add: leased_units_mset mset_bm_remove [of vs i v])

lemma set_leased_units: "set (leased_units h vs) = (\<Union>kv \<in> set vs. set (vessel_units h (snd kv)))"
  by (simp add: leased_units_def)

lemma within_mono:
  assumes "within us capacity" and "set vs \<subseteq> set us" and "\<And>d. units_in d vs \<le> units_in d us"
  shows "within vs capacity"
  using assms unfolding within_def by (meson le_trans subsetD)

lemma leased_units_remove:
  assumes "bm_inv vs"
  shows "units_in d (leased_units h (bm_remove i vs)) \<le> units_in d (leased_units h vs)"
proof (cases "bm_get vs i")
  case None
  then have "bm_remove i vs = vs"
    by (rule bm.remove_absent [OF assms])
  then show ?thesis
    by simp
next
  case (Some v)
  then show ?thesis
    by (simp add: leased_units_held [OF assms Some])
qed

lemma within_remove:
  assumes "bm_inv vs" and "within (leased_units h vs) capacity"
  shows "within (leased_units h (bm_remove i vs)) capacity"
  using leased_units_remove [OF assms(1)]
  by (intro within_mono [OF assms(2)]) (auto simp: set_leased_units bm_remove_def)

lemma within_insert:
  assumes "bm_inv vs" and "within (leased_units h vs) capacity"
    and "\<And>d n. (d, n) \<in> set (vessel_units h v) \<Longrightarrow> bm_get capacity d \<noteq> None"
    and "\<And>d c. bm_get capacity d = Some c \<Longrightarrow>
      units_in d (vessel_units h v) + units_in d (leased_units h (bm_remove i vs)) \<le> c"
  shows "within (leased_units h (bm_insert i v vs)) capacity"
proof -
  have "bm_get capacity d \<noteq> None" if dn: "(d, n) \<in> set (leased_units h (bm_insert i v vs))" for d n
  proof -
    obtain kv where kv: "kv \<in> set (bm_insert i v vs)" "(d, n) \<in> set (vessel_units h (snd kv))"
      using dn by (auto simp: set_leased_units)
    then have "kv = (i, v) \<or> kv \<in> set vs"
      using set_bm_insert_subset [of i v vs] by auto
    with kv(2) assms(2,3) show ?thesis
      by (fastforce simp: within_def set_leased_units)
  qed
  with assms(4) show ?thesis
    by (auto simp: within_def leased_units_insert [OF assms(1)])
qed

lemma within_insert_none:
  "bm_inv vs \<Longrightarrow> within (leased_units h vs) capacity \<Longrightarrow> vessel_units h v = [] \<Longrightarrow>
    within (leased_units h (bm_insert i v vs)) capacity"
  using leased_units_remove [of vs] by (intro within_insert) (auto simp: within_def, meson le_trans)

section \<open>Every operation keeps the invariant\<close>

lemma ledger_inv_new: "ledger_inv ledger_new"
  by (simp add: ledger_inv_def ledger_new_def)

lemma ledger_inv_add_host:
  assumes "ledger_inv l"
  shows "ledger_inv (snd (ledger_add_host h capacity l))"
proof (cases "bm_contains (lg_hosts l) h")
  case False
  have "vessel_units h v = []" if "(i, v) \<in> set (lg_vessels l)" for i v
    using that assms False by (cases v) (fastforce simp: ledger_inv_def bm_contains_iff bm_get_in_set)+
  then have "leased_units h (lg_vessels l) = []"
    by (force simp: leased_units_def)
  with assms False show ?thesis
    by (auto simp: ledger_add_host_def ledger_inv_def within_def)
qed (simp add: ledger_add_host_def assms)

lemma ledger_inv_waiting:
  assumes "ledger_inv l" and "bm_inv (pr_shape r)"
  shows "ledger_inv (l\<lparr>lg_vessels := bm_insert i (Waiting r) (lg_vessels l)\<rparr>)"
  using assms within_insert_none [of "lg_vessels l" _ _ "Waiting r"] by (auto simp: ledger_inv_def)

lemma ledger_inv_remove:
  assumes "ledger_inv l"
  shows "ledger_inv (l\<lparr>lg_vessels := bm_remove i (lg_vessels l)\<rparr>)"
  using assms within_remove [of "lg_vessels l"] by (auto simp: ledger_inv_def split: if_splits)

lemma ledger_inv_restore:
  assumes "ledger_inv l"
  shows "ledger_inv (snd (ledger_restore i le l))"
proof (cases "bm_contains (lg_vessels l) i")
  case False
  let ?l = "l\<lparr>lg_vessels := bm_insert i (Leased le) (lg_vessels l)\<rparr>"
  have inv: "bm_inv (lg_vessels l)" and absent: "bm_get (lg_vessels l) i = None"
    using assms False by (simp_all add: ledger_inv_def bm_contains_iff)
  have "ledger_inv ?l" if "is_ok (ledger_available (le_host le) ?l)"
  proof -
    have "within (leased_units h (bm_insert i (Leased le) (lg_vessels l))) capacity"
      if h: "bm_get (lg_hosts l) h = Some capacity" for h capacity
    proof (cases "h = le_host le")
      case True
      with h \<open>is_ok _\<close> show ?thesis
        by (auto simp: ledger_available_ok)
    next
      case False
      with assms h inv show ?thesis
        by (intro within_insert_none) (auto simp: ledger_inv_def)
    qed
    with assms that show ?thesis
      by (auto simp: ledger_inv_def ledger_available_ok)
  qed
  then show ?thesis
    using assms bm.remove_insert [OF inv absent] False
    by (auto simp: ledger_restore_def Let_def is_ok_def split: sum.splits)
qed (simp add: ledger_restore_def assms)

lemma ledger_waiting_Inr: "ledger_waiting i l = Inr r \<longleftrightarrow> bm_get (lg_vessels l) i = Some (Waiting r)"
  by (auto simp: ledger_waiting_def split: option.splits placed_vessel.splits)

lemma fits_units:
  assumes "bm_inv (pr_shape r)"
  shows "fits r free \<longleftrightarrow> within (pr_shape r) free"
proof -
  have units: "units_in d (pr_shape r) = n" if "(d, n) \<in> set (pr_shape r)" for d n
    using that units_in_shape bm_inv_distinct [OF assms] by blast
  have "units_in d (pr_shape r) \<le> c \<longleftrightarrow> (\<forall>n. (d, n) \<in> set (pr_shape r) \<longrightarrow> n \<le> c)" for d c
  proof (cases "d \<in> fst ` set (pr_shape r)")
    case True
    then obtain n where "(d, n) \<in> set (pr_shape r)"
      by auto
    with units show ?thesis
      by blast
  next
    case False
    then have "\<And>n. (d, n) \<notin> set (pr_shape r)"
      by (metis fst_conv image_eqI)
    with units_in_absent [OF False] show ?thesis
      by simp
  qed
  note eq = this
  show ?thesis
    unfolding fits_def within_def list_all_iff eq by (auto split: option.splits)
qed

lemma ledger_inv_place:
  assumes inv: "ledger_inv l" and "ledger_place i h l = (Inr le, l')"
  shows "ledger_inv l'"
proof -
  obtain r ev free where r: "bm_get (lg_vessels l) i = Some (Waiting r)" and free: "ledger_available h l = Inr free"
    and le: "le = \<lparr>le_request = r, le_host = h\<rparr>" and fit: "fits r free"
    and l': "l' = l\<lparr>lg_vessels := bm_insert i (Leased le) (lg_vessels l)\<rparr>"
    using assms(2)
    by (auto simp: ledger_place_def ledger_evidence_def ledger_waiting_Inr place_def Let_def
        split: sum.splits if_splits)
  have vs: "bm_inv (lg_vessels l)"
    using inv by (simp add: ledger_inv_def)
  obtain capacity where capacity: "bm_get (lg_hosts l) h = Some capacity"
    and "within (leased_units h (lg_vessels l)) capacity"
    using free ledger_available_ok [of h l] by auto
  have "within (leased_units k (bm_insert i (Leased le) (lg_vessels l))) cap"
    if k: "bm_get (lg_hosts l) k = Some cap" for k cap
  proof (cases "k = h")
    case True
    have get: "bm_get free d = map_option (\<lambda>c. c - units_in d (leased_units h (lg_vessels l))) (bm_get capacity d)" for d
      by (rule ledger_available_get [OF free capacity])
    have fit': "within (pr_shape r) free"
      using fit inv r fits_units by (auto simp: ledger_inv_def)
    have rest: "units_in d (leased_units h (bm_remove i (lg_vessels l))) = units_in d (leased_units h (lg_vessels l))" for d
      using leased_units_held [OF vs r, of d h] by simp
    have "units_in d (pr_shape r) + units_in d (leased_units h (lg_vessels l)) \<le> c"
      if "bm_get capacity d = Some c" for d c
    proof -
      have "units_in d (pr_shape r) \<le> c - units_in d (leased_units h (lg_vessels l))"
        using fit' that by (simp add: within_def get)
      moreover have "units_in d (leased_units h (lg_vessels l)) \<le> c"
        using \<open>within (leased_units h (lg_vessels l)) capacity\<close> that by (simp add: within_def)
      ultimately show ?thesis
        by linarith
    qed
    moreover have "bm_get capacity d \<noteq> None" if "(d, n) \<in> set (pr_shape r)" for d n
      using fit' that by (force simp: within_def get)
    ultimately show ?thesis
      using True k capacity \<open>within (leased_units h (lg_vessels l)) capacity\<close>
      by (intro within_insert [OF vs]) (auto simp: le rest)
  next
    case False
    with inv k vs show ?thesis
      by (intro within_insert_none) (auto simp: ledger_inv_def le)
  qed
  with inv capacity show ?thesis
    by (auto simp: ledger_inv_def l' le)
qed

lemma ledger_place_Inl: "ledger_place i h l = (Inl e, l') \<Longrightarrow> l' = l"
  by (auto simp: ledger_place_def split: sum.splits if_splits)

lemma ledger_release_eq:
  assumes "bm_inv (lg_vessels l)"
  shows "ledger_release i l = (case bm_get (lg_vessels l) i of
      Some (Leased le) \<Rightarrow> (Inr le, l\<lparr>lg_vessels := bm_remove i (lg_vessels l)\<rparr>)
    | Some (Waiting r) \<Rightarrow> (Inl (NotLeased i), l)
    | None \<Rightarrow> (Inl (UnknownVessel i), l))"
proof -
  have "bm_insert i w (bm_remove i (lg_vessels l)) = lg_vessels l" if "bm_get (lg_vessels l) i = Some w" for w
    using assms that by (intro bm.canonical) auto
  moreover have "bm_remove i (lg_vessels l) = lg_vessels l" if "bm_get (lg_vessels l) i = None"
    using assms that by (rule bm.remove_absent)
  ultimately show ?thesis
    by (auto simp: ledger_release_def Let_def split: option.splits placed_vessel.splits)
qed

text \<open>The shapes a caller hands in are maps.\<close>

fun op_shapes :: "ledger_op \<Rightarrow> bool" where
  "op_shapes (RequestVessel i r) = bm_inv (pr_shape r)"
| "op_shapes _ = True"

lemma ledger_inv_do:
  assumes inv: "ledger_inv l" and "op_shapes x"
  shows "ledger_inv (ledger_do x l)"
proof (cases x)
  case (AddHost h capacity)
  then show ?thesis
    using inv ledger_inv_add_host by simp
next
  case (SetCaps c q)
  then show ?thesis
    using inv by (simp add: ledger_set_caps_def ledger_inv_def)
next
  case (SetCap c cls n)
  then show ?thesis
    using inv by (simp add: ledger_set_cap_def Let_def ledger_inv_def)
next
  case (RequestVessel i r)
  then show ?thesis
    using inv assms(2) ledger_inv_waiting by (simp add: ledger_request_def)
next
  case (PlaceVessel i h)
  obtain res l' where "ledger_place i h l = (res, l')"
    by (cases "ledger_place i h l")
  then show ?thesis
    using inv ledger_inv_place ledger_place_Inl PlaceVessel by (cases res) fastforce+
next
  case (RestoreLease i le)
  then show ?thesis
    using inv ledger_inv_restore by simp
next
  case (ReleaseVessel i)
  have "bm_inv (lg_vessels l)"
    using inv by (simp add: ledger_inv_def)
  then show ?thesis
    using inv ledger_inv_remove [OF inv] ReleaseVessel
    by (simp add: ledger_release_eq split: option.splits placed_vessel.splits)
qed

lemma ledger_inv_run: "\<forall>x \<in> set ops. op_shapes x \<Longrightarrow> ledger_inv l \<Longrightarrow> ledger_inv (fold ledger_do ops l)"
  by (induction ops arbitrary: l) (auto intro: ledger_inv_do)

lemma set_waiting:
  "bm_inv vs \<Longrightarrow> set (List.map_filter (\<lambda>(other, v). case v of
      Waiting r \<Rightarrow> if other \<noteq> i then Some r else None | Leased _ \<Rightarrow> None) vs)
    = {r. \<exists>j. j \<noteq> i \<and> bm_get vs j = Some (Waiting r)}"
  by (force simp: List.map_filter_def bm_get_in_set split: placed_vessel.splits if_splits)

lemma place_Inr:
  "place r ev = Inr le \<longleftrightarrow> e_admitted ev \<and> e_live ev < e_cap ev \<and> fits r (e_available ev)
    \<and> (\<forall>w \<in> set (e_waiting ev). fits w (e_available ev) \<longrightarrow> pr_priority w \<le> pr_priority r)
    \<and> le = \<lparr>le_request = r, le_host = e_host ev\<rparr>"
  by (auto simp: place_def list_ex_iff not_less not_le)

lemma ledger_place_Inr:
  assumes "bm_inv (lg_vessels l)"
  shows "ledger_place i h l = (Inr le, l') \<longleftrightarrow>
    (\<exists>r free. bm_get (lg_vessels l) i = Some (Waiting r) \<and> ledger_available h l = Inr free
      \<and> ledger_live (pr_convoy r) (pr_class r) l < ledger_cap (pr_convoy r) (pr_class r) l
      \<and> fits r free
      \<and> (\<forall>j w. j \<noteq> i \<longrightarrow> bm_get (lg_vessels l) j = Some (Waiting w) \<longrightarrow> fits w free \<longrightarrow> pr_priority w \<le> pr_priority r)
      \<and> le = \<lparr>le_request = r, le_host = h\<rparr>
      \<and> l' = l\<lparr>lg_vessels := bm_insert i (Leased le) (lg_vessels l)\<rparr>)"
proof (cases "\<exists>r free. ledger_waiting i l = Inr r \<and> ledger_available h l = Inr free")
  case True
  then obtain r free where r: "ledger_waiting i l = Inr r" and free: "ledger_available h l = Inr free"
    by blast
  have held: "bm_get (lg_vessels l) i = Some (Waiting r)"
    using r by (simp add: ledger_waiting_Inr)
  define ev where "ev = \<lparr>e_host = h, e_available = free,
    e_waiting = List.map_filter (\<lambda>(other, v). case v of
      Waiting r \<Rightarrow> if other \<noteq> i then Some r else None | Leased _ \<Rightarrow> None) (lg_vessels l),
    e_live = ledger_live (pr_convoy r) (pr_class r) l, e_cap = ledger_cap (pr_convoy r) (pr_class r) l,
    e_admitted = (0 < ledger_cap (pr_convoy r) (pr_class r) l)\<rparr>"
  have "ledger_evidence i h l = Inr ev"
    by (simp add: ledger_evidence_def r free Let_def ev_def)
  then have "ledger_place i h l = (Inr le, l') \<longleftrightarrow>
      place r ev = Inr le \<and> l' = l\<lparr>lg_vessels := bm_insert i (Leased le) (lg_vessels l)\<rparr>"
    by (auto simp: ledger_place_def r held bm_contains_iff split: sum.splits)
  then show ?thesis
    by (auto simp: place_Inr ev_def set_waiting [OF assms] held free)
next
  case False
  then show ?thesis
    by (auto simp: ledger_place_def ledger_evidence_def ledger_waiting_Inr Let_def split: sum.splits)
qed

lemma ledger_leases_get:
  "bm_inv (lg_vessels l) \<Longrightarrow> (i, le) \<in> set (ledger_leases l) \<longleftrightarrow> bm_get (lg_vessels l) i = Some (Leased le)"
  by (force simp: ledger_leases_def List.map_filter_def bm_get_in_set split: placed_vessel.splits)

text \<open>How many leases of a kind a map of vessels holds.\<close>

fun counts :: "(lease \<Rightarrow> bool) \<Rightarrow> placed_vessel \<Rightarrow> nat" where
  "counts P (Leased le) = (if P le then 1 else 0)"
| "counts P (Waiting r) = 0"

definition lease_count :: "(lease \<Rightarrow> bool) \<Rightarrow> (vessel_id, placed_vessel) btree_map \<Rightarrow> nat" where
  "lease_count P vs = (\<Sum>kv \<in># mset vs. counts P (snd kv))"

lemma lease_count_leases: "length (filter (\<lambda>(j, le). P le) (ledger_leases l)) = lease_count P (lg_vessels l)"
proof -
  have "length (filter (\<lambda>(j, le). P le)
      (List.map_filter (\<lambda>(i, v). case v of Leased le \<Rightarrow> Some (i, le) | Waiting _ \<Rightarrow> None) vs)) = lease_count P vs"
    for vs :: "(vessel_id, placed_vessel) btree_map"
    by (induction vs) (auto simp: lease_count_def List.map_filter_simps split: placed_vessel.splits)
  then show ?thesis
    by (simp add: ledger_leases_def)
qed

lemma lease_count_insert:
  "bm_inv vs \<Longrightarrow> lease_count P (bm_insert i v vs) = counts P v + lease_count P (bm_remove i vs)"
  by (simp add: lease_count_def mset_bm_insert)

lemma lease_count_held:
  "bm_inv vs \<Longrightarrow> bm_get vs i = Some v \<Longrightarrow> lease_count P vs = counts P v + lease_count P (bm_remove i vs)"
  by (simp add: lease_count_def mset_bm_remove [of vs i v])

lemma ledger_undo:
  assumes inv: "bm_inv (lg_vessels l)" and place: "ledger_place i h l = (Inr le, l1)"
  shows "ledger_release i l1 = (Inr le, l\<lparr>lg_vessels := bm_remove i (lg_vessels l)\<rparr>)
    \<and> ledger_request i (le_request le) (l\<lparr>lg_vessels := bm_remove i (lg_vessels l)\<rparr>) = (Inr (), l)"
proof -
  obtain r where r: "bm_get (lg_vessels l) i = Some (Waiting r)" "le_request le = r"
    "l1 = l\<lparr>lg_vessels := bm_insert i (Leased le) (lg_vessels l)\<rparr>"
    using place unfolding ledger_place_Inr [OF inv] by auto
  have "bm_remove i (bm_insert i (Leased le) (lg_vessels l)) = bm_remove i (lg_vessels l)"
    using inv by (intro bm.canonical) (auto simp: fun_upd_upd)
  moreover have "bm_insert i (Waiting r) (bm_remove i (lg_vessels l)) = lg_vessels l"
    using inv r(1) by (intro bm.canonical) auto
  ultimately show ?thesis
    using inv by (simp add: r ledger_release_eq ledger_request_def bm_contains_iff)
qed

section \<open>Properties\<close>

text \<open>
  C36: No host is ever overcommitted. Whatever hosts are added, caps set, vessels requested, placed,
  restored and released, in any order and whether accepted or refused, the units leased on a host
  are within its capacity in each dimension; and its available capacity is always computable, what
  is left of the capacity in each dimension.
\<close>

theorem ledger_never_overcommits:
  assumes "\<forall>x \<in> set ops. op_shapes x" and "l = fold ledger_do ops ledger_new"
    and "bm_get (lg_hosts l) h = Some capacity"
  shows "\<exists>free. ledger_available h l = Inr free
    \<and> (\<forall>d. bm_get free d = map_option (\<lambda>c. c - units_in d (leased_units h (lg_vessels l))) (bm_get capacity d))
    \<and> (\<forall>d c. bm_get capacity d = Some c \<longrightarrow> units_in d (leased_units h (lg_vessels l)) \<le> c)"
proof -
  have "ledger_inv l"
    unfolding assms(2) using ledger_inv_run [OF assms(1) ledger_inv_new] .
  then have within: "within (leased_units h (lg_vessels l)) capacity"
    using assms(3) by (simp add: ledger_inv_def)
  with assms(3) obtain free where "ledger_available h l = Inr free"
    using ledger_available_ok [of h l] by (auto simp: is_ok_iff)
  with within ledger_available_get [OF this assms(3)] show ?thesis
    by (auto simp: within_def)
qed

text \<open>
  C39: A placement is granted exactly under the rule of the specification: the vessel waits, the host
  is known and its available capacity fits the whole request, the convoy's live vessels of the class
  are under its cap, and no other waiting request of higher priority fits there. It leases the
  request on that host and changes nothing else.
\<close>

theorem ledger_place_exact:
  assumes "bm_inv (lg_vessels l)"
  shows "ledger_place i h l = (Inr le, l') \<longleftrightarrow>
    (\<exists>r free. bm_get (lg_vessels l) i = Some (Waiting r) \<and> ledger_available h l = Inr free
      \<and> ledger_live (pr_convoy r) (pr_class r) l < ledger_cap (pr_convoy r) (pr_class r) l
      \<and> fits r free
      \<and> (\<forall>j w. j \<noteq> i \<longrightarrow> bm_get (lg_vessels l) j = Some (Waiting w) \<longrightarrow> fits w free \<longrightarrow> pr_priority w \<le> pr_priority r)
      \<and> le = \<lparr>le_request = r, le_host = h\<rparr>
      \<and> l' = l\<lparr>lg_vessels := bm_insert i (Leased le) (lg_vessels l)\<rparr>)"
  by (rule ledger_place_Inr [OF assms])

text \<open>
  Placing, releasing and requesting again restores the ledger: after a granted placement, the
  release returns that very lease and the request, queued again, leaves the ledger as it was.
\<close>

theorem ledger_place_undo:
  assumes "bm_inv (lg_vessels l)" and "ledger_place i h l = (Inr le, l1)"
  shows "\<exists>l2. ledger_release i l1 = (Inr le, l2) \<and> ledger_request i (le_request le) l2 = (Inr (), l)"
  using ledger_undo [OF assms] by blast

text \<open>
  A placement respects the convoy's cap: once granted, the leased vessels of the request's convoy
  and class, counted without bound, are at most its cap.
\<close>

theorem ledger_place_within_cap:
  assumes "bm_inv (lg_vessels l)" and "ledger_place i h l = (Inr le, l')"
    and "ledger_cap (pr_convoy (le_request le)) (pr_class (le_request le)) l \<le> u32_max"
  shows "length (filter (\<lambda>(j, other). pr_convoy (le_request other) = pr_convoy (le_request le)
      \<and> pr_class (le_request other) = pr_class (le_request le)) (ledger_leases l'))
    \<le> ledger_cap (pr_convoy (le_request le)) (pr_class (le_request le)) l'"
proof -
  let ?P = "\<lambda>other. pr_convoy (le_request other) = pr_convoy (le_request le)
      \<and> pr_class (le_request other) = pr_class (le_request le)"
  obtain r where r: "bm_get (lg_vessels l) i = Some (Waiting r)" "le = \<lparr>le_request = r, le_host = h\<rparr>"
    "l' = l\<lparr>lg_vessels := bm_insert i (Leased le) (lg_vessels l)\<rparr>"
    and under: "ledger_live (pr_convoy r) (pr_class r) l < ledger_cap (pr_convoy r) (pr_class r) l"
    using assms(2) unfolding ledger_place_Inr [OF assms(1)] by blast
  have "length (filter (\<lambda>(j, other). ?P other) (ledger_leases l'))
      = Suc (length (filter (\<lambda>(j, other). ?P other) (ledger_leases l)))"
    using lease_count_insert [OF assms(1), where i = i and v = "Leased le" and P = ?P]
      lease_count_held [OF assms(1) r(1), where P = ?P]
    by (simp add: lease_count_leases r(3))
  with under assms(3) show ?thesis
    by (simp add: r(2,3) ledger_live_def ledger_cap_def case_prod_beta' min_def split: if_splits)
qed

section \<open>Witnesses\<close>

definition demo_placement_request :: placement_request where
  "demo_placement_request = \<lparr>pr_convoy = ConvoyId ''c1'' ''home'', pr_class = ''small'', pr_shape = [(0, 4), (1, 8)], pr_priority = 1\<rparr>"

definition demo_placement_ops :: "ledger_op list" where
  "demo_placement_ops =
    [AddHost ''h1'' [(0, 6), (1, 16)], SetCap (ConvoyId ''c1'' ''home'') ''small'' 2,
     RequestVessel ''v1'' demo_placement_request, RequestVessel ''v2'' demo_placement_request, PlaceVessel ''v1'' ''h1'']"

definition demo_ledger :: ledger where
  "demo_ledger = fold ledger_do (butlast demo_placement_ops) ledger_new"

theorem ledger_never_overcommits_witness:
  "\<exists>free. ledger_available ''h1'' (fold ledger_do demo_placement_ops ledger_new) = Inr free \<and> bm_get free 0 = Some 2"
proof -
  let ?l = "fold ledger_do demo_placement_ops ledger_new"
  have "list_all op_shapes demo_placement_ops" "bm_get (lg_hosts ?l) ''h1'' = Some [(0, 6), (1, 16)]"
    "units_in 0 (leased_units ''h1'' (lg_vessels ?l)) = 4"
    by code_simp+
  with ledger_never_overcommits [of demo_placement_ops ?l "''h1''" "[(0, 6), (1, 16)]"] show ?thesis
    by (fastforce simp: list_all_iff)
qed

lemma demo_ledger_placed:
  "bm_inv (lg_vessels demo_ledger)"
  "fst (ledger_place ''v1'' ''h1'' demo_ledger) = Inr \<lparr>le_request = demo_placement_request, le_host = ''h1''\<rparr>"
  "ledger_cap (ConvoyId ''c1'' ''home'') ''small'' demo_ledger = 2"
  by code_simp+

theorem ledger_place_exact_witness:
  "fits demo_placement_request [(0, 6), (1, 16)] \<and> ledger_available ''h1'' demo_ledger = Inr [(0, 6), (1, 16)]"
proof -
  have "ledger_available ''h1'' demo_ledger = Inr [(0, 6), (1, 16)]"
    "bm_get (lg_vessels demo_ledger) ''v1'' = Some (Waiting demo_placement_request)"
    by code_simp+
  moreover have "ledger_place ''v1'' ''h1'' demo_ledger
      = (Inr \<lparr>le_request = demo_placement_request, le_host = ''h1''\<rparr>, snd (ledger_place ''v1'' ''h1'' demo_ledger))"
    using demo_ledger_placed(2) by (metis prod.collapse)
  ultimately show ?thesis
    unfolding ledger_place_exact [OF demo_ledger_placed(1)] by simp
qed

theorem ledger_place_undo_witness:
  "\<exists>l2. ledger_release ''v1'' (snd (ledger_place ''v1'' ''h1'' demo_ledger))
      = (Inr \<lparr>le_request = demo_placement_request, le_host = ''h1''\<rparr>, l2)
    \<and> ledger_request ''v1'' demo_placement_request l2 = (Inr (), demo_ledger)"
proof -
  have "ledger_place ''v1'' ''h1'' demo_ledger
      = (Inr \<lparr>le_request = demo_placement_request, le_host = ''h1''\<rparr>, snd (ledger_place ''v1'' ''h1'' demo_ledger))"
    using demo_ledger_placed(2) by (metis prod.collapse)
  from ledger_place_undo [OF demo_ledger_placed(1) this] show ?thesis
    by simp
qed

theorem ledger_place_within_cap_witness:
  "length (filter (\<lambda>(j, other). pr_convoy (le_request other) = ConvoyId ''c1'' ''home''
      \<and> pr_class (le_request other) = ''small'') (ledger_leases (snd (ledger_place ''v1'' ''h1'' demo_ledger))))
    \<le> ledger_cap (ConvoyId ''c1'' ''home'') ''small'' (snd (ledger_place ''v1'' ''h1'' demo_ledger))"
proof -
  have "ledger_place ''v1'' ''h1'' demo_ledger
      = (Inr \<lparr>le_request = demo_placement_request, le_host = ''h1''\<rparr>, snd (ledger_place ''v1'' ''h1'' demo_ledger))"
    using demo_ledger_placed(2) by (metis prod.collapse)
  from ledger_place_within_cap [OF demo_ledger_placed(1) this] demo_ledger_placed(3) show ?thesis
    by (simp add: demo_placement_request_def u32_max_def)
qed

end
