(* ===== verification/Attempt.thy ===== *)
theory Attempt
  imports Reads
begin

text \<open>
  Attempts, \<open>src/crates/flotilla-state-machines/src/attempt.rs\<close>: the tally an attempt leaves in
  the state, the backoff of a policy and the retry judgement that a hold and a give-up gate share.

  The backoff loop multiplies saturating at \<open>i64\<close> and stops at the cap. The lemmas give its closed
  form, exponential in the number of failures and cut at the cap: saturation and the early exit
  never show in the answer.
\<close>

section \<open>Definitions\<close>

datatype cause_category = Transient | Refused_Cause | Misconfigured | MissingCapability | External

record cause =
  category :: cause_category
  detail :: string

datatype outcome = Succeeded | Failed cause bool

record failure =
  f_at :: timestamp
  f_cause :: cause
  f_retryable :: bool

fun tally :: "nat \<Rightarrow> outcome \<Rightarrow> timestamp \<Rightarrow> nat \<times> failure option" where
  "tally failures Succeeded at = (0, None)"
| "tally failures (Failed c retryable) at =
    (u32_sat_add failures 1, Some \<lparr>f_at = at, f_cause = c, f_retryable = retryable\<rparr>)"

record attempt_policy =
  max_failures :: nat
  base :: int
  factor :: nat
  cap :: int

definition immediate :: "nat \<Rightarrow> attempt_policy" where
  "immediate n = \<lparr>max_failures = n, base = 0, factor = 1, cap = 0\<rparr>"

text \<open>\<open>n\<close> is the number of turns left of \<open>for _ in 1..failures\<close>.\<close>

fun backoff_loop :: "nat \<Rightarrow> attempt_policy \<Rightarrow> int \<Rightarrow> int" where
  "backoff_loop 0 policy delay = delay"
| "backoff_loop (Suc n) policy delay =
    (if cap policy \<le> delay then delay
     else backoff_loop n policy (i64_sat_mul delay (int (max (factor policy) 1))))"

definition backoff :: "attempt_policy \<Rightarrow> nat \<Rightarrow> int" where
  "backoff policy failures =
    min (backoff_loop (failures - 1) policy (max (base policy) 0)) (max (cap policy) 0)"

datatype schedule = Now | At timestamp | Exhausted

record retry_judgement =
  rj_failures :: nat
  rj_schedule :: schedule
  rj_last_cause :: "cause option"

definition exhausted :: "retry_judgement \<Rightarrow> bool" where
  "exhausted r \<longleftrightarrow> rj_schedule r = Exhausted"

definition due :: "retry_judgement \<Rightarrow> timestamp \<Rightarrow> bool" where
  "due r now = (case rj_schedule r of Now \<Rightarrow> True | At moment \<Rightarrow> moment \<le> now | Exhausted \<Rightarrow> False)"

definition retry ::
  "attempt_policy \<Rightarrow> nat \<Rightarrow> failure option \<Rightarrow> ('sp, 's, 'wd, 'w) handle
    \<Rightarrow> retry_judgement \<times> ('sp, 's, 'wd, 'w) handle" where
  "retry policy failures latest h =
    (case (if failures > 0 then latest else None) of
       None \<Rightarrow> (\<lparr>rj_failures = 0, rj_schedule = Now, rj_last_cause = None\<rparr>, h)
     | Some failure \<Rightarrow>
         if \<not> f_retryable failure \<or> max (max_failures policy) 1 \<le> failures
         then (\<lparr>rj_failures = failures, rj_schedule = Exhausted,
                rj_last_cause = Some (f_cause failure)\<rparr>, h)
         else (let moment = timestamp_saturating_add (f_at failure) (backoff policy failures)
               in (\<lparr>rj_failures = failures, rj_schedule = At moment,
                    rj_last_cause = Some (f_cause failure)\<rparr>, handle_until moment h)))"

text \<open>
  A tally is well formed when it has a latest failure exactly while it counts failures, and stays
  in \<open>u32\<close>.
\<close>

definition tally_inv :: "nat \<Rightarrow> failure option \<Rightarrow> bool" where
  "tally_inv failures latest \<longleftrightarrow> (failures = 0 \<longleftrightarrow> latest = None) \<and> failures \<le> u32_max"

definition tally_exhausted :: "attempt_policy \<Rightarrow> nat \<Rightarrow> failure option \<Rightarrow> bool" where
  "tally_exhausted policy failures latest =
    (failures > 0 \<and>
     (case latest of None \<Rightarrow> False
      | Some f \<Rightarrow> \<not> f_retryable f \<or> max (max_failures policy) 1 \<le> failures))"

text \<open>
  The tally a sequence of attempts leaves, and what it stands for: the failures since the last
  success, latest first.
\<close>

definition tally_run :: "(outcome \<times> timestamp) list \<Rightarrow> nat \<times> failure option" where
  "tally_run attempts = fold (\<lambda>(result, at) t. tally (fst t) result at) attempts (0, None)"

fun failure_of :: "outcome \<times> timestamp \<Rightarrow> failure list" where
  "failure_of (Succeeded, at) = []"
| "failure_of (Failed c retryable, at) = [\<lparr>f_at = at, f_cause = c, f_retryable = retryable\<rparr>]"

definition trailing_failures :: "(outcome \<times> timestamp) list \<Rightarrow> failure list" where
  "trailing_failures attempts =
    concat (map failure_of (takeWhile (\<lambda>a. fst a \<noteq> Succeeded) (rev attempts)))"

section \<open>Lemmas\<close>

lemma tally_inv_tally: "tally_inv (fst (tally n out at)) (snd (tally n out at))"
  by (cases out) (auto simp: tally_inv_def)

lemma tally_inv_zero [simp]: "tally_inv 0 None"
  by (simp add: tally_inv_def)

lemma retry_exhausted: "exhausted (fst (retry p n l h)) \<longleftrightarrow> tally_exhausted p n l"
  by (auto simp: retry_def exhausted_def tally_exhausted_def Let_def split: option.splits)

lemma retry_view [simp]: "same_view h (snd (retry p n l h))"
  by (auto simp: retry_def Let_def split: option.splits)

lemma retry_last_cause:
  "rj_last_cause (fst (retry p n l h)) = (if n > 0 then map_option f_cause l else None)"
  by (auto simp: retry_def Let_def split: option.splits)

lemma backoff_loop_closed:
  assumes "0 \<le> d" "d \<le> i64_max" "i64 (cap p)"
  shows "min (backoff_loop n p d) (max (cap p) 0)
    = min (d * int (max (factor p) 1) ^ n) (max (cap p) 0)"
  using assms(1,2)
proof (induction n arbitrary: d)
  case (Suc n)
  let ?f = "int (max (factor p) 1)"
  have pow: "1 \<le> ?f ^ m" for m
    by (simp add: one_le_power)
  show ?case
  proof (cases "cap p \<le> d")
    case True
    have "d \<le> d * ?f ^ Suc n"
      using Suc.prems pow [of "Suc n"] mult_left_mono [of 1 "?f ^ Suc n" d] by simp
    with True Suc.prems show ?thesis
      by simp
  next
    case False
    have d': "i64_sat_mul d ?f = min i64_max (d * ?f)"
      using Suc.prems by (intro i64_sat_mul_nonneg) simp
    have i64_max: "0 \<le> i64_max"
      by (simp add: i64_max_def)
    have "min (backoff_loop n p (min i64_max (d * ?f))) (max (cap p) 0)
        = min (min i64_max (d * ?f) * ?f ^ n) (max (cap p) 0)"
      using Suc.prems i64_max by (intro Suc.IH) auto
    also have "\<dots> = min (d * ?f ^ Suc n) (max (cap p) 0)"
    proof (cases "d * ?f \<le> i64_max")
      case False
      have "max (cap p) 0 \<le> i64_max * 1"
        using assms(3) i64_max by (simp add: i64_def)
      also have "\<dots> \<le> i64_max * ?f ^ n"
        using pow i64_max by (rule mult_left_mono)
      finally have max: "max (cap p) 0 \<le> i64_max * ?f ^ n" .
      also have "\<dots> \<le> d * ?f * ?f ^ n"
        using False pow [of n] by (intro mult_right_mono) simp_all
      finally have "max (cap p) 0 \<le> d * ?f ^ Suc n"
        by (simp add: mult.assoc)
      moreover have "min i64_max (d * ?f) = i64_max"
        using False by simp
      ultimately show ?thesis
        using max by (simp only: min_absorb2)
    qed (simp add: mult.assoc)
    finally show ?thesis
      using False d' by simp
  qed
qed simp

lemma backoff_closed:
  assumes "i64 (base p)" "i64 (cap p)"
  shows "backoff p n
    = min (max (base p) 0 * int (max (factor p) 1) ^ (n - 1)) (max (cap p) 0)"
  using assms backoff_loop_closed [of "max (base p) 0" p "n - 1"]
  by (simp add: backoff_def i64_def width_defs)

lemma backoff_mono:
  assumes "i64 (base p)" "i64 (cap p)" "m \<le> n"
  shows "backoff p m \<le> backoff p n"
proof -
  have "int (max (factor p) 1) ^ (m - 1) \<le> int (max (factor p) 1) ^ (n - 1)"
    using assms(3) by (intro power_increasing) auto
  then have "max (base p) 0 * int (max (factor p) 1) ^ (m - 1)
      \<le> max (base p) 0 * int (max (factor p) 1) ^ (n - 1)"
    by (intro mult_left_mono) auto
  then show ?thesis
    by (simp only: backoff_closed [OF assms(1,2)] min.mono order_refl)
qed

lemma tally_run_snoc:
  "tally_run (xs @ [(result, at)]) = tally (fst (tally_run xs)) result at"
  by (simp add: tally_run_def)

lemma trailing_failures_snoc:
  "trailing_failures (xs @ [(Succeeded, at)]) = []"
  "trailing_failures (xs @ [(Failed c r, at)])
    = \<lparr>f_at = at, f_cause = c, f_retryable = r\<rparr> # trailing_failures xs"
  by (simp_all add: trailing_failures_def)

lemma tally_run_trailing:
  "fst (tally_run xs) = min (length (trailing_failures xs)) u32_max"
  "snd (tally_run xs) = (case trailing_failures xs of [] \<Rightarrow> None | f # fs \<Rightarrow> Some f)"
proof (induction xs rule: rev_induct)
  case (snoc x xs)
  obtain result at where x: "x = (result, at)"
    by (cases x)
  have "0 < u32_max"
    by (simp add: u32_max_def)
  case 1
  show ?case
    using snoc.IH(1) \<open>0 < u32_max\<close>
    by (cases result) (auto simp: x tally_run_snoc trailing_failures_snoc u32_sat_add_def)
  case 2
  show ?case
    by (cases result) (auto simp: x tally_run_snoc trailing_failures_snoc)
qed (simp_all add: tally_run_def trailing_failures_def)

text \<open>
  C33: The delay of \<open>AttemptPolicy::backoff\<close> is the exponential \<open>base * factor ^ (failures - 1)\<close>
  cut at the cap, with negative bases and caps read as zero and a zero factor as one: neither the
  \<open>i64\<close> saturation of the loop nor its early exit changes the answer. It therefore lies between
  zero and the cap and never falls as failures accumulate.
\<close>

theorem backoff_exponential:
  assumes "i64 (base p)" and "i64 (cap p)" and "m \<le> n"
  shows "backoff p n = min (max (base p) 0 * int (max (factor p) 1) ^ (n - 1)) (max (cap p) 0)
    \<and> 0 \<le> backoff p m \<and> backoff p m \<le> backoff p n \<and> backoff p n \<le> max (cap p) 0"
  using backoff_closed [OF assms(1,2)] backoff_mono [OF assms] by simp

text \<open>The default lifecycle policy at its third and eighth failure.\<close>

theorem backoff_exponential_witness:
  "backoff \<lparr>max_failures = 3, base = 1000000, factor = 2, cap = 60000000\<rparr> 8 = 60000000
    \<and> backoff \<lparr>max_failures = 3, base = 1000000, factor = 2, cap = 60000000\<rparr> 3
      \<le> backoff \<lparr>max_failures = 3, base = 1000000, factor = 2, cap = 60000000\<rparr> 8"
  using backoff_exponential [of "\<lparr>max_failures = 3, base = 1000000, factor = 2, cap = 60000000\<rparr>" 3 8]
  by (simp add: i64_def width_defs)

text \<open>
  C34: Counting failures in a saturating \<open>u32\<close> never changes a retry judgement's exhaustion. After any
  attempts, the judgement over the tally they leave is exhausted exactly when the failures since
  the last success, counted without bound, reach the policy's maximum (at least one) or the latest
  of them is not retryable; and the cause it reports is the latest one's.
\<close>

theorem exhaustion_unbounded:
  assumes "max_failures policy \<le> u32_max"
  shows "exhausted (fst (retry policy (fst (tally_run attempts)) (snd (tally_run attempts)) h))
      = (case trailing_failures attempts of
           [] \<Rightarrow> False
         | f # fs \<Rightarrow> \<not> f_retryable f \<or> max (max_failures policy) 1 \<le> length (f # fs))
    \<and> rj_last_cause (fst (retry policy (fst (tally_run attempts)) (snd (tally_run attempts)) h))
      = (case trailing_failures attempts of [] \<Rightarrow> None | f # fs \<Rightarrow> Some (f_cause f))"
proof -
  have "0 < u32_max"
    by (simp add: u32_max_def)
  with assms show ?thesis
    unfolding retry_exhausted retry_last_cause tally_exhausted_def tally_run_trailing
    by (cases "trailing_failures attempts") auto
qed

theorem exhaustion_unbounded_witness:
  "exhausted (fst (retry (immediate 2)
      (fst (tally_run [(Failed \<lparr>category = Transient, detail = []\<rparr> True, 1), (Failed \<lparr>category = Transient, detail = []\<rparr> True, 2)]))
      (snd (tally_run [(Failed \<lparr>category = Transient, detail = []\<rparr> True, 1), (Failed \<lparr>category = Transient, detail = []\<rparr> True, 2)]))
      (handle_new () () () 3)))"
  by (subst exhaustion_unbounded [THEN conjunct1]) (simp_all add: immediate_def u32_max_def trailing_failures_def)

end
