(* ===== verification/Lifecycle.thy ===== *)
theory Lifecycle
  imports Home Attempt
begin

text \<open>
  The shared lifecycle machine: \<open>src/crates/flotilla-state-machines/src/machines/lifecycle.rs\<close>.

  A thing is Requested, with the tally of its attempts, until the home observes it Realised; it ends
  Gone, released or vanished, or GaveUp once its attempts are exhausted. The machine is a function of
  the kind that shares it, which supplies a name and a retry policy. The lemmas compute each edge's
  step; the properties give the exact acceptance condition, the invariant of the tally, and tie giving
  up to the attempts reported.
\<close>

section \<open>States and edges\<close>

record lifecycle_kind =
  lk_name :: string
  lk_policy :: attempt_policy

definition DEFAULT_POLICY :: attempt_policy where
  "DEFAULT_POLICY = \<lparr>max_failures = 3, base = 1000000, factor = 2, cap = 60 * 1000000\<rparr>"

datatype ending = Released | Ending_Lost | Ending_Failed string

datatype vanish_cause = Vanish_Lost | Vanish_Failed string

fun ending_of :: "vanish_cause \<Rightarrow> ending" where
  "ending_of Vanish_Lost = Ending_Lost"
| "ending_of (Vanish_Failed reason) = Ending_Failed reason"

datatype lifecycle_state =
  Requested nat "failure option"
| Realised string
| Gone ending
| GaveUp cause

datatype lifecycle_label = RequestedL | RealisedL | GoneL | GaveUpL

datatype lifecycle_datum =
  D_failures nat
| D_last_failure "failure option"
| D_identity string
| D_ending ending
| D_cause cause

fun lifecycle_label_of :: "lifecycle_state \<Rightarrow> lifecycle_label" where
  "lifecycle_label_of (Requested n f) = RequestedL"
| "lifecycle_label_of (Realised i) = RealisedL"
| "lifecycle_label_of (Gone e) = GoneL"
| "lifecycle_label_of (GaveUp c) = GaveUpL"

fun lifecycle_data :: "lifecycle_state \<Rightarrow> (string \<times> lifecycle_datum) list" where
  "lifecycle_data (Requested n f) = [(''failures'', D_failures n), (''last_failure'', D_last_failure f)]"
| "lifecycle_data (Realised i) = [(''identity'', D_identity i)]"
| "lifecycle_data (Gone e) = [(''ending'', D_ending e)]"
| "lifecycle_data (GaveUp c) = [(''cause'', D_cause c)]"

fun lifecycle_fields :: "lifecycle_label \<Rightarrow> string list" where
  "lifecycle_fields RequestedL = [''failures'', ''last_failure'']"
| "lifecycle_fields RealisedL = [''identity'']"
| "lifecycle_fields GoneL = [''ending'']"
| "lifecycle_fields GaveUpL = [''cause'']"

definition requested :: lifecycle_state where
  "requested = Requested 0 None"

fun live :: "lifecycle_state \<Rightarrow> bool" where
  "live (Requested n f) = True"
| "live (Realised i) = True"
| "live _ = False"

fun realised :: "lifecycle_state \<Rightarrow> bool" where
  "realised (Realised i) = True"
| "realised _ = False"

fun gone :: "lifecycle_state \<Rightarrow> bool" where
  "gone (Gone e) = True"
| "gone _ = False"

fun identity :: "lifecycle_state \<Rightarrow> string option" where
  "identity (Realised i) = Some i"
| "identity _ = None"

fun gave_up_cause :: "lifecycle_state \<Rightarrow> cause option" where
  "gave_up_cause (GaveUp c) = Some c"
| "gave_up_cause _ = None"

record realise =
  rz_identity :: string
  rz_observed :: string

record vanish =
  vn_cause :: vanish_cause
  vn_observed :: string

datatype lifecycle_edge =
  Realise realise
| Release string
| Vanish vanish
| GiveUp cause
| Attempted outcome

datatype lifecycle_edge_kind = RealiseK | ReleaseK | VanishK | GiveUpK | AttemptedK

fun lifecycle_kind_of :: "lifecycle_edge \<Rightarrow> lifecycle_edge_kind" where
  "lifecycle_kind_of (Realise r) = RealiseK"
| "lifecycle_kind_of (Release t) = ReleaseK"
| "lifecycle_kind_of (Vanish v) = VanishK"
| "lifecycle_kind_of (GiveUp c) = GiveUpK"
| "lifecycle_kind_of (Attempted out) = AttemptedK"

fun project_realise :: "lifecycle_edge \<Rightarrow> realise option" where
  "project_realise (Realise r) = Some r"
| "project_realise _ = None"

fun project_release :: "lifecycle_edge \<Rightarrow> string option" where
  "project_release (Release t) = Some t"
| "project_release _ = None"

fun project_vanish :: "lifecycle_edge \<Rightarrow> vanish option" where
  "project_vanish (Vanish v) = Some v"
| "project_vanish _ = None"

fun project_give_up :: "lifecycle_edge \<Rightarrow> cause option" where
  "project_give_up (GiveUp c) = Some c"
| "project_give_up _ = None"

fun project_attempted :: "lifecycle_edge \<Rightarrow> outcome option" where
  "project_attempted (Attempted out) = Some out"
| "project_attempted _ = None"

section \<open>The world\<close>

record lifecycle_world =
  w_realisation :: "string \<Rightarrow> (version \<times> string) option"
  w_teardown :: "string \<Rightarrow> (version \<times> bool) option"
  w_absence :: "string \<Rightarrow> (version \<times> bool) option"

definition Realisation :: "(lifecycle_world, string) kind" where
  "Realisation = \<lparr>k_name = ''realisation'', k_lookup = w_realisation\<rparr>"

definition Teardown :: "(lifecycle_world, bool) kind" where
  "Teardown = \<lparr>k_name = ''teardown'', k_lookup = w_teardown\<rparr>"

definition Absence :: "(lifecycle_world, bool) kind" where
  "Absence = \<lparr>k_name = ''absence'', k_lookup = w_absence\<rparr>"

datatype lifecycle_refusal = Lifecycle_Ended string | Lifecycle_WrongState | Lifecycle_MissingEvidence

section \<open>The machine\<close>

type_synonym 'rq lifecycle_handle = "('rq, lifecycle_state, lifecycle_world, no_records) handle"
type_synonym 'rq lifecycle_gate = "(lifecycle_refusal + unit) \<times> 'rq lifecycle_handle"

definition gate_realise :: "'rq lifecycle_handle \<Rightarrow> realise \<Rightarrow> 'rq lifecycle_gate" where
  "gate_realise h edge =
    (case handle_read Realisation (rz_observed edge) h of
       (found, h') \<Rightarrow>
         if found = Some (rz_identity edge) then (Inr (), h') else (Inl Lifecycle_MissingEvidence, h'))"

definition gate_release :: "'rq lifecycle_handle \<Rightarrow> string \<Rightarrow> 'rq lifecycle_gate" where
  "gate_release h teardown =
    (case handle_read Teardown teardown h of
       (found, h') \<Rightarrow> if found = Some True then (Inr (), h') else (Inl Lifecycle_MissingEvidence, h'))"

definition gate_vanish :: "'rq lifecycle_handle \<Rightarrow> vanish \<Rightarrow> 'rq lifecycle_gate" where
  "gate_vanish h edge =
    (case handle_read Absence (vn_observed edge) h of
       (found, h') \<Rightarrow> if found = Some True then (Inr (), h') else (Inl Lifecycle_MissingEvidence, h'))"

definition attempted ::
  "'rq lifecycle_handle \<Rightarrow> lifecycle_state \<Rightarrow> outcome \<Rightarrow> lifecycle_state \<times> 'rq lifecycle_handle" where
  "attempted h state out =
    (let (failures, last_failure) =
       (case state of
          Requested failures _ \<Rightarrow> tally failures out (h_now h)
        | _ \<Rightarrow> tally 0 out (h_now h))
     in (Requested failures last_failure, h))"

definition gate_give_up ::
  "attempt_policy \<Rightarrow> 'rq lifecycle_handle \<Rightarrow> cause \<Rightarrow> 'rq lifecycle_gate" where
  "gate_give_up policy h c =
    (let (failures, latest) =
       (case h_state h of Requested failures last_failure \<Rightarrow> (failures, last_failure) | _ \<Rightarrow> (0, None))
     in case retry policy failures latest h of
          (r, h') \<Rightarrow>
            if exhausted r \<and> rj_last_cause r = Some c then (Inr (), h')
            else (Inl Lifecycle_MissingEvidence, h'))"

definition effect_realise ::
  "'rq lifecycle_handle \<Rightarrow> lifecycle_state \<Rightarrow> realise \<Rightarrow> lifecycle_state \<times> 'rq lifecycle_handle" where
  "effect_realise h state edge = (Realised (rz_identity edge), h)"

definition effect_release ::
  "'rq lifecycle_handle \<Rightarrow> lifecycle_state \<Rightarrow> string \<Rightarrow> lifecycle_state \<times> 'rq lifecycle_handle" where
  "effect_release h state edge = (Gone Released, h)"

definition effect_vanish ::
  "'rq lifecycle_handle \<Rightarrow> lifecycle_state \<Rightarrow> vanish \<Rightarrow> lifecycle_state \<times> 'rq lifecycle_handle" where
  "effect_vanish h state edge = (Gone (ending_of (vn_cause edge)), h)"

definition effect_give_up ::
  "'rq lifecycle_handle \<Rightarrow> lifecycle_state \<Rightarrow> cause \<Rightarrow> lifecycle_state \<times> 'rq lifecycle_handle" where
  "effect_give_up h state c = (GaveUp c, h)"

type_synonym 'rq lifecycle_declared =
  "(lifecycle_label, lifecycle_edge_kind, lifecycle_state, lifecycle_edge, 'rq, lifecycle_world,
    no_records, lifecycle_refusal) declared_edge"

definition realise_edge :: "'rq lifecycle_declared" where
  "realise_edge = chained (edge_new RealiseK)
    [edge_from [RequestedL],
     edge_to [RealisedL],
     edge_changes [''identity''],
     edge_gate project_realise ''the home observes the thing under the given identity'' gate_realise,
     edge_effect project_realise effect_realise]"

definition release_edge :: "'rq lifecycle_declared" where
  "release_edge = chained (edge_new ReleaseK)
    [edge_from [RequestedL, RealisedL],
     edge_to [GoneL],
     edge_gate project_release ''the teardown is complete'' gate_release,
     edge_changes [''ending''],
     edge_effect project_release effect_release]"

definition vanish_edge :: "'rq lifecycle_declared" where
  "vanish_edge = chained (edge_new VanishK)
    [edge_from [RealisedL],
     edge_to [GoneL],
     edge_gate project_vanish ''the home observes the thing absent'' gate_vanish,
     edge_changes [''ending''],
     edge_effect project_vanish effect_vanish]"

definition attempted_edge :: "'rq lifecycle_declared" where
  "attempted_edge = chained (edge_new AttemptedK)
    [edge_from [RequestedL],
     edge_to [RequestedL],
     edge_changes [''failures'', ''last_failure''],
     edge_ungated ''an attempt reports how a try ended; giving up judges the tally it leaves'',
     edge_effect project_attempted attempted]"

definition give_up_edge :: "attempt_policy \<Rightarrow> 'rq lifecycle_declared" where
  "give_up_edge policy = chained (edge_new GiveUpK)
    [edge_from [RequestedL],
     edge_to [GaveUpL],
     edge_changes [''cause''],
     edge_gate project_give_up ''the attempts are exhausted, the last failing with this cause''
       (gate_give_up policy),
     edge_effect project_give_up effect_give_up]"

definition lifecycle_definition ::
  "lifecycle_kind \<Rightarrow> (lifecycle_label, lifecycle_edge_kind, lifecycle_state, lifecycle_edge, 'rq,
    lifecycle_world, no_records, lifecycle_refusal) machine_def" where
  "lifecycle_definition k =
    chained (machine_new RequestedL)
      [machine_edge realise_edge,
       machine_edge release_edge,
       machine_edge vanish_edge,
       machine_edge attempted_edge,
       machine_edge (give_up_edge (lk_policy k)),
       machine_end GoneL ''the thing is gone'',
       machine_end GaveUpL ''the request gave up'']"

definition lifecycle_machine ::
  "lifecycle_kind \<Rightarrow> (lifecycle_label, lifecycle_edge_kind, lifecycle_state, lifecycle_edge, 'rq,
    lifecycle_world, no_records, lifecycle_refusal, lifecycle_datum, 'rq) machine" where
  "lifecycle_machine k =
    \<lparr>m_name = lk_name k, m_label = lifecycle_label_of, m_data = lifecycle_data,
     m_fields = lifecycle_fields, m_labels = [RequestedL, RealisedL, GoneL, GaveUpL],
     m_label_name = (\<lambda>l. case l of RequestedL \<Rightarrow> ''Requested'' | RealisedL \<Rightarrow> ''Realised''
       | GoneL \<Rightarrow> ''Gone'' | GaveUpL \<Rightarrow> ''GaveUp''),
     m_label_code = (\<lambda>l. case l of RequestedL \<Rightarrow> ''rq'' | RealisedL \<Rightarrow> ''rl''
       | GoneL \<Rightarrow> ''go'' | GaveUpL \<Rightarrow> ''gu''),
     m_kind = lifecycle_kind_of, m_kinds = [RealiseK, ReleaseK, VanishK, GiveUpK, AttemptedK],
     m_kind_name = (\<lambda>k. case k of RealiseK \<Rightarrow> ''realise'' | ReleaseK \<Rightarrow> ''release'' | VanishK \<Rightarrow> ''vanish''
       | GiveUpK \<Rightarrow> ''give_up'' | AttemptedK \<Rightarrow> ''attempted''),
     m_kind_code = (\<lambda>k. case k of RealiseK \<Rightarrow> ''rl'' | ReleaseK \<Rightarrow> ''rs'' | VanishK \<Rightarrow> ''va''
       | GiveUpK \<Rightarrow> ''gu'' | AttemptedK \<Rightarrow> ''at''),
     m_write_field = (\<lambda>_. []), m_write_apply = (\<lambda>_ _ spec. Inr spec),
     m_ended = (\<lambda>_ reason. Lifecycle_Ended reason), m_wrong_state = (\<lambda>_ _. Lifecycle_WrongState),
     m_definition = lifecycle_definition k,
     m_admit = (\<lambda>a request. (Inr (request, requested), a))\<rparr>"

text \<open>The tally of a Requested thing is well formed.\<close>

fun lifecycle_inv :: "lifecycle_state \<Rightarrow> bool" where
  "lifecycle_inv (Requested n f) = tally_inv n f"
| "lifecycle_inv _ = True"

text \<open>The state a sequence of attempts leaves, each reported as an edge at its time.\<close>

definition report_attempts ::
  "lifecycle_kind \<Rightarrow> 'rq \<Rightarrow> lifecycle_world \<Rightarrow> (outcome \<times> timestamp) list \<Rightarrow> lifecycle_state" where
  "report_attempts k spec world attempts =
    fold (\<lambda>(out, at) state.
        case fst (step (lifecycle_machine k) (Attempted out) (handle_new spec state world at)) of
          Inl err \<Rightarrow> state
        | Inr state' \<Rightarrow> state') attempts requested"

text \<open>The evidence on which a lifecycle takes an edge, and the state it then has.\<close>

definition lifecycle_accepts ::
  "lifecycle_kind \<Rightarrow> 'a lifecycle_handle \<Rightarrow> lifecycle_edge \<Rightarrow> lifecycle_state \<Rightarrow> bool" where
  "lifecycle_accepts k h e state \<longleftrightarrow>
    (case e of
       Realise r \<Rightarrow> (\<exists>n f. h_state h = Requested n f) \<and> state = Realised (rz_identity r)
         \<and> look Realisation (rz_observed r) h = Some (rz_identity r)
     | Release t \<Rightarrow> live (h_state h) \<and> state = Gone Released \<and> look Teardown t h = Some True
     | Vanish v \<Rightarrow> realised (h_state h) \<and> state = Gone (ending_of (vn_cause v))
         \<and> look Absence (vn_observed v) h = Some True
     | GiveUp c \<Rightarrow> state = GaveUp c
         \<and> (\<exists>n f. h_state h = Requested n (Some f) \<and> tally_exhausted (lk_policy k) n (Some f) \<and> f_cause f = c)
     | Attempted out \<Rightarrow> \<exists>n f. h_state h = Requested n f
         \<and> state = Requested (fst (tally n out (h_now h))) (snd (tally n out (h_now h))))"

section \<open>Lemmas\<close>

lemmas lifecycle_edge_defs = realise_edge_def release_edge_def vanish_edge_def attempted_edge_def
  give_up_edge_def

lemmas lifecycle_gate_defs = gate_realise_def gate_release_def gate_vanish_def handle_read_eq

lemmas lifecycle_effect_defs = effect_realise_def effect_release_def effect_vanish_def
  effect_give_up_def

lemma lifecycle_find:
  "find_edge (lifecycle_definition k) RealiseK = Some realise_edge"
  "find_edge (lifecycle_definition k) ReleaseK = Some release_edge"
  "find_edge (lifecycle_definition k) VanishK = Some vanish_edge"
  "find_edge (lifecycle_definition k) AttemptedK = Some attempted_edge"
  "find_edge (lifecycle_definition k) GiveUpK = Some (give_up_edge (lk_policy k))"
  by (simp_all add: lifecycle_definition_def find_edge_def machine_builder_defs edge_builder_defs
      lifecycle_edge_defs)

lemma lifecycle_ends:
  "end_reason (lifecycle_definition k) RequestedL = None"
  "end_reason (lifecycle_definition k) RealisedL = None"
  "end_reason (lifecycle_definition k) GoneL = Some ''the thing is gone''"
  "end_reason (lifecycle_definition k) GaveUpL = Some ''the request gave up''"
  by (simp_all add: lifecycle_definition_def end_reason_def machine_builder_defs)

lemma lifecycle_machine_simps [simp]:
  "m_definition (lifecycle_machine k) = lifecycle_definition k"
  "m_label (lifecycle_machine k) = lifecycle_label_of"
  "m_data (lifecycle_machine k) = lifecycle_data"
  "m_kind (lifecycle_machine k) = lifecycle_kind_of"
  "m_ended (lifecycle_machine k) l r = Lifecycle_Ended r"
  "m_wrong_state (lifecycle_machine k) l kd = Lifecycle_WrongState"
  "m_write_apply (lifecycle_machine k) w v spec = Inr spec"
  "m_admit (lifecycle_machine k) a request = (Inr (request, requested), a)"
  by (simp_all add: lifecycle_machine_def)

lemma gate_give_up_evidence:
  "is_ok (fst (gate_give_up policy h c)) \<longleftrightarrow>
    (\<exists>n f. h_state h = Requested n (Some f) \<and> tally_exhausted policy n (Some f) \<and> f_cause f = c)"
  by (cases "h_state h")
    (auto simp: gate_give_up_def split_beta retry_exhausted retry_last_cause tally_exhausted_def)

lemma lifecycle_gates_view:
  "same_view h (snd (gate_realise h r))"
  "same_view h (snd (gate_release h t))"
  "same_view h (snd (gate_vanish h v))"
  "same_view h (snd (gate_give_up policy h c))"
  by (auto simp: lifecycle_gate_defs gate_give_up_def split_beta)

lemma lifecycle_changed:
  "set (changed (lifecycle_data s) (lifecycle_data (Realised i))) \<subseteq> {''identity''}"
  "set (changed (lifecycle_data s) (lifecycle_data (Gone e))) \<subseteq> {''ending''}"
  "set (changed (lifecycle_data s) (lifecycle_data (GaveUp c))) \<subseteq> {''cause''}"
  "set (changed (lifecycle_data s) (lifecycle_data (Requested n f))) \<subseteq> {''failures'', ''last_failure''}"
  by (simp_all add: changed_subset)

lemmas lifecycle_step_simps = lifecycle_find lifecycle_ends lifecycle_edge_defs edge_builder_defs
  lifecycle_changed lifecycle_gates_view lifecycle_effect_defs

lemma lifecycle_step_requested:
  assumes "h_state h = Requested n f"
  shows "step (lifecycle_machine k) (Realise r) h
      = gated (gate_realise h r) (\<lambda>h. (Realised (rz_identity r), h))"
    and "step (lifecycle_machine k) (Attempted out) h
      = (Inr (Requested (fst (tally n out (h_now h))) (snd (tally n out (h_now h)))), h)"
    and "step (lifecycle_machine k) (GiveUp c) h
      = gated (gate_give_up (lk_policy k) h c) (\<lambda>h. (GaveUp c, h))"
    and "step (lifecycle_machine k) (Vanish v) h = (Inl (Refused Lifecycle_WrongState), h)"
  subgoal
    using assms by (subst step_of_gated [where d = realise_edge and p = project_realise
          and gate = gate_realise and eff = effect_realise and arg = r])
      (simp_all add: lifecycle_step_simps del: lifecycle_data.simps)
  subgoal
    using assms by (subst step_of_ungated [where d = attempted_edge and p = project_attempted
          and eff = attempted and arg = out])
      (simp_all add: lifecycle_step_simps attempted_def split_beta del: lifecycle_data.simps)
  subgoal
    using assms by (subst step_of_gated [where d = "give_up_edge (lk_policy k)" and p = project_give_up
          and gate = "gate_give_up (lk_policy k)" and eff = effect_give_up and arg = c])
      (simp_all add: lifecycle_step_simps del: lifecycle_data.simps)
  subgoal
    using assms by (subst step_wrong_state [where d = vanish_edge]) (simp_all add: lifecycle_step_simps)
  done

lemma lifecycle_step_release:
  assumes "live (h_state h)"
  shows "step (lifecycle_machine k) (Release t) h
    = gated (gate_release h t) (\<lambda>h. (Gone Released, h))"
  using assms
  by (cases "h_state h";
      subst step_of_gated [where d = release_edge and p = project_release
          and gate = gate_release and eff = effect_release and arg = t])
    (simp_all add: lifecycle_step_simps del: lifecycle_data.simps)

lemma lifecycle_step_realised:
  assumes "h_state h = Realised i"
  shows "step (lifecycle_machine k) (Vanish v) h
      = gated (gate_vanish h v) (\<lambda>h. (Gone (ending_of (vn_cause v)), h))"
    and "step (lifecycle_machine k) (Realise r) h = (Inl (Refused Lifecycle_WrongState), h)"
    and "step (lifecycle_machine k) (Attempted out) h = (Inl (Refused Lifecycle_WrongState), h)"
    and "step (lifecycle_machine k) (GiveUp c) h = (Inl (Refused Lifecycle_WrongState), h)"
  subgoal
    using assms by (subst step_of_gated [where d = vanish_edge and p = project_vanish
          and gate = gate_vanish and eff = effect_vanish and arg = v])
      (simp_all add: lifecycle_step_simps del: lifecycle_data.simps)
  using assms
  by (simp_all add: step_wrong_state [where d = realise_edge] step_wrong_state [where d = attempted_edge]
      step_wrong_state [where d = "give_up_edge (lk_policy k)"] lifecycle_step_simps)

lemma lifecycle_step_ended:
  assumes "\<not> live (h_state h)"
  shows "\<exists>reason. step (lifecycle_machine k) e h = (Inl (Refused (Lifecycle_Ended reason)), h)"
  using assms
  by (cases "h_state h")
    (auto simp: step_ended [where reason = "''the thing is gone''"]
      step_ended [where reason = "''the request gave up''"] lifecycle_ends)

lemma lifecycle_step_no_fault: "fst (step (lifecycle_machine k) e h) \<noteq> Inl (Fault f)"
proof (cases "live (h_state h)")
  case True
  then show ?thesis
    by (cases "h_state h"; cases e)
      (auto simp: lifecycle_step_requested lifecycle_step_release lifecycle_step_realised)
next
  case False
  then show ?thesis
    using lifecycle_step_ended [of h k e] by auto
qed

lemma lifecycle_step_accepts:
  "fst (step (lifecycle_machine k) e h) = Inr state \<longleftrightarrow> lifecycle_accepts k h e state"
proof (cases "live (h_state h)")
  case True
  have gated: "fst (gated g (\<lambda>h. (s, h))) = Inr state \<longleftrightarrow> is_ok (fst g) \<and> state = s"
    for g :: "'a lifecycle_gate" and s
    by (auto simp: fst_gated is_ok_iff split: sum.splits)
  show ?thesis
    using True
    by (cases "h_state h"; cases e)
      (auto simp: lifecycle_step_requested lifecycle_step_release lifecycle_step_realised gated
        gate_give_up_evidence lifecycle_gate_defs lifecycle_accepts_def)
next
  case False
  then obtain reason where "step (lifecycle_machine k) e h = (Inl (Refused (Lifecycle_Ended reason)), h)"
    using lifecycle_step_ended by blast
  with False show ?thesis
    by (cases "h_state h"; cases e) (auto simp: lifecycle_accepts_def)
qed

section \<open>Properties\<close>

text \<open>
  C24: A lifecycle step is accepted exactly on its evidence: a thing is realised under the identity the
  home observes, released once its teardown is complete, vanishes when a realised one is observed
  absent, gives up when the tally is exhausted under the kind's policy by a failure with that
  cause, and reports an attempt only while Requested. The next state is the one the edge names.
\<close>

theorem lifecycle_step_exact:
  "fst (step (lifecycle_machine k) e h) = Inr state \<longleftrightarrow> lifecycle_accepts k h e state"
  by (rule lifecycle_step_accepts)

lemma report_attempts_tally:
  "report_attempts k spec world attempts
    = Requested (fst (tally_run attempts)) (snd (tally_run attempts))"
proof (induction attempts rule: rev_induct)
  case (snoc x xs)
  obtain out at where "x = (out, at)"
    by (cases x)
  moreover have "report_attempts k spec world (xs @ [(out, at)])
      = (case fst (step (lifecycle_machine k) (Attempted out)
            (handle_new spec (report_attempts k spec world xs) world at)) of
          Inl err \<Rightarrow> report_attempts k spec world xs | Inr state' \<Rightarrow> state')"
    unfolding report_attempts_def by simp
  ultimately show ?case
    by (simp add: snoc.IH tally_run_snoc lifecycle_step_requested handle_new_def)
qed (simp add: report_attempts_def tally_run_def requested_def)

text \<open>
  C25: A request gives up exactly when its attempts are spent. After any sequence of reported
  attempts, giving up with a cause is accepted if and only if the failures since the last success
  reach the policy's maximum (at least one), or the latest cannot be retried, and the latest failed
  with that cause; the saturating count in the state plays no part.
\<close>

theorem lifecycle_gives_up_when_spent:
  assumes "max_failures (lk_policy k) \<le> u32_max"
  shows "is_ok (fst (step (lifecycle_machine k) (GiveUp c)
      (handle_new spec (report_attempts k spec world attempts) world now)))
    = (case trailing_failures attempts of
         [] \<Rightarrow> False
       | f # fs \<Rightarrow> f_cause f = c
           \<and> (\<not> f_retryable f \<or> max (max_failures (lk_policy k)) 1 \<le> length (f # fs)))"
proof -
  have u32: "0 < u32_max"
    by (simp add: u32_max_def)
  have accepts: "is_ok (fst (step (lifecycle_machine k) (GiveUp c) h))
      \<longleftrightarrow> is_ok (fst (gate_give_up (lk_policy k) h c))" if "h_state h = Requested n l"
    for n l and h :: "'a lifecycle_handle"
    by (simp add: lifecycle_step_requested [OF that] fst_gated is_ok_iff split: sum.splits)
  show ?thesis
    using assms u32
    by (subst accepts) (auto simp: report_attempts_tally gate_give_up_evidence handle_new_def
        tally_exhausted_def tally_run_trailing split: list.splits)
qed

interpretation lifecycle: machine_progress "lifecycle_machine k" "\<lambda>_. lifecycle_inv"
  "\<lambda>sp s sp' s'. sp' = sp \<and> (live s \<or> s' = s) \<and> (realised s \<longrightarrow> s' = s \<or> gone s')" for k
proof (unfold_locales, goal_cases)
  case (1 a request spec state a')
  then show ?case
    by (auto simp: requested_def)
next
  case (2 h edge state' h' v)
  then have "fst (step (lifecycle_machine k) edge h) = Inr state'"
    by simp
  then show ?case
    unfolding lifecycle_step_accepts lifecycle_accepts_def using tally_inv_tally by (auto split: lifecycle_edge.splits)
next
  case (3 sp s)
  then show ?case
    by simp
next
  case (4 sp s sp' s' sp'' s'')
  then show ?case
    by (cases s'; cases s) auto
next
  case (5 h edge state' h' v)
  have "fst (step (lifecycle_machine k) edge h) = Inr state'"
    "apply_writes (m_write_apply (lifecycle_machine k)) v (h_writes h') (h_spec h) = h_spec h"
    using 5 by (simp_all add: apply_writes_ignored)
  then show ?case
    unfolding lifecycle_step_accepts lifecycle_accepts_def by (cases "h_state h") (auto split: lifecycle_edge.splits)
qed

text \<open>
  C26: A lifecycle resource at a home keeps its request and its tally, and its ends are final. From a
  fresh home over any creates, edges and evictions every resource's tally is well formed; and over any
  later writes a resource keeps its request, a Gone or GaveUp one stays exactly as it ended, and a
  realised one is realised under the same identity or gone.
\<close>

theorem lifecycle_home_ends_final:
  assumes "home_with_log (lifecycle_machine k) writer lg = Inr start" and "log_keeps L"
    and "home_run (lifecycle_machine k) L start home" and "home_writes (lifecycle_machine k) L home home'"
    and "bm_get (hm_resources home) name = Some r"
  shows "home_all (\<lambda>_. lifecycle_inv) home \<and> (\<exists>r'. bm_get (hm_resources home') name = Some r'
    \<and> res_spec r' = res_spec r
    \<and> (live (st_value (res_state r)) \<or> st_value (res_state r') = st_value (res_state r))
    \<and> (\<not> realised (st_value (res_state r)) \<or> st_value (res_state r') = st_value (res_state r)
        \<or> gone (st_value (res_state r'))))"
proof -
  have all: "home_all (\<lambda>_. lifecycle_inv) home"
    by (rule lifecycle.all_run [OF assms(3,2) home_all_fresh [OF assms(1)]])
  with lifecycle.progress_writes [OF assms(4,2) all assms(5)] show ?thesis
    by metis
qed

section \<open>Witnesses\<close>

definition demo_kind :: lifecycle_kind where
  "demo_kind = \<lparr>lk_name = ''Vessel'', lk_policy = DEFAULT_POLICY\<rparr>"

definition demo_lifecycle_world :: lifecycle_world where
  "demo_lifecycle_world =
    \<lparr>w_realisation = (\<lambda>n. if n = ''v1'' then Some (1, ''pod-7'') else None),
     w_teardown = (\<lambda>_. None), w_absence = (\<lambda>n. if n = ''v1'' then Some (2, True) else None)\<rparr>"

definition demo_failure :: cause where
  "demo_failure = \<lparr>category = External, detail = ''no image''\<rparr>"

theorem lifecycle_gives_up_when_spent_witness:
  "is_ok (fst (step (lifecycle_machine demo_kind) (GiveUp demo_failure)
      (handle_new () (report_attempts demo_kind () demo_lifecycle_world
        [(Succeeded, 1), (Failed demo_failure True, 2), (Failed demo_failure True, 3), (Failed demo_failure True, 4)])
        demo_lifecycle_world 5)))"
proof -
  have policy: "max_failures (lk_policy demo_kind) = 3"
    by (simp add: demo_kind_def DEFAULT_POLICY_def)
  then have "max_failures (lk_policy demo_kind) \<le> u32_max"
    by (simp add: u32_max_def)
  with policy show ?thesis
    by (subst lifecycle_gives_up_when_spent) (simp_all add: trailing_failures_def)
qed

definition demo_vessels_start ::
  "(unit, lifecycle_state, (lifecycle_label, lifecycle_edge_kind, lifecycle_edge) memory_log) home" where
  "demo_vessels_start = \<lparr>hm_writer = ''home'', hm_resources = [], hm_log = memory_log_new\<rparr>"

definition demo_vessel_created where
  "demo_vessel_created =
    snd (home_create (lifecycle_machine demo_kind) memory_log_ops ''v1'' () demo_lifecycle_world 1 demo_vessels_start)"

definition demo_vessel_realised where
  "demo_vessel_realised = snd (home_apply (lifecycle_machine demo_kind) memory_log_ops ''v1''
     (Realise \<lparr>rz_identity = ''pod-7'', rz_observed = ''v1''\<rparr>) demo_lifecycle_world 2 demo_vessel_created)"

definition demo_vessel_gone where
  "demo_vessel_gone = snd (home_apply (lifecycle_machine demo_kind) memory_log_ops ''v1''
     (Vanish \<lparr>vn_cause = Vanish_Lost, vn_observed = ''v1''\<rparr>) demo_lifecycle_world 3 demo_vessel_realised)"

theorem lifecycle_home_ends_final_witness:
  "\<exists>r'. bm_get (hm_resources demo_vessel_gone) ''v1'' = Some r'
    \<and> (st_value (res_state r') = Realised ''pod-7'' \<or> gone (st_value (res_state r')))"
proof -
  have "map_option (\<lambda>r. st_value (res_state r)) (bm_get (hm_resources demo_vessel_realised) ''v1'')
      = Some (Realised ''pod-7'')"
    by code_simp
  then obtain r where r: "bm_get (hm_resources demo_vessel_realised) ''v1'' = Some r"
    "st_value (res_state r) = Realised ''pod-7''"
    by auto
  have "validate (lifecycle_machine demo_kind :: (_, _, _, _, unit, _, _, _, _, _) machine) = Inr ()"
    by code_simp
  then have fresh: "home_with_log (lifecycle_machine demo_kind) ''home'' memory_log_new = Inr demo_vessels_start"
    by (simp add: home_with_log_def demo_vessels_start_def)
  have run: "home_run (lifecycle_machine demo_kind) memory_log_ops demo_vessels_start demo_vessel_realised"
    unfolding demo_vessel_realised_def demo_vessel_created_def
    by (rule run_apply, rule run_create, rule run_start)
  have writes: "home_writes (lifecycle_machine demo_kind) memory_log_ops demo_vessel_realised demo_vessel_gone"
    unfolding demo_vessel_gone_def by (rule writes_apply, rule writes_start)
  from lifecycle_home_ends_final [OF fresh memory_log_keeps run writes r(1)] r(2) show ?thesis
    by auto
qed

end
