(* ===== verification/Placements.thy ===== *)
theory Placements
  imports Placement Lifecycle
begin

text \<open>
  Placement composed with the vessels' home: \<open>src/crates/flotilla-state-machines/src/machines/vessel.rs\<close>
  and the type \<open>Placements\<close> of \<open>placement.rs\<close>. A vessel is a lifecycle resource whose spec is its
  lease; the ledger holds the leases of the live ones.

  The invariant \<open>leases_live\<close> says that the ledger's leases are a view of the home: a vessel is leased
  exactly when the home holds it live, under the lease its spec records. Every operation keeps it,
  and a restart rebuilds the ledger from the home alone.
\<close>

section \<open>Vessels\<close>

definition vessel_kind :: lifecycle_kind where
  "vessel_kind = \<lparr>lk_name = ''Vessel'', lk_policy = DEFAULT_POLICY\<rparr>"

record vessel_spec =
  vs_convoy :: convoy_id
  vs_class :: vessel_class
  vs_shape :: units
  vs_priority :: priority
  vs_host :: host

definition vessel_lease :: "vessel_spec \<Rightarrow> lease" where
  "vessel_lease spec =
    \<lparr>le_request = \<lparr>pr_convoy = vs_convoy spec, pr_class = vs_class spec, pr_shape = vs_shape spec,
       pr_priority = vs_priority spec\<rparr>, le_host = vs_host spec\<rparr>"

definition vessel_spec_of :: "lease \<Rightarrow> vessel_spec" where
  "vessel_spec_of le =
    \<lparr>vs_convoy = pr_convoy (le_request le), vs_class = pr_class (le_request le),
     vs_shape = pr_shape (le_request le), vs_priority = pr_priority (le_request le), vs_host = le_host le\<rparr>"

type_synonym vessel_resource = "(vessel_spec, lifecycle_state) resource"
type_synonym 'lg vessel_home = "(vessel_spec, lifecycle_state, 'lg) home"
type_synonym 'lg vessel_log =
  "('lg, vessel_spec, lifecycle_state, no_records, lifecycle_label, lifecycle_edge_kind, lifecycle_edge) log_ops"
type_synonym vessel_write_error = "(lifecycle_label, lifecycle_edge_kind, lifecycle_refusal) write_error"

definition live_leases :: "vessel_resource list \<Rightarrow> (vessel_id \<times> lease) list" where
  "live_leases vessels =
    map (\<lambda>r. (res_name r, vessel_lease (res_spec r))) (filter (\<lambda>r. live (st_value (res_state r))) vessels)"

section \<open>Placement at a home\<close>

datatype placement_error = PE_Ledger ledger_error | PE_Write vessel_write_error

fun error_refusal :: "placement_error \<Rightarrow> placement_refusal option" where
  "error_refusal (PE_Ledger (Ledger_Refused refusal)) = Some refusal"
| "error_refusal (PE_Write (Write_Refused r)) = Some PR_MissingEvidence"
| "error_refusal _ = None"

record 'lg placements =
  ps_ledger :: ledger
  ps_home :: "'lg vessel_home"

fun add_hosts :: "(host \<times> units) list \<Rightarrow> ledger \<Rightarrow> ledger_error + ledger" where
  "add_hosts [] l = Inr l"
| "add_hosts ((h, capacity) # hosts) l =
    (case ledger_add_host h capacity l of (Inl e, _) \<Rightarrow> Inl e | (Inr _, l') \<Rightarrow> add_hosts hosts l')"

fun restore_leases ::
  "(vessel_id \<times> lease) list \<Rightarrow> ledger \<Rightarrow> (vessel_id \<times> ledger_error) list \<times> ledger" where
  "restore_leases [] l = ([], l)"
| "restore_leases ((i, le) # leases) l =
    (case ledger_restore i le l of
       (Inl e, l') \<Rightarrow> (case restore_leases leases l' of (unplaced, l'') \<Rightarrow> ((i, e) # unplaced, l''))
     | (Inr _, l') \<Rightarrow> restore_leases leases l')"

definition placements_new ::
  "'lg vessel_home \<Rightarrow> (host \<times> units) list \<Rightarrow> ledger_error + 'lg placements \<times> (vessel_id \<times> ledger_error) list" where
  "placements_new home hosts =
    (case add_hosts hosts ledger_new of
       Inl e \<Rightarrow> Inl e
     | Inr l \<Rightarrow> (case restore_leases (live_leases (map snd (hm_resources home))) l of
         (unplaced, l') \<Rightarrow> Inr (\<lparr>ps_ledger = l', ps_home = home\<rparr>, unplaced)))"

definition placements_get :: "vessel_id \<Rightarrow> 'lg placements \<Rightarrow> vessel_resource option" where
  "placements_get i p = bm_get (hm_resources (ps_home p)) i"

definition placements_set_caps :: "convoy_id \<Rightarrow> quota \<Rightarrow> 'lg placements \<Rightarrow> 'lg placements" where
  "placements_set_caps convoy quota p = p\<lparr>ps_ledger := ledger_set_caps convoy quota (ps_ledger p)\<rparr>"

definition placements_set_cap :: "convoy_id \<Rightarrow> vessel_class \<Rightarrow> nat \<Rightarrow> 'lg placements \<Rightarrow> 'lg placements" where
  "placements_set_cap convoy cls n p = p\<lparr>ps_ledger := ledger_set_cap convoy cls n (ps_ledger p)\<rparr>"

definition placements_add_host ::
  "host \<Rightarrow> units \<Rightarrow> 'lg placements \<Rightarrow> (placement_error + unit) \<times> 'lg placements" where
  "placements_add_host h capacity p =
    (case ledger_add_host h capacity (ps_ledger p) of
       (Inl e, l) \<Rightarrow> (Inl (PE_Ledger e), p\<lparr>ps_ledger := l\<rparr>)
     | (Inr u, l) \<Rightarrow> (Inr u, p\<lparr>ps_ledger := l\<rparr>))"

definition placements_request ::
  "vessel_id \<Rightarrow> placement_request \<Rightarrow> 'lg placements \<Rightarrow> (placement_error + unit) \<times> 'lg placements" where
  "placements_request i r p =
    (case ledger_request i r (ps_ledger p) of
       (Inl e, l) \<Rightarrow> (Inl (PE_Ledger e), p\<lparr>ps_ledger := l\<rparr>)
     | (Inr u, l) \<Rightarrow> (Inr u, p\<lparr>ps_ledger := l\<rparr>))"

definition empty_lifecycle_world :: lifecycle_world where
  "empty_lifecycle_world =
    \<lparr>w_realisation = (\<lambda>_. None), w_teardown = (\<lambda>_. None), w_absence = (\<lambda>_. None)\<rparr>"

text \<open>The vessel a successful operation answers, which is the home's.\<close>

definition answer_vessel :: "vessel_id \<Rightarrow> 'lg placements \<Rightarrow> placement_error + vessel_resource" where
  "answer_vessel i p =
    (case bm_get (hm_resources (ps_home p)) i of None \<Rightarrow> Inl (PE_Ledger (UnknownVessel i)) | Some r \<Rightarrow> Inr r)"

text \<open>The lease returns and the request waits again, when the home did not take the create.\<close>

definition undo_grant :: "vessel_id \<Rightarrow> lease \<Rightarrow> ledger \<Rightarrow> (ledger_error + unit) \<times> ledger" where
  "undo_grant i le l =
    (case ledger_release i l of
       (Inl e, l') \<Rightarrow> (Inl e, l')
     | (Inr _, l') \<Rightarrow> ledger_request i (le_request le) l')"

definition placements_place ::
  "'lg vessel_log \<Rightarrow> vessel_id \<Rightarrow> host \<Rightarrow> timestamp \<Rightarrow> 'lg placements
    \<Rightarrow> (placement_error + vessel_resource) \<times> 'lg placements" where
  "placements_place L i host now p =
    (case ledger_place i host (ps_ledger p) of
       (Inl e, l) \<Rightarrow> (Inl (PE_Ledger e), p\<lparr>ps_ledger := l\<rparr>)
     | (Inr le, l) \<Rightarrow>
         (case home_create (lifecycle_machine vessel_kind) L i (vessel_spec_of le) empty_lifecycle_world now (ps_home p) of
            (Inl error, home) \<Rightarrow>
              (case undo_grant i le l of
                 (Inl e, l') \<Rightarrow> (Inl (PE_Ledger e), \<lparr>ps_ledger = l', ps_home = home\<rparr>)
               | (Inr _, l') \<Rightarrow> (Inl (PE_Write error), \<lparr>ps_ledger = l', ps_home = home\<rparr>))
          | (Inr _, home) \<Rightarrow>
              (let p' = \<lparr>ps_ledger = l, ps_home = home\<rparr> in (answer_vessel i p', p'))))"

definition placements_apply ::
  "'lg vessel_log \<Rightarrow> vessel_id \<Rightarrow> lifecycle_edge \<Rightarrow> lifecycle_world \<Rightarrow> timestamp \<Rightarrow> 'lg placements
    \<Rightarrow> (placement_error + vessel_resource) \<times> 'lg placements" where
  "placements_apply L i edge world now p =
    (case home_apply (lifecycle_machine vessel_kind) L i edge world now (ps_home p) of
       (Inl e, home) \<Rightarrow> (Inl (PE_Write e), p\<lparr>ps_home := home\<rparr>)
     | (Inr _, home) \<Rightarrow>
         (let p1 = p\<lparr>ps_home := home\<rparr>
          in case bm_get (hm_resources home) i of
               None \<Rightarrow> (answer_vessel i p1, p1)
             | Some r \<Rightarrow>
                 if live (st_value (res_state r)) then (answer_vessel i p1, p1)
                 else (case ledger_release i (ps_ledger p1) of
                     (Inr _, l) \<Rightarrow> (let p2 = p1\<lparr>ps_ledger := l\<rparr> in (answer_vessel i p2, p2))
                   | (Inl (UnknownVessel _), l) \<Rightarrow> (let p2 = p1\<lparr>ps_ledger := l\<rparr> in (answer_vessel i p2, p2))
                   | (Inl e, l) \<Rightarrow> (Inl (PE_Ledger e), p1\<lparr>ps_ledger := l\<rparr>))))"

text \<open>Runs: any operations in any order, accepted or refused, over any worlds.\<close>

inductive placements_run :: "'lg vessel_log \<Rightarrow> 'lg placements \<Rightarrow> 'lg placements \<Rightarrow> bool" for L where
  placements_start: "placements_run L p p"
| placements_caps: "placements_run L p p' \<Longrightarrow> placements_run L p (placements_set_caps c q p')"
| placements_cap: "placements_run L p p' \<Longrightarrow> placements_run L p (placements_set_cap c cls n p')"
| placements_host: "placements_run L p p' \<Longrightarrow> placements_run L p (snd (placements_add_host h capacity p'))"
| placements_requested: "placements_run L p p' \<Longrightarrow> bm_inv (pr_shape r) \<Longrightarrow>
    placements_run L p (snd (placements_request i r p'))"
| placements_placed: "placements_run L p p' \<Longrightarrow> placements_run L p (snd (placements_place L i h now p'))"
| placements_applied: "placements_run L p p' \<Longrightarrow> placements_run L p (snd (placements_apply L i e world now p'))"

definition leases_live :: "'lg placements \<Rightarrow> bool" where
  "leases_live p \<longleftrightarrow>
    ledger_inv (ps_ledger p) \<and> home_all (\<lambda>_ _. True) (ps_home p)
    \<and> (\<forall>i le. bm_get (lg_vessels (ps_ledger p)) i = Some (Leased le) \<longleftrightarrow>
        (\<exists>r. bm_get (hm_resources (ps_home p)) i = Some r \<and> live (st_value (res_state r))
          \<and> vessel_lease (res_spec r) = le))"

section \<open>Lemmas\<close>

lemma vessel_lease_spec_of [simp]: "vessel_lease (vessel_spec_of le) = le"
  by (simp add: vessel_lease_def vessel_spec_of_def)

lemma vessel_spec_of_lease [simp]: "vessel_spec_of (vessel_lease spec) = spec"
  by (simp add: vessel_lease_def vessel_spec_of_def)

lemma ledger_inv_vessels: "ledger_inv l \<Longrightarrow> bm_inv (lg_vessels l)"
  by (simp add: ledger_inv_def)

lemma undo_grant_restores:
  assumes "ledger_inv l" and "ledger_place i h l = (Inr le, l1)"
  shows "undo_grant i le l1 = (Inr (), l)"
  using ledger_undo [OF ledger_inv_vessels [OF assms(1)] assms(2)] by (simp add: undo_grant_def)

text \<open>Any vessels' home is one the trivial invariant holds of, whatever it does.\<close>

interpretation vessels: machine_invariant "lifecycle_machine vessel_kind" "\<lambda>_ _. True"
  by unfold_locales simp_all

lemma leases_live_home_same:
  assumes "leases_live p" and "hm_resources home = hm_resources (ps_home p)"
  shows "leases_live (p\<lparr>ps_home := home\<rparr>)"
  using assms by (simp add: leases_live_def home_all_def)

lemma leases_live_ledger:
  assumes "leases_live p" and "ledger_inv l"
    and "\<And>i le. bm_get (lg_vessels l) i = Some (Leased le) \<longleftrightarrow> bm_get (lg_vessels (ps_ledger p)) i = Some (Leased le)"
  shows "leases_live (p\<lparr>ps_ledger := l\<rparr>)"
  using assms by (simp add: leases_live_def)

lemma leases_live_place:
  assumes live: "leases_live p" and keeps: "log_keeps L"
  shows "leases_live (snd (placements_place L i h now p))"
proof (cases "ledger_place i h (ps_ledger p)")
  case (Pair res l)
  have inv: "ledger_inv (ps_ledger p)" and vs: "bm_inv (lg_vessels (ps_ledger p))"
    using live by (simp_all add: leases_live_def ledger_inv_def)
  show ?thesis
  proof (cases res)
    case (Inl e)
    then have "l = ps_ledger p"
      using Pair ledger_place_Inl by simp
    with Pair Inl live show ?thesis
      by (simp add: placements_place_def)
  next
    case (Inr le)
    obtain cres home where create: "home_create (lifecycle_machine vessel_kind) L i (vessel_spec_of le)
        empty_lifecycle_world now (ps_home p) = (cres, home)"
      by (cases "home_create (lifecycle_machine vessel_kind) L i (vessel_spec_of le) empty_lifecycle_world now (ps_home p)")
    have undo: "undo_grant i le l = (Inr (), ps_ledger p)"
      using undo_grant_restores [OF inv] Pair Inr by simp
    show ?thesis
    proof (cases cres)
      case (Inl err)
      from home_create_InlD [OF create [unfolded this]] have "hm_resources home = hm_resources (ps_home p)"
        by blast
      then show ?thesis
        using leases_live_home_same [OF live] Pair Inr create undo \<open>cres = Inl err\<close>
        by (cases p) (simp add: placements_place_def)
    next
      case (Inr created)
      obtain r reads where "created = (r, reads)"
        by (cases created)
      with create Inr obtain spec state a lg where
        admit: "m_admit (lifecycle_machine vessel_kind) (admission_new empty_lifecycle_world now) (vessel_spec_of le) = (Inr (spec, state), a)"
        and log: "log_create_resource L (hm_writer (ps_home p)) now
          (resource_stored i spec \<lparr>st_value = state, st_since = now\<rparr> 0) (a_reads a) (hm_log (ps_home p)) = (Inr r, lg)"
        and home: "home = (ps_home p)\<lparr>hm_resources := bm_insert i r (hm_resources (ps_home p)), hm_log := lg\<rparr>"
        using home_create_InrD by metis
      obtain v where r: "r = (resource_stored i spec \<lparr>st_value = state, st_since = now\<rparr> 0)\<lparr>res_version := v\<rparr>"
        using keeps log unfolding log_keeps_def by blast
      have "spec = vessel_spec_of le" "state = requested"
        using admit by simp_all
      then have "res_spec r = vessel_spec_of le" "live (st_value (res_state r))"
        by (simp_all add: r resource_stored_def requested_def)
      moreover have "home_all (\<lambda>_ _. True) home"
        using vessels.all_create [OF _ keeps create] live by (simp add: leases_live_def)
      moreover have l: "l = (ps_ledger p)\<lparr>lg_vessels := bm_insert i (Leased le) (lg_vessels (ps_ledger p))\<rparr>" "ledger_inv l"
        using Pair \<open>res = Inr le\<close> ledger_inv_place [OF inv] ledger_place_Inr [OF vs] by auto
      ultimately have "leases_live \<lparr>ps_ledger = l, ps_home = home\<rparr>"
        using live by (simp add: leases_live_def home)
      then show ?thesis
        using Pair \<open>res = Inr le\<close> create Inr by (simp add: placements_place_def Let_def)
    qed
  qed
qed

lemma leases_live_apply:
  assumes live: "leases_live p"
  shows "leases_live (snd (placements_apply L i e world now p))"
proof (cases "home_apply (lifecycle_machine vessel_kind) L i e world now (ps_home p)")
  case (Pair res home)
  have inv: "ledger_inv (ps_ledger p)" and vs: "bm_inv (lg_vessels (ps_ledger p))"
    using live by (simp_all add: leases_live_def ledger_inv_def)
  have all: "home_all (\<lambda>_ _. True) home"
    using vessels.all_apply [OF _ Pair] live by (simp add: leases_live_def)
  show ?thesis
  proof (cases res)
    case (Inl err)
    from home_apply_InlD [OF Pair [unfolded this]] have "hm_resources home = hm_resources (ps_home p)"
      by blast
    with Pair Inl show ?thesis
      using leases_live_home_same [OF live] by (simp add: placements_apply_def)
  next
    case (Inr ev)
    obtain r nxt hd lg v where r: "bm_get (hm_resources (ps_home p)) i = Some r"
      and stp: "step (lifecycle_machine vessel_kind) e (handle_on r world now) = (Inr nxt, hd)"
      and home: "home = (ps_home p)\<lparr>hm_resources := bm_insert i
         ((resource_moved (lifecycle_machine vessel_kind) now nxt r)\<lparr>res_version := v,
            res_spec := apply_writes (m_write_apply (lifecycle_machine vessel_kind)) v (h_writes hd) (res_spec r)\<rparr>)
         (hm_resources (ps_home p)), hm_log := lg\<rparr>"
      by (rule home_apply_InrD [OF Pair [unfolded Inr]])
    define r' where "r' = (resource_moved (lifecycle_machine vessel_kind) now nxt r)\<lparr>res_version := v,
        res_spec := apply_writes (m_write_apply (lifecycle_machine vessel_kind)) v (h_writes hd) (res_spec r)\<rparr>"
    have r': "st_value (res_state r') = nxt" "res_spec r' = res_spec r"
      by (simp_all add: r'_def resource_moved_def apply_writes_ignored)
    have "live (st_value (res_state r))"
      using lifecycle_step_ended [of "handle_on r world now" vessel_kind e] stp by fastforce
    then have leased: "bm_get (lg_vessels (ps_ledger p)) i = Some (Leased (vessel_lease (res_spec r)))"
      using live r by (auto simp: leases_live_def)
    have get: "bm_get (hm_resources home) = (bm_get (hm_resources (ps_home p)))(i \<mapsto> r')"
      by (simp add: home r'_def)
    show ?thesis
    proof (cases "live nxt")
      case True
      have "leases_live (p\<lparr>ps_home := home\<rparr>)"
        using live all leased True r' r by (auto simp: leases_live_def get)
      with Pair Inr True r' show ?thesis
        by (simp add: placements_apply_def Let_def get)
    next
      case False
      let ?l = "(ps_ledger p)\<lparr>lg_vessels := bm_remove i (lg_vessels (ps_ledger p))\<rparr>"
      have "leases_live (p\<lparr>ps_home := home, ps_ledger := ?l\<rparr>)"
        using live all False r' ledger_inv_remove [OF inv] by (auto simp: leases_live_def get)
      with Pair Inr False r' leased show ?thesis
        by (simp add: placements_apply_def Let_def get ledger_release_eq [OF vs])
    qed
  qed
qed

lemma leases_live_run:
  assumes "placements_run L p p'" and "log_keeps L" and "leases_live p"
  shows "leases_live p'"
  using assms
proof (induction rule: placements_run.induct)
  case (placements_caps p p' c q)
  then show ?case
    using ledger_inv_do [of "ps_ledger p'" "SetCaps c q"]
    by (auto simp: placements_set_caps_def leases_live_def ledger_set_caps_def)
next
  case (placements_cap p p' c cls n)
  then show ?case
    using ledger_inv_do [of "ps_ledger p'" "SetCap c cls n"]
    by (auto simp: placements_set_cap_def leases_live_def ledger_set_cap_def Let_def)
next
  case (placements_host p p' h capacity)
  then have "ledger_inv (snd (ledger_add_host h capacity (ps_ledger p')))"
    using ledger_inv_add_host by (auto simp: leases_live_def)
  then show ?case
    using placements_host by (auto simp: placements_add_host_def leases_live_def ledger_add_host_def)
next
  case (placements_requested p p' r i)
  then have "ledger_inv (snd (ledger_request i r (ps_ledger p')))"
    using ledger_inv_do [of "ps_ledger p'" "RequestVessel i r"] by (auto simp: leases_live_def)
  moreover have "bm_get (lg_vessels (snd (ledger_request i r (ps_ledger p')))) j = Some (Leased le)
      \<longleftrightarrow> bm_get (lg_vessels (ps_ledger p')) j = Some (Leased le)" for j le
    by (auto simp: ledger_request_def bm_contains_iff)
  moreover have "snd (placements_request i r p') = p'\<lparr>ps_ledger := snd (ledger_request i r (ps_ledger p'))\<rparr>"
    by (simp add: placements_request_def split: prod.splits sum.splits)
  ultimately show ?case
    using leases_live_ledger [of p' "snd (ledger_request i r (ps_ledger p'))"] placements_requested by metis
next
  case (placements_placed p p' i h now)
  then show ?case
    using leases_live_place by blast
next
  case (placements_applied p p' i e world now)
  then show ?case
    using leases_live_apply by blast
qed

section \<open>Restarting\<close>

text \<open>Adding hosts whose ids rise builds the map of them.\<close>

lemma bm_insert_last:
  "(\<And>k'. k' \<in> fst ` set m \<Longrightarrow> k' < k) \<Longrightarrow> bm_insert k v m = m @ [(k, v)]"
  by (induction m) (force simp: not_less_iff_gr_or_eq)+

lemma add_hosts_sorted:
  assumes "bm_inv (lg_hosts l @ hosts)"
  shows "add_hosts hosts l = Inr (l\<lparr>lg_hosts := lg_hosts l @ hosts\<rparr>)"
  using assms
proof (induction hosts arbitrary: l)
  case (Cons hc hosts)
  obtain h capacity where hc: "hc = (h, capacity)"
    by (cases hc)
  have less: "k < h" if "k \<in> fst ` set (lg_hosts l)" for k
    using Cons.prems that by (auto simp: hc bm_inv_def sorted_wrt_append)
  then have "\<not> bm_contains (lg_hosts l) h"
    by (force simp: bm_contains_def)
  moreover have "bm_insert h capacity (lg_hosts l) = lg_hosts l @ [(h, capacity)]"
    by (rule bm_insert_last) (rule less)
  ultimately show ?case
    using Cons.IH [of "l\<lparr>lg_hosts := lg_hosts l @ [(h, capacity)]\<rparr>"] Cons.prems
    by (simp add: hc ledger_add_host_def)
qed simp

text \<open>The vessels of a ledger that holds only the given leases.\<close>

definition only_leases :: "(vessel_id \<times> lease) list \<Rightarrow> (vessel_id, placed_vessel) btree_map" where
  "only_leases leases = map (\<lambda>(i, le). (i, Leased le)) leases"

lemma keys_only_leases: "map fst (only_leases leases) = map fst leases"
  by (simp add: only_leases_def comp_def case_prod_beta)

lemma restore_leases_fit:
  assumes "bm_inv (leases @ leases')" and "lg_vessels l = only_leases leases"
    and "\<And>i le. (i, le) \<in> set leases' \<Longrightarrow> \<exists>capacity. bm_get (lg_hosts l) (le_host le) = Some capacity
      \<and> within (leased_units (le_host le) (only_leases (leases @ leases'))) capacity"
  shows "restore_leases leases' l = ([], l\<lparr>lg_vessels := only_leases (leases @ leases')\<rparr>)"
  using assms
proof (induction leases' arbitrary: leases l)
  case (Cons ile leases')
  obtain i le where ile: "ile = (i, le)"
    by (cases ile)
  have less: "k < i" if "k \<in> fst ` set (only_leases leases)" for k
    using Cons.prems(1) that keys_only_leases [of leases] by (auto simp: ile bm_inv_def sorted_wrt_append simp flip: set_map)
  then have absent: "\<not> bm_contains (lg_vessels l) i"
    by (force simp: bm_contains_def Cons.prems(2))
  have ins: "bm_insert i (Leased le) (lg_vessels l) = only_leases (leases @ [(i, le)])"
  proof -
    have "bm_insert i (Leased le) (only_leases leases) = only_leases leases @ [(i, Leased le)]"
      by (rule bm_insert_last) (rule less)
    then show ?thesis
      by (simp add: Cons.prems(2) only_leases_def)
  qed
  obtain capacity where capacity: "bm_get (lg_hosts l) (le_host le) = Some capacity"
    "within (leased_units (le_host le) (only_leases (leases @ ile # leases'))) capacity"
    using Cons.prems(3) [of i le] by (auto simp: ile)
  have "within (leased_units (le_host le) (only_leases (leases @ [(i, le)]))) capacity"
    by (rule within_mono [OF capacity(2)]) (auto simp: ile only_leases_def leased_units_def)
  then have "is_ok (ledger_available (le_host le) (l\<lparr>lg_vessels := only_leases (leases @ [(i, le)])\<rparr>))"
    using capacity(1) by (simp add: ledger_available_ok)
  then have "ledger_restore i le l = (Inr (), l\<lparr>lg_vessels := only_leases (leases @ [(i, le)])\<rparr>)"
    using absent by (auto simp: ledger_restore_def Let_def ins is_ok_iff)
  moreover have "restore_leases leases' (l\<lparr>lg_vessels := only_leases (leases @ [(i, le)])\<rparr>)
      = ([], l\<lparr>lg_vessels := only_leases (leases @ [(i, le)]), lg_vessels := only_leases ((leases @ [(i, le)]) @ leases')\<rparr>)"
    by (rule Cons.IH) (use Cons.prems(1) Cons.prems(3) in \<open>simp_all add: ile, blast\<close>)
  ultimately show ?case
    by (simp add: ile)
qed (simp add: only_leases_def)

lemma ledger_leases_inv: "bm_inv (lg_vessels l) \<Longrightarrow> bm_inv (ledger_leases l)"
proof -
  have "set (map fst (List.map_filter (\<lambda>(i, v). case v of Leased le \<Rightarrow> Some (i, le) | Waiting _ \<Rightarrow> None) vs))
      \<subseteq> fst ` set vs" for vs :: "(vessel_id, placed_vessel) btree_map"
    by (force simp: List.map_filter_def split: placed_vessel.splits)
  then have "bm_inv vs \<Longrightarrow>
      bm_inv (List.map_filter (\<lambda>(i, v). case v of Leased le \<Rightarrow> Some (i, le) | Waiting _ \<Rightarrow> None) vs)"
    for vs :: "(vessel_id, placed_vessel) btree_map"
    by (induction vs) (force simp: List.map_filter_simps bm_inv_Cons split: placed_vessel.splits)+
  then show "bm_inv (lg_vessels l) \<Longrightarrow> bm_inv (ledger_leases l)"
    by (simp add: ledger_leases_def)
qed

lemma live_leases_eq:
  assumes "\<forall>(name, r) \<in> set m. res_name r = name"
  shows "live_leases (map snd m)
    = map (\<lambda>(i, r). (i, vessel_lease (res_spec r))) (filter (\<lambda>(i, r). live (st_value (res_state r))) m)"
  using assms by (induction m) (auto simp: live_leases_def)

lemma leases_live_leases:
  assumes "leases_live p"
  shows "ledger_leases (ps_ledger p) = live_leases (map snd (hm_resources (ps_home p)))"
proof (rule bm_canonical)
  let ?m = "hm_resources (ps_home p)"
  have vs: "bm_inv (lg_vessels (ps_ledger p))" and m: "bm_inv ?m" "\<forall>(name, r) \<in> set ?m. res_name r = name"
    using assms by (auto simp: leases_live_def ledger_inv_def home_all_def)
  show inv: "bm_inv (ledger_leases (ps_ledger p))"
    by (rule ledger_leases_inv [OF vs])
  show inv': "bm_inv (live_leases (map snd ?m))"
    using bm_inv_filter [OF m(1)] unfolding live_leases_eq [OF m(2)]
    by (simp add: bm_inv_def comp_def case_prod_beta')
  have "(i, le) \<in> set (live_leases (map snd ?m)) \<longleftrightarrow> (\<exists>r. bm_get ?m i = Some r
      \<and> live (st_value (res_state r)) \<and> vessel_lease (res_spec r) = le)" for i le
    unfolding live_leases_eq [OF m(2)] by (force simp: bm_get_in_set [OF m(1)])
  then have "bm_get (ledger_leases (ps_ledger p)) i = Some le \<longleftrightarrow> bm_get (live_leases (map snd ?m)) i = Some le" for i le
    using assms by (simp add: bm_get_in_set [OF inv] bm_get_in_set [OF inv'] ledger_leases_get [OF vs] leases_live_def)
  then show "bm_get (ledger_leases (ps_ledger p)) = bm_get (live_leases (map snd ?m))"
    by (metis ext not_None_eq)
qed

lemma leased_units_only: "leased_units h (only_leases (ledger_leases l)) = leased_units h (lg_vessels l)"
proof -
  have "leased_units h (only_leases (List.map_filter
      (\<lambda>(i, v). case v of Leased le \<Rightarrow> Some (i, le) | Waiting _ \<Rightarrow> None) vs)) = leased_units h vs"
    for vs :: "(vessel_id, placed_vessel) btree_map"
    by (induction vs) (auto simp: leased_units_def only_leases_def List.map_filter_simps split: placed_vessel.splits)
  then show ?thesis
    by (simp add: ledger_leases_def)
qed

lemma ledger_leases_only: "lg_vessels l = only_leases leases \<Longrightarrow> ledger_leases l = leases"
proof -
  have "List.map_filter (\<lambda>(i, v). case v of Leased le \<Rightarrow> Some (i, le) | Waiting _ \<Rightarrow> None) (only_leases leases) = leases"
    by (induction leases) (auto simp: only_leases_def List.map_filter_simps)
  then show "lg_vessels l = only_leases leases \<Longrightarrow> ledger_leases l = leases"
    by (simp add: ledger_leases_def)
qed

lemma leases_live_restart:
  assumes "leases_live p"
  shows "placements_new (ps_home p) (lg_hosts (ps_ledger p))
    = Inr (\<lparr>ps_ledger = \<lparr>lg_hosts = lg_hosts (ps_ledger p), lg_caps = [],
        lg_vessels = only_leases (ledger_leases (ps_ledger p))\<rparr>, ps_home = ps_home p\<rparr>, [])"
proof -
  let ?l = "ps_ledger p"
  have inv: "ledger_inv ?l"
    using assms by (simp add: leases_live_def)
  then have hosts: "add_hosts (lg_hosts ?l) ledger_new = Inr (ledger_new\<lparr>lg_hosts := lg_hosts ?l\<rparr>)"
    using add_hosts_sorted [of ledger_new "lg_hosts ?l"] by (simp add: ledger_new_def ledger_inv_def)
  have "restore_leases (ledger_leases ?l) (ledger_new\<lparr>lg_hosts := lg_hosts ?l\<rparr>)
      = ([], ledger_new\<lparr>lg_hosts := lg_hosts ?l, lg_vessels := only_leases ([] @ ledger_leases ?l)\<rparr>)"
  proof (rule restore_leases_fit)
    show "bm_inv ([] @ ledger_leases ?l)"
      using inv ledger_leases_inv by (simp add: ledger_inv_def)
    show "lg_vessels (ledger_new\<lparr>lg_hosts := lg_hosts ?l\<rparr>) = only_leases []"
      by (simp add: ledger_new_def only_leases_def)
    show "\<exists>capacity. bm_get (lg_hosts (ledger_new\<lparr>lg_hosts := lg_hosts ?l\<rparr>)) (le_host le) = Some capacity
        \<and> within (leased_units (le_host le) (only_leases ([] @ ledger_leases ?l))) capacity"
      if "(i, le) \<in> set (ledger_leases ?l)" for i le
      using inv that ledger_leases_get [of ?l] by (fastforce simp: ledger_inv_def leased_units_only)
  qed
  then show ?thesis
    unfolding placements_new_def hosts leases_live_leases [OF assms, symmetric] by (simp add: ledger_new_def)
qed

lemma add_hosts_inv:
  "ledger_inv l \<Longrightarrow> add_hosts hosts l = Inr l' \<Longrightarrow> ledger_inv l' \<and> lg_vessels l' = lg_vessels l"
proof (induction hosts arbitrary: l)
  case (Cons hc hosts)
  obtain h capacity where hc: "hc = (h, capacity)"
    by (cases hc)
  with Cons.prems obtain l1 where l1: "ledger_add_host h capacity l = (Inr (), l1)" "add_hosts hosts l1 = Inr l'"
    by (auto split: prod.splits sum.splits)
  moreover have "ledger_inv l1" "lg_vessels l1 = lg_vessels l"
    using ledger_inv_add_host [OF Cons.prems(1), of h capacity] l1(1)
    by (auto simp: ledger_add_host_def split: if_splits)
  ultimately show ?case
    using Cons.IH by auto
qed simp

lemma leases_live_fresh:
  assumes "home_with_log (lifecycle_machine vessel_kind) writer lg = Inr home"
    and "placements_new home hosts = Inr (p, unplaced)"
  shows "leases_live p"
proof -
  have home: "hm_resources home = []"
    using assms(1) by (auto simp: home_with_log_def split: sum.splits)
  then obtain l where l: "add_hosts hosts ledger_new = Inr l" "p = \<lparr>ps_ledger = l, ps_home = home\<rparr>"
    using assms(2) by (auto simp: placements_new_def live_leases_def split: sum.splits)
  from add_hosts_inv [OF ledger_inv_new l(1)] home show ?thesis
    by (simp add: l(2) leases_live_def home_all_def ledger_new_def)
qed

lemma placements_run_leases_live:
  assumes "home_with_log (lifecycle_machine vessel_kind) writer lg = Inr home" and "log_keeps L"
    and "placements_new home hosts = Inr (start, unplaced)" and "placements_run L start p"
  shows "leases_live p"
  by (rule leases_live_run [OF assms(4,2) leases_live_fresh [OF assms(1,3)]])

section \<open>Properties\<close>

text \<open>
  C37: The ledger is a view of the live vessels. From a fresh home and any hosts, after any caps,
  hosts, requests, placements and lifecycle edges in any order, accepted or refused, the leases the
  ledger holds are exactly those of the vessels the home holds in a live state, in the same order.
\<close>

theorem placements_ledger_is_view:
  assumes "home_with_log (lifecycle_machine vessel_kind) writer lg = Inr home" and "log_keeps L"
    and "placements_new home hosts = Inr (start, unplaced)" and "placements_run L start p"
  shows "ledger_leases (ps_ledger p) = live_leases (map snd (hm_resources (ps_home p)))"
  by (rule leases_live_leases [OF placements_run_leases_live [OF assms]])

text \<open>
  C38: A restart loses no lease. After any such run, placement built anew over the same home and the
  hosts it then had restores every live vessel's lease with none left unplaced: the new ledger has
  the same leases and computes the same available capacity on every host.
\<close>

theorem placements_restart_rebuilds:
  assumes "home_with_log (lifecycle_machine vessel_kind) writer lg = Inr home" and "log_keeps L"
    and "placements_new home hosts = Inr (start, unplaced)" and "placements_run L start p"
  shows "\<exists>p'. placements_new (ps_home p) (lg_hosts (ps_ledger p)) = Inr (p', [])
    \<and> ledger_leases (ps_ledger p') = ledger_leases (ps_ledger p)
    \<and> (\<forall>h. ledger_available h (ps_ledger p') = ledger_available h (ps_ledger p))"
  using leases_live_restart [OF placements_run_leases_live [OF assms]]
  by (simp add: ledger_leases_only ledger_available_eq leased_units_only split: option.split)

text \<open>
  C40: A placement that fails changes nothing that counts: the ledger is as it was, with the request
  waiting again where the home did not take the create, and so are the home's vessels.
\<close>

theorem placements_place_atomic:
  assumes "ledger_inv (ps_ledger p)" and "placements_place L i h now p = (Inl e, p')"
  shows "ps_ledger p' = ps_ledger p \<and> hm_resources (ps_home p') = hm_resources (ps_home p)"
proof (cases "ledger_place i h (ps_ledger p)")
  case (Pair res l)
  show ?thesis
  proof (cases res)
    case (Inl err)
    with assms(2) Pair ledger_place_Inl [of i h "ps_ledger p"] show ?thesis
      by (auto simp: placements_place_def)
  next
    case (Inr le)
    obtain cres home where create: "home_create (lifecycle_machine vessel_kind) L i (vessel_spec_of le)
        empty_lifecycle_world now (ps_home p) = (cres, home)"
      by (cases "home_create (lifecycle_machine vessel_kind) L i (vessel_spec_of le) empty_lifecycle_world now (ps_home p)")
    have undo: "undo_grant i le l = (Inr (), ps_ledger p)"
      using undo_grant_restores [OF assms(1)] Pair Inr by simp
    show ?thesis
    proof (cases cres)
      case (Inl err)
      from home_create_InlD [OF create [unfolded this]] Inl show ?thesis
        using assms(2) Pair Inr create undo \<open>res = Inr le\<close> by (auto simp: placements_place_def)
    next
      case (Inr created)
      then have "bm_get (hm_resources home) i \<noteq> None"
        using create by (cases created) (auto elim!: home_create_InrD)
      then show ?thesis
        using assms(2) Pair \<open>res = Inr le\<close> create Inr
        by (auto simp: placements_place_def answer_vessel_def Let_def)
    qed
  qed
qed

definition demo_vessel_world :: lifecycle_world where
  "demo_vessel_world = \<lparr>w_realisation = (\<lambda>_. None), w_teardown = (\<lambda>n. Some (1, True)), w_absence = (\<lambda>_. None)\<rparr>"

definition demo_small_lease :: lease where
  "demo_small_lease = \<lparr>le_request = demo_placement_request, le_host = ''h1''\<rparr>"

definition demo_unplaced_home :: "(lifecycle_label, lifecycle_edge_kind, lifecycle_edge) memory_log vessel_home" where
  "demo_unplaced_home = snd (home_create (lifecycle_machine vessel_kind) memory_log_ops ''v1''
     (vessel_spec_of demo_small_lease) empty_lifecycle_world 1
     \<lparr>hm_writer = ''home'', hm_resources = [], hm_log = memory_log_new\<rparr>)"

definition demo_unplaced_apply where
  "demo_unplaced_apply =
    (case placements_new demo_unplaced_home [(''h1'', [(0, 2), (1, 2)])] of
       Inl e \<Rightarrow> None
     | Inr (p, unplaced) \<Rightarrow>
         (case placements_request ''v1'' demo_placement_request p of
            (_, p1) \<Rightarrow> Some (unplaced,
              placements_apply memory_log_ops ''v1'' (Release ''t'') demo_vessel_world 2 p1)))"

text \<open>
  An edge on a vessel can be written and still be answered with an error: when a live vessel
  whose lease no longer fitted stays unplaced and a request waits under its id, releasing the vessel
  leaves it Gone at the home while the answer is the ledger's \<open>NotLeased\<close>.
\<close>

theorem placements_error_after_write:
  "map_option (\<lambda>(unplaced, result, p). (unplaced, result,
      map_option (\<lambda>r. st_value (res_state r)) (placements_get ''v1'' p))) demo_unplaced_apply
    = Some ([(''v1'', CapacityUnderflow ''h1'' 0)], Inl (PE_Ledger (NotLeased ''v1'')), Some (Gone Released))"
  by code_simp

section \<open>Witnesses\<close>

definition demo_fleet_home :: "(lifecycle_label, lifecycle_edge_kind, lifecycle_edge) memory_log vessel_home" where
  "demo_fleet_home = \<lparr>hm_writer = ''home'', hm_resources = [], hm_log = memory_log_new\<rparr>"

definition demo_fleet_start :: "(lifecycle_label, lifecycle_edge_kind, lifecycle_edge) memory_log placements" where
  "demo_fleet_start = (case placements_new demo_fleet_home [(''h1'', [(0, 6), (1, 16)])] of
     Inl e \<Rightarrow> \<lparr>ps_ledger = ledger_new, ps_home = demo_fleet_home\<rparr> | Inr (p, unplaced) \<Rightarrow> p)"

definition demo_fleet_waiting where
  "demo_fleet_waiting = snd (placements_request ''v1'' demo_placement_request
     (placements_set_cap (ConvoyId ''c1'' ''home'') ''small'' 2 demo_fleet_start))"

definition demo_fleet where
  "demo_fleet = snd (placements_place memory_log_ops ''v1'' ''h1'' 1 demo_fleet_waiting)"

lemma demo_fleet_fresh:
  "home_with_log (lifecycle_machine vessel_kind) ''home'' memory_log_new = Inr demo_fleet_home"
proof -
  have "validate (lifecycle_machine vessel_kind :: (_, _, _, _, vessel_spec, _, _, _, _, _) machine) = Inr ()"
    by code_simp
  then show ?thesis
    by (simp add: home_with_log_def demo_fleet_home_def)
qed

lemma demo_fleet_new: "placements_new demo_fleet_home [(''h1'', [(0, 6), (1, 16)])] = Inr (demo_fleet_start, [])"
  by code_simp

lemma demo_fleet_run:
  "placements_run memory_log_ops demo_fleet_start demo_fleet_waiting"
  "placements_run memory_log_ops demo_fleet_start demo_fleet"
proof -
  have "bm_inv (pr_shape demo_placement_request)"
    by code_simp
  then show waiting: "placements_run memory_log_ops demo_fleet_start demo_fleet_waiting"
    unfolding demo_fleet_waiting_def by (intro placements_requested placements_cap placements_start)
  then show "placements_run memory_log_ops demo_fleet_start demo_fleet"
    unfolding demo_fleet_def by (rule placements_placed)
qed

theorem placements_ledger_is_view_witness:
  "ledger_leases (ps_ledger demo_fleet) = [(''v1'', demo_small_lease)]
    \<and> live_leases (map snd (hm_resources (ps_home demo_fleet))) = [(''v1'', demo_small_lease)]"
proof -
  have "ledger_leases (ps_ledger demo_fleet) = [(''v1'', demo_small_lease)]"
    by code_simp
  with placements_ledger_is_view [OF demo_fleet_fresh memory_log_keeps demo_fleet_new demo_fleet_run(2)] show ?thesis
    by simp
qed

theorem placements_restart_rebuilds_witness:
  "\<exists>p'. placements_new (ps_home demo_fleet) (lg_hosts (ps_ledger demo_fleet)) = Inr (p', [])
    \<and> ledger_leases (ps_ledger p') = [(''v1'', demo_small_lease)]"
proof -
  have "ledger_leases (ps_ledger demo_fleet) = [(''v1'', demo_small_lease)]"
    by code_simp
  with placements_restart_rebuilds [OF demo_fleet_fresh memory_log_keeps demo_fleet_new demo_fleet_run(2)] show ?thesis
    by auto
qed

theorem placements_place_atomic_witness:
  "ps_ledger (snd (placements_place memory_log_ops ''v1'' ''h2'' 1 demo_fleet_waiting)) = ps_ledger demo_fleet_waiting"
proof -
  have "ledger_inv (ps_ledger demo_fleet_waiting)"
    using placements_run_leases_live [OF demo_fleet_fresh memory_log_keeps demo_fleet_new demo_fleet_run(1)]
    by (simp add: leases_live_def)
  moreover have "fst (placements_place memory_log_ops ''v1'' ''h2'' 1 demo_fleet_waiting) = Inl (PE_Ledger (UnknownHost ''h2''))"
    by code_simp
  ultimately show ?thesis
    using placements_place_atomic by (metis prod.collapse)
qed

end
