(* ===== verification/Ensure.thy ===== *)
theory Ensure
  imports Home Attempt
begin

text \<open>
  The Ensure machine, \<open>src/crates/flotilla-state-machines/src/machines/ensure.rs\<close>: it keeps one
  fulfiller bound, recording each before asking for it.

  \<open>ensure_accepts\<close> is the evidence on which each edge is taken; the engine's step over the declared
  machine takes exactly those. The invariant ties the work together: the tally is well formed, every
  created fulfiller was recorded, a bound one was recorded, and a held Ensure has a spent window.
\<close>

section \<open>States and edges\<close>

type_synonym fulfillers = "string btree_set"

record work =
  wk_recorded :: fulfillers
  wk_created :: fulfillers
  wk_failures :: nat
  wk_last_failure :: "failure option"

datatype ensure_state =
  Unfulfilled fulfillers fulfillers nat "failure option"
| Fulfilled fulfillers fulfillers nat "failure option" string
| Held fulfillers fulfillers nat "failure option"
| Ensure_Retired fulfillers fulfillers nat "failure option"

datatype ensure_label = UnfulfilledL | FulfilledL | HeldL | RetiredL

datatype ensure_datum =
  D_recorded fulfillers
| D_created fulfillers
| D_window_failures nat
| D_window_last "failure option"
| D_bound string

fun ensure_label_of :: "ensure_state \<Rightarrow> ensure_label" where
  "ensure_label_of (Unfulfilled r c n f) = UnfulfilledL"
| "ensure_label_of (Fulfilled r c n f b) = FulfilledL"
| "ensure_label_of (Held r c n f) = HeldL"
| "ensure_label_of (Ensure_Retired r c n f) = RetiredL"

fun ensure_data :: "ensure_state \<Rightarrow> (string \<times> ensure_datum) list" where
  "ensure_data (Unfulfilled r c n f) =
    [(''recorded'', D_recorded r), (''created'', D_created c),
     (''failures'', D_window_failures n), (''last_failure'', D_window_last f)]"
| "ensure_data (Fulfilled r c n f b) =
    [(''recorded'', D_recorded r), (''created'', D_created c),
     (''failures'', D_window_failures n), (''last_failure'', D_window_last f), (''bound'', D_bound b)]"
| "ensure_data (Held r c n f) =
    [(''recorded'', D_recorded r), (''created'', D_created c),
     (''failures'', D_window_failures n), (''last_failure'', D_window_last f)]"
| "ensure_data (Ensure_Retired r c n f) =
    [(''recorded'', D_recorded r), (''created'', D_created c),
     (''failures'', D_window_failures n), (''last_failure'', D_window_last f)]"

fun ensure_fields :: "ensure_label \<Rightarrow> string list" where
  "ensure_fields FulfilledL = [''recorded'', ''created'', ''failures'', ''last_failure'', ''bound'']"
| "ensure_fields _ = [''recorded'', ''created'', ''failures'', ''last_failure'']"

fun ensure_recorded :: "ensure_state \<Rightarrow> fulfillers" where
  "ensure_recorded (Unfulfilled r c n f) = r"
| "ensure_recorded (Fulfilled r c n f b) = r"
| "ensure_recorded (Held r c n f) = r"
| "ensure_recorded (Ensure_Retired r c n f) = r"

fun ensure_created :: "ensure_state \<Rightarrow> fulfillers" where
  "ensure_created (Unfulfilled r c n f) = c"
| "ensure_created (Fulfilled r c n f b) = c"
| "ensure_created (Held r c n f) = c"
| "ensure_created (Ensure_Retired r c n f) = c"

fun ensure_failures :: "ensure_state \<Rightarrow> nat" where
  "ensure_failures (Unfulfilled r c n f) = n"
| "ensure_failures (Fulfilled r c n f b) = n"
| "ensure_failures (Held r c n f) = n"
| "ensure_failures (Ensure_Retired r c n f) = n"

fun ensure_last_failure :: "ensure_state \<Rightarrow> failure option" where
  "ensure_last_failure (Unfulfilled r c n f) = f"
| "ensure_last_failure (Fulfilled r c n f b) = f"
| "ensure_last_failure (Held r c n f) = f"
| "ensure_last_failure (Ensure_Retired r c n f) = f"

fun ensure_bound :: "ensure_state \<Rightarrow> string option" where
  "ensure_bound (Fulfilled r c n f b) = Some b"
| "ensure_bound _ = None"

definition work_of :: "ensure_state \<Rightarrow> work" where
  "work_of s =
    \<lparr>wk_recorded = ensure_recorded s, wk_created = ensure_created s, wk_failures = ensure_failures s,
     wk_last_failure = ensure_last_failure s\<rparr>"

definition unfulfilled :: "work \<Rightarrow> ensure_state" where
  "unfulfilled w = Unfulfilled (wk_recorded w) (wk_created w) (wk_failures w) (wk_last_failure w)"

definition fulfilled :: "work \<Rightarrow> string \<Rightarrow> ensure_state" where
  "fulfilled w b = Fulfilled (wk_recorded w) (wk_created w) (wk_failures w) (wk_last_failure w) b"

definition held :: "work \<Rightarrow> ensure_state" where
  "held w = Held (wk_recorded w) (wk_created w) (wk_failures w) (wk_last_failure w)"

definition retired :: "work \<Rightarrow> ensure_state" where
  "retired w = Ensure_Retired (wk_recorded w) (wk_created w) (wk_failures w) (wk_last_failure w)"

record ensure_spec =
  en_inbox :: string
  en_policy :: attempt_policy

datatype unbind_reason = Unbind_Gone | Unbind_Replaced

record unbind =
  ub_reason :: unbind_reason
  ub_fulfiller :: string

record ensure_attempt =
  ea_fulfiller :: string
  ea_outcome :: outcome

record resume_arg =
  rm_by :: string
  rm_authority :: string

record retire_arg =
  re_by :: string
  re_authority :: string
  re_teardown :: string

datatype ensure_edge =
  Record string
| Create string
| Bind string
| Unbind unbind
| Hold
| Resume resume_arg
| Retire retire_arg
| Ensure_Attempted ensure_attempt

datatype ensure_edge_kind =
  RecordK | CreateK | BindK | UnbindK | HoldK | ResumeK | RetireK | Ensure_AttemptedK

fun ensure_kind_of :: "ensure_edge \<Rightarrow> ensure_edge_kind" where
  "ensure_kind_of (Record f) = RecordK"
| "ensure_kind_of (Create f) = CreateK"
| "ensure_kind_of (Bind f) = BindK"
| "ensure_kind_of (Unbind u) = UnbindK"
| "ensure_kind_of Hold = HoldK"
| "ensure_kind_of (Resume r) = ResumeK"
| "ensure_kind_of (Retire r) = RetireK"
| "ensure_kind_of (Ensure_Attempted a) = Ensure_AttemptedK"

definition project_record :: "ensure_edge \<Rightarrow> string option" where
  "project_record e = (case e of Record f \<Rightarrow> Some f | _ \<Rightarrow> None)"
definition project_create :: "ensure_edge \<Rightarrow> string option" where
  "project_create e = (case e of Create f \<Rightarrow> Some f | _ \<Rightarrow> None)"
definition project_bind :: "ensure_edge \<Rightarrow> string option" where
  "project_bind e = (case e of Bind f \<Rightarrow> Some f | _ \<Rightarrow> None)"
definition project_unbind :: "ensure_edge \<Rightarrow> unbind option" where
  "project_unbind e = (case e of Unbind u \<Rightarrow> Some u | _ \<Rightarrow> None)"
definition project_hold :: "ensure_edge \<Rightarrow> unit option" where
  "project_hold e = (case e of Hold \<Rightarrow> Some () | _ \<Rightarrow> None)"
definition project_resume :: "ensure_edge \<Rightarrow> resume_arg option" where
  "project_resume e = (case e of Resume r \<Rightarrow> Some r | _ \<Rightarrow> None)"
definition project_retire :: "ensure_edge \<Rightarrow> retire_arg option" where
  "project_retire e = (case e of Retire r \<Rightarrow> Some r | _ \<Rightarrow> None)"
definition project_ensure_attempted :: "ensure_edge \<Rightarrow> ensure_attempt option" where
  "project_ensure_attempted e = (case e of Ensure_Attempted a \<Rightarrow> Some a | _ \<Rightarrow> None)"

section \<open>The world\<close>

datatype fulfiller_phase = Ph_Requested | Ph_Realised | Ph_Gone | Ph_GaveUp

record fulfiller_status =
  fs_phase :: fulfiller_phase
  fs_can_receive :: bool

record ensure_world =
  w_fulfiller :: "string \<Rightarrow> (version \<times> fulfiller_status) option"
  w_drain :: "string \<Rightarrow> (version \<times> bool) option"
  w_ensure_authority :: "string \<Rightarrow> (version \<times> bool) option"
  w_ensure_teardown :: "string \<Rightarrow> (version \<times> bool) option"

definition Fulfiller :: "(ensure_world, fulfiller_status) kind" where
  "Fulfiller = \<lparr>k_name = ''fulfiller'', k_lookup = w_fulfiller\<rparr>"

definition Drain :: "(ensure_world, bool) kind" where
  "Drain = \<lparr>k_name = ''drain'', k_lookup = w_drain\<rparr>"

definition Ensure_Authority :: "(ensure_world, bool) kind" where
  "Ensure_Authority = \<lparr>k_name = ''authority'', k_lookup = w_ensure_authority\<rparr>"

definition Ensure_Teardown :: "(ensure_world, bool) kind" where
  "Ensure_Teardown = \<lparr>k_name = ''teardown'', k_lookup = w_ensure_teardown\<rparr>"

datatype ensure_refusal =
  Ensure_Ended string
| Ensure_WrongState
| NotRecorded
| FulfillerLive
| Ensure_MissingEvidence
| NotExhausted
| Ensure_Unauthorised

section \<open>Gates and effects\<close>

type_synonym ensure_handle = "(ensure_spec, ensure_state, ensure_world, no_records) handle"
type_synonym ensure_gate = "(ensure_refusal + unit) \<times> ensure_handle"

definition is_live :: "fulfiller_status option \<Rightarrow> bool" where
  "is_live status = (case status of
     None \<Rightarrow> False
   | Some s \<Rightarrow> fs_phase s = Ph_Requested \<or> fs_phase s = Ph_Realised)"

definition record_fulfiller :: "ensure_handle \<Rightarrow> ensure_state \<Rightarrow> string \<Rightarrow> ensure_state \<times> ensure_handle" where
  "record_fulfiller h state f =
    (let w = work_of state in (unfulfilled (w\<lparr>wk_recorded := bs_insert f (wk_recorded w)\<rparr>), h))"

text \<open>\<open>Iterator::any\<close> stops at the first live one, and reads no further.\<close>

fun any_live :: "fulfillers \<Rightarrow> ensure_handle \<Rightarrow> bool \<times> ensure_handle" where
  "any_live [] h = (False, h)"
| "any_live (f # fs) h =
    (case handle_read Fulfiller f h of
       (status, h') \<Rightarrow> if is_live status then (True, h') else any_live fs h')"

definition gate_create :: "ensure_handle \<Rightarrow> string \<Rightarrow> ensure_gate" where
  "gate_create h f =
    (if f \<notin> set (ensure_recorded (h_state h)) then (Inl NotRecorded, h)
     else (case any_live (ensure_recorded (h_state h)) h of
       (live_found, h1) \<Rightarrow> (case handle_read Fulfiller f h1 of
         (status, h2) \<Rightarrow>
           if live_found \<or> status \<noteq> None then (Inl FulfillerLive, h2) else (Inr (), h2))))"

definition create :: "ensure_handle \<Rightarrow> ensure_state \<Rightarrow> string \<Rightarrow> ensure_state \<times> ensure_handle" where
  "create h state f =
    (let w = work_of state in (unfulfilled (w\<lparr>wk_created := bs_insert f (wk_created w)\<rparr>), h))"

definition gate_bind :: "ensure_handle \<Rightarrow> string \<Rightarrow> ensure_gate" where
  "gate_bind h f =
    (if f \<notin> set (ensure_recorded (h_state h)) then (Inl NotRecorded, h)
     else (case handle_read Fulfiller f h of
       (status, h1) \<Rightarrow>
         (let ready = (case status of None \<Rightarrow> False | Some s \<Rightarrow> fs_phase s = Ph_Realised \<and> fs_can_receive s)
          in if ready
             then (case handle_read Drain (en_inbox (h_spec h1)) h1 of
                (drained, h2) \<Rightarrow>
                  if drained = Some True then (Inr (), h2) else (Inl Ensure_MissingEvidence, h2))
             else (Inl Ensure_MissingEvidence, h1))))"

definition bind_fulfiller :: "ensure_handle \<Rightarrow> ensure_state \<Rightarrow> string \<Rightarrow> ensure_state \<times> ensure_handle" where
  "bind_fulfiller h state f = (fulfilled (work_of state) f, h)"

definition gate_unbind :: "ensure_handle \<Rightarrow> unbind \<Rightarrow> ensure_gate" where
  "gate_unbind h u =
    (case handle_read Fulfiller (ub_fulfiller u) h of
       (status, h1) \<Rightarrow>
         if ensure_bound (h_state h) = Some (ub_fulfiller u)
            \<and> (case status of None \<Rightarrow> False | Some s \<Rightarrow> fs_phase s = Ph_Gone)
         then (Inr (), h1) else (Inl Ensure_MissingEvidence, h1))"

definition effect_unbind :: "ensure_handle \<Rightarrow> ensure_state \<Rightarrow> unbind \<Rightarrow> ensure_state \<times> ensure_handle" where
  "effect_unbind h state u = (unfulfilled (work_of state), h)"

definition ensure_attempted ::
  "ensure_handle \<Rightarrow> ensure_state \<Rightarrow> ensure_attempt \<Rightarrow> ensure_state \<times> ensure_handle" where
  "ensure_attempted h state a =
    (let w = work_of state; (n, f) = tally (wk_failures w) (ea_outcome a) (h_now h)
     in (unfulfilled (w\<lparr>wk_failures := n, wk_last_failure := f\<rparr>), h))"

definition gate_hold :: "ensure_handle \<Rightarrow> unit \<Rightarrow> ensure_gate" where
  "gate_hold h u =
    (case retry (en_policy (h_spec h)) (ensure_failures (h_state h)) (ensure_last_failure (h_state h)) h of
       (r, h') \<Rightarrow> if exhausted r then (Inr (), h') else (Inl NotExhausted, h'))"

definition effect_hold :: "ensure_handle \<Rightarrow> ensure_state \<Rightarrow> unit \<Rightarrow> ensure_state \<times> ensure_handle" where
  "effect_hold h state u = (held (work_of state), h)"

definition gate_resume :: "ensure_handle \<Rightarrow> resume_arg \<Rightarrow> ensure_gate" where
  "gate_resume h r =
    (case handle_read Ensure_Authority (rm_authority r) h of
       (found, h') \<Rightarrow> if found = Some True then (Inr (), h') else (Inl Ensure_Unauthorised, h'))"

definition resume :: "ensure_handle \<Rightarrow> ensure_state \<Rightarrow> resume_arg \<Rightarrow> ensure_state \<times> ensure_handle" where
  "resume h state r = (unfulfilled ((work_of state)\<lparr>wk_failures := 0, wk_last_failure := None\<rparr>), h)"

definition gate_retire :: "ensure_handle \<Rightarrow> retire_arg \<Rightarrow> ensure_gate" where
  "gate_retire h r =
    (case handle_read Ensure_Authority (re_authority r) h of
       (found, h1) \<Rightarrow>
         if found \<noteq> Some True then (Inl Ensure_Unauthorised, h1)
         else (case handle_read Ensure_Teardown (re_teardown r) h1 of
           (torn, h2) \<Rightarrow> if torn \<noteq> Some True then (Inl Ensure_MissingEvidence, h2) else (Inr (), h2)))"

definition effect_retire :: "ensure_handle \<Rightarrow> ensure_state \<Rightarrow> retire_arg \<Rightarrow> ensure_state \<times> ensure_handle" where
  "effect_retire h state r = (retired (work_of state), h)"

section \<open>The declaration\<close>

type_synonym ensure_declared =
  "(ensure_label, ensure_edge_kind, ensure_state, ensure_edge, ensure_spec, ensure_world,
    no_records, ensure_refusal) declared_edge"

definition record_edge :: ensure_declared where
  "record_edge = chained (edge_new RecordK)
    [edge_from [UnfulfilledL], edge_to [UnfulfilledL], edge_changes [''recorded''],
     edge_ungated ''naming a fulfiller before asking for it promises nothing, so any may be recorded'',
     edge_effect project_record record_fulfiller]"

definition create_edge :: ensure_declared where
  "create_edge = chained (edge_new CreateK)
    [edge_from [UnfulfilledL], edge_to [UnfulfilledL], edge_changes [''created''],
     edge_gate project_create ''the fulfiller is recorded, none recorded is live, and it does not exist'' gate_create,
     edge_effect project_create create]"

definition bind_edge :: ensure_declared where
  "bind_edge = chained (edge_new BindK)
    [edge_from [UnfulfilledL], edge_to [FulfilledL], edge_changes [''bound''],
     edge_gate project_bind ''the fulfiller is recorded, realised, can receive, and the inbox has drained'' gate_bind,
     edge_effect project_bind bind_fulfiller]"

definition unbind_edge :: ensure_declared where
  "unbind_edge = chained (edge_new UnbindK)
    [edge_from [FulfilledL], edge_to [UnfulfilledL],
     edge_gate project_unbind ''the bound fulfiller is observed gone'' gate_unbind,
     edge_effect project_unbind effect_unbind]"

definition ensure_attempted_edge :: ensure_declared where
  "ensure_attempted_edge = chained (edge_new Ensure_AttemptedK)
    [edge_from [UnfulfilledL], edge_to [UnfulfilledL], edge_changes [''failures'', ''last_failure''],
     edge_ungated ''an attempt reports how a try ended; the hold gate judges the window it leaves'',
     edge_effect project_ensure_attempted ensure_attempted]"

definition hold_edge :: ensure_declared where
  "hold_edge = chained (edge_new HoldK)
    [edge_from [UnfulfilledL], edge_to [HeldL],
     edge_gate project_hold
       ''the window's consecutive failures reach the policy's limit, or the last failure cannot be retried''
       gate_hold,
     edge_effect project_hold effect_hold]"

definition resume_edge :: ensure_declared where
  "resume_edge = chained (edge_new ResumeK)
    [edge_from [HeldL], edge_to [UnfulfilledL], edge_changes [''failures'', ''last_failure''],
     edge_gate project_resume ''the resumer is authorised'' gate_resume,
     edge_effect project_resume resume]"

definition retire_edge :: ensure_declared where
  "retire_edge = chained (edge_new RetireK)
    [edge_from [UnfulfilledL, FulfilledL, HeldL], edge_to [RetiredL],
     edge_gate project_retire ''the retirer is authorised and the teardown is complete'' gate_retire,
     edge_effect project_retire effect_retire]"

definition ensure_definition ::
  "(ensure_label, ensure_edge_kind, ensure_state, ensure_edge, ensure_spec, ensure_world,
    no_records, ensure_refusal) machine_def" where
  "ensure_definition =
    chained (machine_new UnfulfilledL)
      [machine_edge record_edge, machine_edge create_edge, machine_edge bind_edge,
       machine_edge unbind_edge, machine_edge ensure_attempted_edge, machine_edge hold_edge,
       machine_edge resume_edge, machine_edge retire_edge,
       machine_end RetiredL ''the ensure is retired'']"

definition ensure_admit ::
  "ensure_world admission \<Rightarrow> ensure_spec
    \<Rightarrow> (ensure_refusal + ensure_spec \<times> ensure_state) \<times> ensure_world admission" where
  "ensure_admit a spec =
    (Inr (spec, unfulfilled \<lparr>wk_recorded = [], wk_created = [], wk_failures = 0, wk_last_failure = None\<rparr>), a)"

definition ensure_machine ::
  "(ensure_label, ensure_edge_kind, ensure_state, ensure_edge, ensure_spec, ensure_world,
    no_records, ensure_refusal, ensure_datum, ensure_spec) machine" where
  "ensure_machine =
    \<lparr>m_name = ''Ensure'', m_label = ensure_label_of, m_data = ensure_data,
     m_fields = ensure_fields, m_labels = [UnfulfilledL, FulfilledL, HeldL, RetiredL],
     m_label_name = (\<lambda>l. case l of UnfulfilledL \<Rightarrow> ''Unfulfilled'' | FulfilledL \<Rightarrow> ''Fulfilled''
       | HeldL \<Rightarrow> ''Held'' | RetiredL \<Rightarrow> ''Retired''),
     m_label_code = (\<lambda>l. case l of UnfulfilledL \<Rightarrow> ''un'' | FulfilledL \<Rightarrow> ''fu''
       | HeldL \<Rightarrow> ''he'' | RetiredL \<Rightarrow> ''rt''),
     m_kind = ensure_kind_of,
     m_kinds = [RecordK, CreateK, BindK, UnbindK, HoldK, ResumeK, RetireK, Ensure_AttemptedK],
     m_kind_name = (\<lambda>k. case k of RecordK \<Rightarrow> ''record'' | CreateK \<Rightarrow> ''create'' | BindK \<Rightarrow> ''bind''
       | UnbindK \<Rightarrow> ''unbind'' | HoldK \<Rightarrow> ''hold'' | ResumeK \<Rightarrow> ''resume'' | RetireK \<Rightarrow> ''retire''
       | Ensure_AttemptedK \<Rightarrow> ''attempted''),
     m_kind_code = (\<lambda>k. case k of RecordK \<Rightarrow> ''rc'' | CreateK \<Rightarrow> ''cr'' | BindK \<Rightarrow> ''bi''
       | UnbindK \<Rightarrow> ''ub'' | HoldK \<Rightarrow> ''ho'' | ResumeK \<Rightarrow> ''rs'' | RetireK \<Rightarrow> ''rt''
       | Ensure_AttemptedK \<Rightarrow> ''at''),
     m_write_field = (\<lambda>_. []), m_write_apply = (\<lambda>_ _ spec. Inr spec),
     m_ended = (\<lambda>_ reason. Ensure_Ended reason), m_wrong_state = (\<lambda>_ _. Ensure_WrongState),
     m_definition = ensure_definition,
     m_admit = ensure_admit\<rparr>"

section \<open>Evidence and invariant\<close>

text \<open>The evidence on which an Ensure takes an edge, and the state it then has.\<close>

definition ensure_accepts :: "ensure_handle \<Rightarrow> ensure_edge \<Rightarrow> ensure_state \<Rightarrow> bool" where
  "ensure_accepts h e state \<longleftrightarrow>
    (case e of
       Record g \<Rightarrow> \<exists>r c n f. h_state h = Unfulfilled r c n f \<and> state = Unfulfilled (bs_insert g r) c n f
     | Create g \<Rightarrow> \<exists>r c n f. h_state h = Unfulfilled r c n f \<and> state = Unfulfilled r (bs_insert g c) n f
         \<and> g \<in> set r \<and> (\<forall>g'\<in>set r. \<not> is_live (look Fulfiller g' h)) \<and> look Fulfiller g h = None
     | Bind g \<Rightarrow> \<exists>r c n f. h_state h = Unfulfilled r c n f \<and> state = Fulfilled r c n f g
         \<and> g \<in> set r \<and> look Drain (en_inbox (h_spec h)) h = Some True
         \<and> look Fulfiller g h = Some \<lparr>fs_phase = Ph_Realised, fs_can_receive = True\<rparr>
     | Unbind u \<Rightarrow> \<exists>r c n f receives. h_state h = Fulfilled r c n f (ub_fulfiller u)
         \<and> state = Unfulfilled r c n f
         \<and> look Fulfiller (ub_fulfiller u) h = Some \<lparr>fs_phase = Ph_Gone, fs_can_receive = receives\<rparr>
     | Hold \<Rightarrow> \<exists>r c n f. h_state h = Unfulfilled r c n f \<and> state = Held r c n f
         \<and> tally_exhausted (en_policy (h_spec h)) n f
     | Resume p \<Rightarrow> \<exists>r c n f. h_state h = Held r c n f \<and> state = Unfulfilled r c 0 None
         \<and> look Ensure_Authority (rm_authority p) h = Some True
     | Retire p \<Rightarrow> ensure_label_of (h_state h) \<noteq> RetiredL \<and> state = retired (work_of (h_state h))
         \<and> look Ensure_Authority (re_authority p) h = Some True
         \<and> look Ensure_Teardown (re_teardown p) h = Some True
     | Ensure_Attempted a \<Rightarrow> \<exists>r c n f. h_state h = Unfulfilled r c n f
         \<and> state = Unfulfilled r c (fst (tally n (ea_outcome a) (h_now h)))
             (snd (tally n (ea_outcome a) (h_now h))))"

definition ensure_inv :: "ensure_spec \<Rightarrow> ensure_state \<Rightarrow> bool" where
  "ensure_inv spec s \<longleftrightarrow>
    bs_inv (ensure_recorded s) \<and> bs_inv (ensure_created s)
    \<and> set (ensure_created s) \<subseteq> set (ensure_recorded s)
    \<and> tally_inv (ensure_failures s) (ensure_last_failure s)
    \<and> (\<forall>g. ensure_bound s = Some g \<longrightarrow> g \<in> set (ensure_recorded s))
    \<and> (ensure_label_of s = HeldL \<longrightarrow>
        tally_exhausted (en_policy spec) (ensure_failures s) (ensure_last_failure s))"

text \<open>What no later step undoes.\<close>

definition ensure_advances :: "ensure_spec \<Rightarrow> ensure_state \<Rightarrow> ensure_spec \<Rightarrow> ensure_state \<Rightarrow> bool" where
  "ensure_advances sp s sp' s' \<longleftrightarrow>
    sp' = sp \<and> set (ensure_recorded s) \<subseteq> set (ensure_recorded s')
    \<and> set (ensure_created s) \<subseteq> set (ensure_created s')
    \<and> (ensure_label_of s = RetiredL \<longrightarrow> s' = s)"

section \<open>Lemmas\<close>

lemmas ensure_edge_defs = record_edge_def create_edge_def bind_edge_def unbind_edge_def
  ensure_attempted_edge_def hold_edge_def resume_edge_def retire_edge_def

lemmas ensure_work_defs = work_of_def unfulfilled_def fulfilled_def held_def retired_def

lemmas ensure_effect_defs = record_fulfiller_def create_def bind_fulfiller_def effect_unbind_def
  ensure_attempted_def effect_hold_def resume_def effect_retire_def ensure_work_defs

lemmas ensure_project_defs = project_record_def project_create_def project_bind_def project_unbind_def
  project_hold_def project_resume_def project_retire_def project_ensure_attempted_def

lemmas ensure_gate_defs = gate_create_def gate_bind_def gate_unbind_def gate_resume_def gate_retire_def
  handle_read_eq Let_def

lemma ensure_kinds:
  "d_kind record_edge = RecordK" "d_kind create_edge = CreateK" "d_kind bind_edge = BindK"
  "d_kind unbind_edge = UnbindK" "d_kind ensure_attempted_edge = Ensure_AttemptedK"
  "d_kind hold_edge = HoldK" "d_kind resume_edge = ResumeK" "d_kind retire_edge = RetireK"
  by (simp_all add: ensure_edge_defs edge_builder_defs)

lemma ensure_definition_eq:
  "ensure_definition =
    \<lparr>md_initial = UnfulfilledL,
     md_edges = [record_edge, create_edge, bind_edge, unbind_edge, ensure_attempted_edge, hold_edge,
       resume_edge, retire_edge],
     md_ends = [(RetiredL, ''the ensure is retired'')],
     md_by_kind = [(RetireK, 7), (ResumeK, 6), (HoldK, 5), (Ensure_AttemptedK, 4), (UnbindK, 3),
       (BindK, 2), (CreateK, 1), (RecordK, 0)]\<rparr>"
  by (simp add: ensure_definition_def machine_builder_defs ensure_kinds)

lemma ensure_find:
  "find_edge ensure_definition RecordK = Some record_edge"
  "find_edge ensure_definition CreateK = Some create_edge"
  "find_edge ensure_definition BindK = Some bind_edge"
  "find_edge ensure_definition UnbindK = Some unbind_edge"
  "find_edge ensure_definition Ensure_AttemptedK = Some ensure_attempted_edge"
  "find_edge ensure_definition HoldK = Some hold_edge"
  "find_edge ensure_definition ResumeK = Some resume_edge"
  "find_edge ensure_definition RetireK = Some retire_edge"
  by (simp_all add: find_edge_def ensure_definition_eq eval_nat_numeral)

lemma ensure_ends:
  "end_reason ensure_definition UnfulfilledL = None"
  "end_reason ensure_definition FulfilledL = None"
  "end_reason ensure_definition HeldL = None"
  "end_reason ensure_definition RetiredL = Some ''the ensure is retired''"
  by (simp_all add: ensure_definition_eq end_reason_def)

lemma ensure_machine_simps [simp]:
  "m_definition ensure_machine = ensure_definition"
  "m_label ensure_machine = ensure_label_of"
  "m_data ensure_machine = ensure_data"
  "m_kind ensure_machine = ensure_kind_of"
  "m_ended ensure_machine l r = Ensure_Ended r"
  "m_wrong_state ensure_machine l kd = Ensure_WrongState"
  "m_write_apply ensure_machine w v spec = Inr spec"
  "m_admit ensure_machine a spec = ensure_admit a spec"
  by (simp_all add: ensure_machine_def)

lemma any_live_eq: "fst (any_live fs h) \<longleftrightarrow> (\<exists>g\<in>set fs. is_live (look Fulfiller g h))"
  by (induction fs arbitrary: h) (simp_all add: handle_read_eq)

lemma any_live_view [simp]: "same_view h (snd (any_live fs h))"
proof (induction fs arbitrary: h)
  case (Cons g fs)
  have "same_view h (snd (any_live fs (handle_record r h)))" for r
    using same_view_trans [OF same_view_record [OF same_view_refl] Cons.IH] .
  then show ?case
    by (simp add: handle_read_eq)
qed simp

lemma ensure_gates_view:
  "same_view h (snd (gate_create h g))"
  "same_view h (snd (gate_bind h g))"
  "same_view h (snd (gate_unbind h u))"
  "same_view h (snd (gate_hold h ()))"
  "same_view h (snd (gate_resume h p))"
  "same_view h (snd (gate_retire h q))"
  by (simp_all add: ensure_gate_defs gate_hold_def split_beta)

lemma gate_create_evidence:
  "is_ok (fst (gate_create h g)) \<longleftrightarrow> g \<in> set (ensure_recorded (h_state h))
    \<and> (\<forall>g'\<in>set (ensure_recorded (h_state h)). \<not> is_live (look Fulfiller g' h)) \<and> look Fulfiller g h = None"
  using any_live_eq [of "ensure_recorded (h_state h)" h]
  by (auto simp: ensure_gate_defs split_beta same_view_look [OF any_live_view])

lemma gate_bind_evidence:
  "is_ok (fst (gate_bind h g)) \<longleftrightarrow> g \<in> set (ensure_recorded (h_state h))
    \<and> look Fulfiller g h = Some \<lparr>fs_phase = Ph_Realised, fs_can_receive = True\<rparr>
    \<and> look Drain (en_inbox (h_spec h)) h = Some True"
  by (cases "look Fulfiller g h") (auto simp: ensure_gate_defs)

lemma fulfiller_phase_iff: "(\<exists>receives. s = \<lparr>fs_phase = p, fs_can_receive = receives\<rparr>) \<longleftrightarrow> fs_phase s = p"
  by (cases s) auto

lemma gate_unbind_evidence:
  "is_ok (fst (gate_unbind h u)) \<longleftrightarrow> ensure_bound (h_state h) = Some (ub_fulfiller u)
    \<and> (\<exists>receives. look Fulfiller (ub_fulfiller u) h = Some \<lparr>fs_phase = Ph_Gone, fs_can_receive = receives\<rparr>)"
  by (cases "look Fulfiller (ub_fulfiller u) h") (auto simp: ensure_gate_defs fulfiller_phase_iff)

lemma ensure_gates_evidence:
  "is_ok (fst (gate_hold h v)) \<longleftrightarrow>
    tally_exhausted (en_policy (h_spec h)) (ensure_failures (h_state h)) (ensure_last_failure (h_state h))"
  "is_ok (fst (gate_resume h p)) \<longleftrightarrow> look Ensure_Authority (rm_authority p) h = Some True"
  "is_ok (fst (gate_retire h q)) \<longleftrightarrow> look Ensure_Authority (re_authority q) h = Some True
    \<and> look Ensure_Teardown (re_teardown q) h = Some True"
  by (auto simp: ensure_gate_defs gate_hold_def split_beta retry_exhausted)

lemma ensure_changed:
  "set (changed (ensure_data (Unfulfilled r c n f)) (ensure_data (Unfulfilled r' c n f))) \<subseteq> {''recorded''}"
  "set (changed (ensure_data (Unfulfilled r c n f)) (ensure_data (Unfulfilled r c' n f))) \<subseteq> {''created''}"
  "set (changed (ensure_data (Unfulfilled r c n f)) (ensure_data (Unfulfilled r c n' f')))
    \<subseteq> {''failures'', ''last_failure''}"
  "set (changed (ensure_data (Held r c n f)) (ensure_data (Unfulfilled r c n' f')))
    \<subseteq> {''failures'', ''last_failure''}"
  "set (changed (ensure_data (Unfulfilled r c n f)) (ensure_data (Fulfilled r c n f b))) \<subseteq> {''bound''}"
  by (simp_all add: changed_subset)

lemma changed_none: "changed before after = [] \<longleftrightarrow> list_all (\<lambda>nv. nv \<in> set before) after"
  using changed_subset [of before after "{}"] by simp

lemma ensure_unchanged:
  "changed (ensure_data (Fulfilled r c n f b)) (ensure_data (Unfulfilled r c n f)) = []"
  "changed (ensure_data (Unfulfilled r c n f)) (ensure_data (Held r c n f)) = []"
  "changed (ensure_data (Unfulfilled r c n f)) (ensure_data (Ensure_Retired r c n f)) = []"
  "changed (ensure_data (Fulfilled r c n f b)) (ensure_data (Ensure_Retired r c n f)) = []"
  "changed (ensure_data (Held r c n f)) (ensure_data (Ensure_Retired r c n f)) = []"
  by (simp_all add: changed_none)

lemmas ensure_step_simps = ensure_find ensure_ends ensure_edge_defs edge_builder_defs ensure_project_defs
  ensure_changed ensure_unchanged ensure_gates_view ensure_effect_defs

lemma ensure_from:
  "d_from record_edge = [UnfulfilledL]" "d_from create_edge = [UnfulfilledL]"
  "d_from bind_edge = [UnfulfilledL]" "d_from unbind_edge = [FulfilledL]"
  "d_from ensure_attempted_edge = [UnfulfilledL]" "d_from hold_edge = [UnfulfilledL]"
  "d_from resume_edge = [HeldL]" "d_from retire_edge = [UnfulfilledL, FulfilledL, HeldL]"
  by (simp_all add: ensure_edge_defs edge_builder_defs)

lemma ensure_step_unfulfilled:
  assumes "h_state h = Unfulfilled r c n f"
  shows "step ensure_machine (Record g) h = (Inr (Unfulfilled (bs_insert g r) c n f), h)"
    and "step ensure_machine (Ensure_Attempted a) h
      = (Inr (Unfulfilled r c (fst (tally n (ea_outcome a) (h_now h))) (snd (tally n (ea_outcome a) (h_now h)))), h)"
    and "step ensure_machine (Create g) h = gated (gate_create h g) (\<lambda>h. (Unfulfilled r (bs_insert g c) n f, h))"
    and "step ensure_machine (Bind g) h = gated (gate_bind h g) (\<lambda>h. (Fulfilled r c n f g, h))"
    and "step ensure_machine Hold h = gated (gate_hold h ()) (\<lambda>h. (Held r c n f, h))"
  subgoal
    using assms by (subst step_of_ungated [where d = record_edge and p = project_record
          and eff = record_fulfiller and arg = g])
      (simp_all add: ensure_step_simps del: ensure_data.simps)
  subgoal
    using assms by (subst step_of_ungated [where d = ensure_attempted_edge and p = project_ensure_attempted
          and eff = ensure_attempted and arg = a])
      (simp_all add: ensure_step_simps split_beta del: ensure_data.simps)
  subgoal
    using assms by (subst step_of_gated [where d = create_edge and p = project_create
          and gate = gate_create and eff = create and arg = g])
      (simp_all add: ensure_step_simps del: ensure_data.simps)
  subgoal
    using assms by (subst step_of_gated [where d = bind_edge and p = project_bind
          and gate = gate_bind and eff = bind_fulfiller and arg = g])
      (simp_all add: ensure_step_simps del: ensure_data.simps)
  subgoal
    using assms by (subst step_of_gated [where d = hold_edge and p = project_hold
          and gate = gate_hold and eff = effect_hold and arg = "()"])
      (simp_all add: ensure_step_simps del: ensure_data.simps)
  done

lemma ensure_step_leave:
  shows "h_state h = Fulfilled r c n f b \<Longrightarrow>
      step ensure_machine (Unbind u) h = gated (gate_unbind h u) (\<lambda>h. (Unfulfilled r c n f, h))"
    and "h_state h = Held r c n f \<Longrightarrow>
      step ensure_machine (Resume p) h = gated (gate_resume h p) (\<lambda>h. (Unfulfilled r c 0 None, h))"
  subgoal
    by (subst step_of_gated [where d = unbind_edge and p = project_unbind
          and gate = gate_unbind and eff = effect_unbind and arg = u])
      (simp_all add: ensure_step_simps del: ensure_data.simps)
  subgoal
    by (subst step_of_gated [where d = resume_edge and p = project_resume
          and gate = gate_resume and eff = resume and arg = p])
      (simp_all add: ensure_step_simps del: ensure_data.simps)
  done

lemma ensure_step_retire:
  assumes "ensure_label_of (h_state h) \<noteq> RetiredL"
  shows "step ensure_machine (Retire q) h
    = gated (gate_retire h q) (\<lambda>h'. (retired (work_of (h_state h)), h'))"
  using assms
  by (cases "h_state h";
      subst step_of_gated [where d = retire_edge and p = project_retire
          and gate = gate_retire and eff = effect_retire and arg = q])
    (simp_all add: ensure_step_simps del: ensure_data.simps)

lemma ensure_step_retired:
  assumes "ensure_label_of (h_state h) = RetiredL"
  shows "step ensure_machine e h = (Inl (Refused (Ensure_Ended ''the ensure is retired'')), h)"
  using assms by (simp add: step_ended [where reason = "''the ensure is retired''"] ensure_ends)

lemma ensure_step_wrong:
  assumes "ensure_label_of (h_state h) \<noteq> RetiredL"
    and "find_edge ensure_definition k = Some d" "ensure_kind_of e = k" "ensure_label_of (h_state h) \<notin> set (d_from d)"
  shows "step ensure_machine e h = (Inl (Refused Ensure_WrongState), h)"
  using assms by (subst step_wrong_state [where d = d]) (cases "h_state h"; simp add: ensure_ends)+

lemmas ensure_wrong = ensure_step_wrong [OF _ ensure_find(1)] ensure_step_wrong [OF _ ensure_find(2)]
  ensure_step_wrong [OF _ ensure_find(3)] ensure_step_wrong [OF _ ensure_find(4)]
  ensure_step_wrong [OF _ ensure_find(5)] ensure_step_wrong [OF _ ensure_find(6)]
  ensure_step_wrong [OF _ ensure_find(7)] ensure_from

lemma ensure_step_accepts:
  "fst (step ensure_machine e h) = Inr state \<longleftrightarrow> ensure_accepts h e state"
proof -
  have gated: "fst (gated g (\<lambda>h. (s, h))) = Inr state \<longleftrightarrow> is_ok (fst g) \<and> state = s" for g :: ensure_gate and s
    by (auto simp: fst_gated is_ok_iff split: sum.splits)
  note taken = ensure_step_unfulfilled ensure_step_leave ensure_step_retire ensure_step_retired gated
    gate_create_evidence gate_bind_evidence gate_unbind_evidence ensure_gates_evidence
  show ?thesis
  proof (cases "h_state h")
    case (Unfulfilled r c n f)
    then show ?thesis
      by (cases e) (auto simp: taken ensure_wrong ensure_accepts_def)
  next
    case (Fulfilled r c n f b)
    then show ?thesis
      by (cases e) (auto simp: taken ensure_wrong ensure_accepts_def)
  next
    case (Held r c n f)
    then show ?thesis
      by (cases e) (auto simp: taken ensure_wrong ensure_accepts_def)
  next
    case (Ensure_Retired r c n f)
    then show ?thesis
      by (cases e) (auto simp: taken ensure_accepts_def)
  qed
qed

lemma ensure_step_no_fault: "fst (step ensure_machine e h) \<noteq> Inl (Fault f)"
proof (cases "h_state h")
  case Unfulfilled
  then show ?thesis
    by (cases e) (simp_all add: ensure_step_unfulfilled ensure_step_retire ensure_wrong)
next
  case Fulfilled
  then show ?thesis
    by (cases e) (simp_all add: ensure_step_leave ensure_step_retire ensure_wrong)
next
  case Held
  then show ?thesis
    by (cases e) (simp_all add: ensure_step_leave ensure_step_retire ensure_wrong)
next
  case Ensure_Retired
  then show ?thesis
    by (simp add: ensure_step_retired)
qed

lemma ensure_accepts_inv:
  assumes "ensure_accepts h e s" and "ensure_inv (h_spec h) (h_state h)"
  shows "ensure_inv (h_spec h) s"
  using assms tally_inv_tally
  by (cases "h_state h"; cases e) (auto simp: ensure_accepts_def ensure_inv_def ensure_work_defs)

lemma ensure_accepts_advances:
  assumes "ensure_accepts h e s"
  shows "ensure_advances (h_spec h) (h_state h) (h_spec h) s"
  using assms by (cases "h_state h"; cases e) (auto simp: ensure_accepts_def ensure_advances_def ensure_work_defs)

interpretation ensures: machine_progress ensure_machine ensure_inv ensure_advances
proof (unfold_locales, goal_cases)
  case (1 a request spec state a')
  then show ?case
    by (auto simp: ensure_admit_def ensure_inv_def ensure_work_defs)
next
  case (2 h edge state' h' v)
  then have "ensure_accepts h edge state'"
    using ensure_step_accepts [of edge h state'] by simp
  with 2 show ?case
    by (simp add: apply_writes_ignored ensure_accepts_inv)
next
  case (3 sp s)
  then show ?case
    by (simp add: ensure_advances_def)
next
  case (4 sp s sp' s' sp'' s'')
  then show ?case
    by (auto simp: ensure_advances_def)
next
  case (5 h edge state' h' v)
  then have "ensure_accepts h edge state'"
    using ensure_step_accepts [of edge h state'] by simp
  then show ?case
    by (simp add: apply_writes_ignored ensure_accepts_advances)
qed

section \<open>Properties\<close>

text \<open>
  C10: An Ensure's step never faults, and is accepted exactly on its evidence: any fulfiller may be
  recorded while Unfulfilled; one is created only when it is recorded, does not exist and no
  recorded one is live; bound only when it is recorded, realised and can receive, and the inbox has
  drained; unbound only when it is the bound one and observed gone; held exactly when the window of
  attempts is spent; resumed with an empty window, and retired after its teardown, on authority.
\<close>

theorem ensure_step_exact:
  "(fst (step ensure_machine e h) = Inr state \<longleftrightarrow> ensure_accepts h e state)
    \<and> fst (step ensure_machine e h) \<noteq> Inl (Fault fault)"
  using ensure_step_accepts ensure_step_no_fault by blast

text \<open>
  C9: An Ensure at a home creates and binds only fulfillers it recorded first. From a fresh home over
  any creates, edges and evictions, the created fulfillers of every Ensure and its bound one are among the
  recorded, its tally is well formed, and a Held one has a spent window under its policy; and over any
  later writes its spec stays, no recorded or created fulfiller is forgotten, and a Retired one stays as it is.
\<close>

theorem ensure_home_records_first:
  assumes "home_with_log ensure_machine writer lg = Inr start" and "log_keeps L"
    and "home_run ensure_machine L start home" and "home_writes ensure_machine L home home'"
    and "bm_get (hm_resources home) name = Some r"
  shows "ensure_inv (res_spec r) (st_value (res_state r))
    \<and> (\<exists>r'. bm_get (hm_resources home') name = Some r'
        \<and> ensure_advances (res_spec r) (st_value (res_state r)) (res_spec r') (st_value (res_state r')))"
proof -
  have all: "home_all ensure_inv home"
    by (rule ensures.all_run [OF assms(3,2) home_all_fresh [OF assms(1)]])
  then have "(name, r) \<in> set (hm_resources home)"
    using assms(5) by (simp add: home_all_def bm_get_in_set)
  with all have "ensure_inv (res_spec r) (st_value (res_state r))"
    by (auto simp: home_all_def)
  with ensures.progress_writes [OF assms(4,2) all assms(5)] show ?thesis
    by blast
qed

section \<open>Witnesses\<close>

definition demo_ensure_spec :: ensure_spec where
  "demo_ensure_spec = \<lparr>en_inbox = ''inbox'', en_policy = immediate 3\<rparr>"

definition demo_ensure_world :: "(string \<Rightarrow> (version \<times> fulfiller_status) option) \<Rightarrow> ensure_world" where
  "demo_ensure_world fulfillers =
    \<lparr>w_fulfiller = fulfillers, w_drain = (\<lambda>n. if n = ''inbox'' then Some (1, True) else None),
     w_ensure_authority = (\<lambda>_. Some (1, True)), w_ensure_teardown = (\<lambda>_. Some (1, True))\<rparr>"

definition demo_ensures_start ::
  "(ensure_spec, ensure_state, (ensure_label, ensure_edge_kind, ensure_edge) memory_log) home" where
  "demo_ensures_start = \<lparr>hm_writer = ''home'', hm_resources = [], hm_log = memory_log_new\<rparr>"

definition demo_ensure_edge where
  "demo_ensure_edge e fulfillers now home =
    snd (home_apply ensure_machine memory_log_ops ''e1'' e (demo_ensure_world fulfillers) now home)"

definition demo_ensure_bound where
  "demo_ensure_bound =
    demo_ensure_edge (Bind ''f1'') (\<lambda>n. if n = ''f1'' then Some (2, \<lparr>fs_phase = Ph_Realised, fs_can_receive = True\<rparr>) else None) 4
      (demo_ensure_edge (Create ''f1'') (\<lambda>_. None) 3
        (demo_ensure_edge (Record ''f1'') (\<lambda>_. None) 2
          (snd (home_create ensure_machine memory_log_ops ''e1'' demo_ensure_spec
            (demo_ensure_world (\<lambda>_. None)) 1 demo_ensures_start))))"

definition demo_ensure_retired where
  "demo_ensure_retired =
    demo_ensure_edge (Retire \<lparr>re_by = ''kim'', re_authority = ''a1'', re_teardown = ''t1''\<rparr>) (\<lambda>_. None) 5 demo_ensure_bound"

theorem ensure_home_records_first_witness:
  "\<exists>r'. bm_get (hm_resources demo_ensure_retired) ''e1'' = Some r'
    \<and> {''f1''} \<subseteq> set (ensure_created (st_value (res_state r')))"
proof -
  have "map_option (\<lambda>r. st_value (res_state r)) (bm_get (hm_resources demo_ensure_bound) ''e1'')
      = Some (Fulfilled [''f1''] [''f1''] 0 None ''f1'')"
    by code_simp
  then obtain r where r: "bm_get (hm_resources demo_ensure_bound) ''e1'' = Some r"
    "st_value (res_state r) = Fulfilled [''f1''] [''f1''] 0 None ''f1''"
    by auto
  have "validate ensure_machine = Inr ()"
    by code_simp
  then have fresh: "home_with_log ensure_machine ''home'' memory_log_new = Inr demo_ensures_start"
    by (simp add: home_with_log_def demo_ensures_start_def)
  have run: "home_run ensure_machine memory_log_ops demo_ensures_start demo_ensure_bound"
    unfolding demo_ensure_bound_def demo_ensure_edge_def
    by (rule run_apply, rule run_apply, rule run_apply, rule run_create, rule run_start)
  have writes: "home_writes ensure_machine memory_log_ops demo_ensure_bound demo_ensure_retired"
    unfolding demo_ensure_retired_def demo_ensure_edge_def by (rule writes_apply, rule writes_start)
  from ensure_home_records_first [OF fresh memory_log_keeps run writes r(1)] r(2) show ?thesis
    by (auto simp: ensure_advances_def)
qed

end
