(* ===== verification/Kinds.thy ===== *)
theory Kinds
  imports Convoy_Spec
begin

text \<open>
  Promise kinds, \<open>src/crates/flotilla-state-machines/src/kinds.rs\<close>: the condition vocabulary, the three
  rules of a kind and whether one holds, and the catalogue that composes stock and charter definitions.

  \<open>compose\<close> follows the chain of bases with no bound but its set of visited names, so it is a partial
  function here, and that it returns is proved. What composing keeps (a base's conditions, in their
  order, before the definition's own) gives that an extension only tightens.
\<close>

section \<open>Vocabulary\<close>

datatype kind_observation =
  ChangeRequestState | ChangeRequestChecks | ChangeRequestMergeable | ChangeRequestReview
| ChangeRequestHead | ArtifactExists | ArtifactDigest

datatype literal = OneOf "string list" | Revision

definition REVISION :: string where
  "REVISION = ''revision''"

record vocabulary_term =
  tm_subject :: string
  tm_path :: string
  tm_operators :: "operator list"
  tm_literal :: literal
  tm_observation :: kind_observation

definition EQUALITY :: "operator list" where
  "EQUALITY = [Equal, NotEqual]"

definition VOCABULARY :: "vocabulary_term list" where
  "VOCABULARY =
    [\<lparr>tm_subject = ''cr'', tm_path = ''state'', tm_operators = EQUALITY,
      tm_literal = OneOf [''open'', ''draft'', ''merged'', ''closed''], tm_observation = ChangeRequestState\<rparr>,
     \<lparr>tm_subject = ''cr'', tm_path = ''checks'', tm_operators = EQUALITY,
      tm_literal = OneOf [''pass'', ''fail'', ''pending''], tm_observation = ChangeRequestChecks\<rparr>,
     \<lparr>tm_subject = ''cr'', tm_path = ''mergeable'', tm_operators = EQUALITY,
      tm_literal = OneOf [''true'', ''false''], tm_observation = ChangeRequestMergeable\<rparr>,
     \<lparr>tm_subject = ''cr'', tm_path = ''review'', tm_operators = EQUALITY,
      tm_literal = OneOf [''approved'', ''changes-requested'', ''review-required''],
      tm_observation = ChangeRequestReview\<rparr>,
     \<lparr>tm_subject = ''cr'', tm_path = ''head-sha'', tm_operators = EQUALITY,
      tm_literal = Revision, tm_observation = ChangeRequestHead\<rparr>,
     \<lparr>tm_subject = ''artifact'', tm_path = ''exists'', tm_operators = [Equal],
      tm_literal = OneOf [''true''], tm_observation = ArtifactExists\<rparr>,
     \<lparr>tm_subject = ''artifact'', tm_path = ''digest'', tm_operators = EQUALITY,
      tm_literal = Revision, tm_observation = ArtifactDigest\<rparr>]"

datatype term_error = T_Arguments | T_Unobserved | T_Operator | T_Literal

definition term_of_template :: "template \<Rightarrow> term_error + vocabulary_term" where
  "term_of_template t =
    (if vr_arguments (tp_subject t) \<noteq> [] then Inl T_Arguments
     else case find (\<lambda>tm. tm_subject tm = vr_name (tp_subject t) \<and> tp_path t = [tm_path tm]) VOCABULARY of
       None \<Rightarrow> Inl T_Unobserved
     | Some tm \<Rightarrow>
         if tp_operator t \<notin> set (tm_operators tm) then Inl T_Operator
         else if \<not> (case tm_literal tm of OneOf ws \<Rightarrow> tp_literal t \<in> set ws | Revision \<Rightarrow> tp_literal t = REVISION)
           then Inl T_Literal
         else Inr tm)"

section \<open>Rules\<close>

datatype rule = Rule_Durable | Rule_Ready | Rule_Kept

definition rule_all :: "rule list" where
  "rule_all = [Rule_Durable, Rule_Ready, Rule_Kept]"

fun promise_rule :: "promise_kind \<Rightarrow> rule \<Rightarrow> template list" where
  "promise_rule k Rule_Durable = pk_durable k"
| "promise_rule k Rule_Ready = pk_ready k"
| "promise_rule k Rule_Kept = pk_kept k"

text \<open>\<open>rule_mut(rule).push(template)\<close>.\<close>

fun rule_push :: "rule \<Rightarrow> template \<Rightarrow> promise_kind \<Rightarrow> promise_kind" where
  "rule_push Rule_Durable t k = k\<lparr>pk_durable := pk_durable k @ [t]\<rparr>"
| "rule_push Rule_Ready t k = k\<lparr>pk_ready := pk_ready k @ [t]\<rparr>"
| "rule_push Rule_Kept t k = k\<lparr>pk_kept := pk_kept k @ [t]\<rparr>"

type_synonym observations = "kind_observation \<Rightarrow> address \<Rightarrow> string option"

text \<open>The loop of \<open>holds\<close>: a condition that fails ends it, one that is unobserved leaves it unknown.\<close>

fun holds_from :: "observations \<Rightarrow> address \<Rightarrow> string \<Rightarrow> bool \<Rightarrow> template list \<Rightarrow> bool option" where
  "holds_from obs a revision known [] = (if known then Some True else None)"
| "holds_from obs a revision known (t # ts) =
    (case term_of_template t of
       Inl _ \<Rightarrow> holds_from obs a revision False ts
     | Inr tm \<Rightarrow>
         (let lit = (case tm_literal tm of OneOf _ \<Rightarrow> tp_literal t | Revision \<Rightarrow> revision)
          in case obs (tm_observation tm) a of
               None \<Rightarrow> holds_from obs a revision False ts
             | Some val \<Rightarrow>
                 if (val = lit) \<noteq> (tp_operator t = Equal) then Some False
                 else holds_from obs a revision known ts))"

definition holds :: "promise_kind \<Rightarrow> rule \<Rightarrow> address \<Rightarrow> string \<Rightarrow> observations \<Rightarrow> bool option" where
  "holds k rule a revision obs =
    (let conditions = promise_rule k rule
     in if rule = Rule_Kept \<and> conditions = [] then Some False
        else holds_from obs a revision True conditions)"

section \<open>Definitions of kinds\<close>

record kind_definition =
  kd_name :: string
  kd_extends :: "string option"
  kd_durable :: "template list"
  kd_ready :: "template list"
  kd_kept :: "template list"

fun definition_rule :: "kind_definition \<Rightarrow> rule \<Rightarrow> template list" where
  "definition_rule d Rule_Durable = kd_durable d"
| "definition_rule d Rule_Ready = kd_ready d"
| "definition_rule d Rule_Kept = kd_kept d"

text \<open>\<open>expect\<close>: the stock conditions are canonical, which \<open>stock_canonical\<close> shows.\<close>

definition stock_template :: "json \<Rightarrow> string \<Rightarrow> template" where
  "stock_template json text = projr (template_from_str json text)"

definition stock_artifact :: "json \<Rightarrow> string \<Rightarrow> kind_definition" where
  "stock_artifact json name =
    \<lparr>kd_name = name, kd_extends = None,
     kd_durable = map (stock_template json) [''$artifact .exists == true''], kd_ready = [],
     kd_kept = map (stock_template json) [''$artifact .digest == revision'']\<rparr>"

definition stock_kinds :: "json \<Rightarrow> kind_definition list" where
  "stock_kinds json =
    [\<lparr>kd_name = ''pr'', kd_extends = None,
      kd_durable = map (stock_template json) [''$cr .state != closed''],
      kd_ready = map (stock_template json) [''$cr .state == open'', ''$cr .checks == pass'', ''$cr .mergeable == true''],
      kd_kept = map (stock_template json) [''$cr .state == merged'']\<rparr>,
     stock_artifact json ''decision-ledger'',
     stock_artifact json ''results'']"

datatype kind_error =
  K_InvalidName string
| K_Duplicate string
| K_StockRedeclared string
| K_UnknownBase string string
| K_Cycle string
| K_Unobserved string rule string term_error
| K_MixedSubjects string string "string list"
| K_UnknownKind string
| K_Encode string

type_synonym kind_layer = "(string, kind_definition) btree_map"

definition admit_conditions :: "json \<Rightarrow> kind_definition \<Rightarrow> kind_error + unit" where
  "admit_conditions json d =
    try_fold (\<lambda>rule _. try_fold (\<lambda>t _. case term_of_template t of
        Inl e \<Rightarrow> Inl (K_Unobserved (kd_name d) rule (template_print json t) e)
      | Inr _ \<Rightarrow> Inr ()) (definition_rule d rule) ()) rule_all ()"

definition layer_add :: "json \<Rightarrow> kind_definition \<Rightarrow> kind_layer \<Rightarrow> kind_error + kind_layer" where
  "layer_add json d layer =
    (if \<not> is_ok (variable_new (kd_name d) []) \<or> CHR ''_'' \<in> set (kd_name d) then Inl (K_InvalidName (kd_name d))
     else case admit_conditions json d of
       Inl e \<Rightarrow> Inl e
     | Inr _ \<Rightarrow>
         if bm_get layer (kd_name d) \<noteq> None then Inl (K_Duplicate (kd_name d))
         else Inr (bm_insert (kd_name d) d layer))"

definition layer_of :: "json \<Rightarrow> kind_definition list \<Rightarrow> kind_error + kind_layer" where
  "layer_of json definitions = try_fold (layer_add json) definitions []"

definition top_error :: "kind_error \<Rightarrow> string \<Rightarrow> kind_error" where
  "top_error error name =
    (case error of K_MixedSubjects _ extension subjects \<Rightarrow> K_MixedSubjects name extension subjects | e \<Rightarrow> e)"

section \<open>Composition\<close>

text \<open>The base a definition extends, and the charter kinds its own base is looked up in.\<close>

definition compose_base ::
  "string \<Rightarrow> string \<Rightarrow> kind_layer \<Rightarrow> kind_layer \<Rightarrow> (kind_definition \<times> kind_layer) option" where
  "compose_base name extends stock declared =
    (let from_stock = (case bm_get stock extends of
           Some found \<Rightarrow> if extends \<noteq> name \<or> bm_contains declared name then Some (found, []) else None
         | None \<Rightarrow> None)
     in case bm_get declared extends of
          Some found \<Rightarrow> if extends \<noteq> name then Some (found, declared) else from_stock
        | None \<Rightarrow> from_stock)"

definition rule_add :: "rule \<Rightarrow> template \<Rightarrow> promise_kind \<Rightarrow> promise_kind" where
  "rule_add rule t k = (if t \<in> set (promise_rule k rule) then k else rule_push rule t k)"

definition kind_subjects :: "promise_kind \<Rightarrow> string btree_set" where
  "kind_subjects k = bs_of_list (concat (map (\<lambda>rule. map (\<lambda>t. vr_name (tp_subject t)) (promise_rule k rule)) rule_all))"

text \<open>A base's rules, then the definition's own.\<close>

definition compose_own :: "string \<Rightarrow> kind_definition \<Rightarrow> promise_kind \<Rightarrow> kind_error + promise_kind" where
  "compose_own name d inherited =
    (let k = fold (\<lambda>rule k. fold (rule_add rule) (definition_rule d rule) k) rule_all inherited;
         subjects = kind_subjects k
     in if length subjects > 1 then Inl (K_MixedSubjects name name subjects) else Inr k)"

definition kind_default :: promise_kind where
  "kind_default = \<lparr>pk_durable = [], pk_ready = [], pk_kept = []\<rparr>"

partial_function (option) compose ::
  "string \<Rightarrow> kind_definition \<Rightarrow> kind_layer \<Rightarrow> kind_layer \<Rightarrow> string btree_set \<Rightarrow> (kind_error + promise_kind) option" where
  "compose name d stock declared visiting =
    (case kd_extends d of
       None \<Rightarrow> Some (compose_own name d kind_default)
     | Some extends \<Rightarrow>
         if name \<in> set visiting then Some (Inl (K_Cycle name))
         else (case compose_base name extends stock declared of
             None \<Rightarrow> Some (Inl (K_UnknownBase name extends))
           | Some (found, below) \<Rightarrow>
               Option.bind (compose extends found stock below (bs_insert name visiting))
                 (\<lambda>r. Some (case r of Inl e \<Rightarrow> Inl e | Inr inherited \<Rightarrow> compose_own name d inherited))))"

declare compose.simps [code]

section \<open>The catalogue\<close>

type_synonym catalog = "(string, promise_kind) btree_map"

fun resolve_stock :: "kind_layer \<Rightarrow> kind_layer \<Rightarrow> catalog \<Rightarrow> (kind_error + catalog) option" where
  "resolve_stock stock [] kinds = Some (Inr kinds)"
| "resolve_stock stock ((name, d) # rest) kinds =
    Option.bind (compose name d stock [] [])
      (\<lambda>r. case r of Inl e \<Rightarrow> Some (Inl (top_error e name))
         | Inr k \<Rightarrow> resolve_stock stock rest (bm_insert name k kinds))"

fun resolve_declared ::
  "kind_layer \<Rightarrow> kind_layer \<Rightarrow> kind_layer \<Rightarrow> catalog \<Rightarrow> (kind_error + catalog) option" where
  "resolve_declared stock declared [] kinds = Some (Inr kinds)"
| "resolve_declared stock declared ((name, d) # rest) kinds =
    (if bm_contains stock name \<and> kd_extends d \<noteq> Some name then Some (Inl (K_StockRedeclared name))
     else Option.bind (compose name d stock declared [])
       (\<lambda>r. case r of Inl e \<Rightarrow> Some (Inl (top_error e name))
          | Inr k \<Rightarrow> resolve_declared stock declared rest (bm_insert name k kinds)))"

definition catalog_resolve ::
  "json \<Rightarrow> kind_definition list \<Rightarrow> kind_definition list \<Rightarrow> (kind_error + catalog) option" where
  "catalog_resolve json stock_defs declared_defs =
    (case layer_of json stock_defs of
       Inl e \<Rightarrow> Some (Inl e)
     | Inr stock \<Rightarrow> (case layer_of json declared_defs of
         Inl e \<Rightarrow> Some (Inl e)
       | Inr declared \<Rightarrow>
           Option.bind (resolve_stock stock stock [])
             (\<lambda>r. case r of Inl e \<Rightarrow> Some (Inl e) | Inr kinds \<Rightarrow> resolve_declared stock declared declared kinds)))"

definition catalog_get :: "catalog \<Rightarrow> string \<Rightarrow> promise_kind option" where
  "catalog_get cat name = bm_get cat name"

definition catalog_names :: "catalog \<Rightarrow> string list" where
  "catalog_names cat = map fst cat"

definition catalog_retired :: "promise_kinds \<Rightarrow> (string \<times> rule \<times> template) list" where
  "catalog_retired kinds =
    concat (map (\<lambda>(name, k). concat (map (\<lambda>rule.
      map (\<lambda>t. (name, rule, t)) (filter (\<lambda>t. \<not> is_ok (term_of_template t)) (promise_rule k rule))) rule_all)) kinds)"

text \<open>\<open>frozen\<close> is \<open>Frozen::new\<close>, whose CBOR encoding may fail with a message.\<close>

definition catalog_freeze ::
  "(promise_kinds \<Rightarrow> string + 'f) \<Rightarrow> catalog \<Rightarrow> string list \<Rightarrow> kind_error + 'f" where
  "catalog_freeze frozen cat used =
    (case try_fold (\<lambda>name kinds. case bm_get cat name of
          None \<Rightarrow> Inl (K_UnknownKind name)
        | Some k \<Rightarrow> Inr (bm_insert name k kinds)) used [] of
       Inl e \<Rightarrow> Inl e
     | Inr kinds \<Rightarrow> (case frozen kinds of Inl message \<Rightarrow> Inl (K_Encode message) | Inr f \<Rightarrow> Inr f))"

section \<open>Lemmas\<close>

subsection \<open>Rules as conjunctions\<close>

text \<open>What one condition says: nothing while its observation is missing or its term is not admitted.\<close>

definition condition_verdict :: "observations \<Rightarrow> address \<Rightarrow> string \<Rightarrow> template \<Rightarrow> bool option" where
  "condition_verdict obs a revision t =
    (case term_of_template t of
       Inl _ \<Rightarrow> None
     | Inr tm \<Rightarrow> map_option (\<lambda>val. (val = (case tm_literal tm of OneOf _ \<Rightarrow> tp_literal t | Revision \<Rightarrow> revision))
         = (tp_operator t = Equal)) (obs (tm_observation tm) a))"

lemma holds_from_eq:
  "holds_from obs a revision known ts =
    (if Some False \<in> set (map (condition_verdict obs a revision) ts) then Some False
     else if known \<and> None \<notin> set (map (condition_verdict obs a revision) ts) then Some True else None)"
  by (induction ts arbitrary: known)
    (auto simp: condition_verdict_def Let_def split: sum.splits option.splits)

lemma holds_eq:
  "holds k rule a revision obs =
    (if rule = Rule_Kept \<and> promise_rule k rule = [] \<or> Some False \<in> set (map (condition_verdict obs a revision) (promise_rule k rule))
     then Some False
     else if None \<in> set (map (condition_verdict obs a revision) (promise_rule k rule)) then None else Some True)"
  unfolding holds_def holds_from_eq Let_def by (auto simp del: promise_rule.simps)

lemma holds_antimono:
  assumes "set (promise_rule k rule) \<subseteq> set (promise_rule k' rule)" "rule = Rule_Kept \<longrightarrow> promise_rule k rule \<noteq> []"
  shows "(holds k' rule a revision obs = Some True \<longrightarrow> holds k rule a revision obs = Some True)
    \<and> (holds k rule a revision obs = Some False \<longrightarrow> holds k' rule a revision obs = Some False)"
  using assms unfolding holds_eq by (auto split: if_splits)

subsection \<open>Composition\<close>

text \<open>The names a composition may still visit: each turn takes one away.\<close>

definition unvisited :: "string \<Rightarrow> kind_layer \<Rightarrow> kind_layer \<Rightarrow> string btree_set \<Rightarrow> string set" where
  "unvisited name stock declared visiting = insert name (fst ` set stock \<union> fst ` set declared) - set visiting"

lemma compose_base_in:
  assumes "compose_base name extends stock declared = Some (found, below)"
  shows "extends \<in> fst ` set stock \<union> fst ` set declared" "fst ` set below \<subseteq> fst ` set declared"
proof -
  have "bm_get m extends = Some found \<Longrightarrow> extends \<in> fst ` set m" for m :: kind_layer
    by (force dest: map_of_SomeD)
  then show "extends \<in> fst ` set stock \<union> fst ` set declared"
    using assms by (auto simp: compose_base_def Let_def split: option.splits if_splits)
  show "fst ` set below \<subseteq> fst ` set declared"
    using assms by (auto simp: compose_base_def Let_def split: option.splits if_splits)
qed

lemma unvisited_less:
  assumes "compose_base name extends stock declared = Some (found, below)" "name \<notin> set visiting"
  shows "card (unvisited extends stock below (bs_insert name visiting)) < card (unvisited name stock declared visiting)"
proof (rule psubset_card_mono)
  show "finite (unvisited name stock declared visiting)"
    by (simp add: unvisited_def)
  show "unvisited extends stock below (bs_insert name visiting) \<subset> unvisited name stock declared visiting"
    using compose_base_in [OF assms(1)] assms(2) by (auto simp: unvisited_def)
qed

lemma compose_induct [case_names step]:
  assumes "\<And>name d stock declared visiting.
    (\<And>extends found below. kd_extends d = Some extends \<Longrightarrow> name \<notin> set visiting \<Longrightarrow>
       compose_base name extends stock declared = Some (found, below) \<Longrightarrow>
       P extends found stock below (bs_insert name visiting)) \<Longrightarrow> P name d stock declared visiting"
  shows "P name d stock declared visiting"
proof (induction "card (unvisited name stock declared visiting)" arbitrary: name d declared visiting rule: less_induct)
  case less
  show ?case
  proof (rule assms)
    fix extends found below
    assume "name \<notin> set visiting" "compose_base name extends stock declared = Some (found, below)"
    then show "P extends found stock below (bs_insert name visiting)"
      by (intro less unvisited_less)
  qed
qed

lemma compose_returns: "\<exists>r. compose name d stock declared visiting = Some r"
proof (induction name d stock declared visiting rule: compose_induct)
  case (step name d stock declared visiting)
  show ?case
  proof (cases "\<exists>extends found below. kd_extends d = Some extends \<and> name \<notin> set visiting
      \<and> compose_base name extends stock declared = Some (found, below)")
    case True
    then obtain extends found below where "kd_extends d = Some extends" "name \<notin> set visiting"
      "compose_base name extends stock declared = Some (found, below)"
      by blast
    moreover from step [OF this] obtain r where "compose extends found stock below (bs_insert name visiting) = Some r"
      by blast
    ultimately show ?thesis
      by (subst compose.simps) simp
  next
    case False
    then show ?thesis
      by (subst compose.simps) (auto split: option.splits)
  qed
qed

lemma resolve_stock_returns: "\<exists>r. resolve_stock stock rest kinds = Some r"
proof (induction rest arbitrary: kinds)
  case (Cons entry rest)
  obtain name d where entry: "entry = (name, d)"
    by (cases entry)
  obtain r where "compose name d stock [] [] = Some r"
    using compose_returns by blast
  with Cons show ?case
    by (cases r) (simp_all add: entry)
qed simp

lemma resolve_declared_returns: "\<exists>r. resolve_declared stock declared rest kinds = Some r"
proof (induction rest arbitrary: kinds)
  case (Cons entry rest)
  obtain name d where entry: "entry = (name, d)"
    by (cases entry)
  obtain r where "compose name d stock declared [] = Some r"
    using compose_returns by blast
  with Cons show ?case
    by (cases r) (simp_all add: entry)
qed simp

lemma rule_add_rule:
  "promise_rule (rule_add r t k) r' =
    (if r' = r \<and> t \<notin> set (promise_rule k r) then promise_rule k r @ [t] else promise_rule k r')"
  by (cases r; cases r') (auto simp: rule_add_def)

lemma fold_rule_add:
  "\<exists>extra. promise_rule (fold (rule_add r) ts k) r' = promise_rule k r' @ extra
    \<and> set (promise_rule k r' @ extra) = set (promise_rule k r') \<union> (if r' = r then set ts else {})"
proof (induction ts arbitrary: k)
  case (Cons t ts)
  from Cons [of "rule_add r t k"] show ?case
    by (auto simp: rule_add_rule split: if_splits)
qed simp

lemma compose_own_rules:
  assumes "compose_own name d k = Inr k'"
  shows "prefix (promise_rule k r) (promise_rule k' r)"
    and "set (promise_rule k' r) = set (promise_rule k r) \<union> set (definition_rule d r)"
    and "length (kind_subjects k') \<le> 1"
proof -
  define add where "add rule k = fold (rule_add rule) (definition_rule d rule) k" for rule k
  have k': "k' = add Rule_Kept (add Rule_Ready (add Rule_Durable k))"
    and subjects: "length (kind_subjects k') \<le> 1"
    using assms by (auto simp: compose_own_def rule_all_def Let_def add_def split: if_splits)
  have add: "prefix (promise_rule k r) (promise_rule (add rule k) r)
      \<and> set (promise_rule (add rule k) r) = set (promise_rule k r) \<union> (if r = rule then set (definition_rule d r) else {})"
    for rule k
    using fold_rule_add [of rule "definition_rule d rule" k r] by (auto simp: add_def)
  show "prefix (promise_rule k r) (promise_rule k' r)"
    unfolding k' using add by (meson prefix_order.trans)
  show "set (promise_rule k' r) = set (promise_rule k r) \<union> set (definition_rule d r)"
    unfolding k' using add by (cases r) auto
  show "length (kind_subjects k') \<le> 1"
    by (rule subjects)
qed

text \<open>A composition that answers \<open>Ok\<close> came from one that did.\<close>

lemma bind_Inr:
  "Option.bind x (\<lambda>r. Some (case r of Inl e \<Rightarrow> Inl e | Inr k \<Rightarrow> g k)) = Some (Inr c) \<longleftrightarrow> (\<exists>k. x = Some (Inr k) \<and> g k = Inr c)"
  "Option.bind x (\<lambda>r. case r of Inl e \<Rightarrow> Some (Inl (f e)) | Inr k \<Rightarrow> h k) = Some (Inr c) \<longleftrightarrow> (\<exists>k. x = Some (Inr k) \<and> h k = Some (Inr c))"
  by (cases x; cases "the x"; simp)+

lemma compose_extendsE:
  assumes "compose name d stock declared visiting = Some (Inr k)" "kd_extends d = Some extends"
  obtains found below inherited where "name \<notin> set visiting" "compose_base name extends stock declared = Some (found, below)"
    "compose extends found stock below (bs_insert name visiting) = Some (Inr inherited)" "compose_own name d inherited = Inr k"
  using assms(1) [unfolded compose.simps [of name d stock declared visiting] assms(2)] that
  by (auto simp: bind_Inr split: if_split_asm option.split_asm)

lemma compose_visiting:
  "compose name d stock declared visiting = Some (Inr k) \<Longrightarrow> set fewer \<subseteq> set visiting \<Longrightarrow>
    compose name d stock declared fewer = Some (Inr k)"
proof (induction name d stock declared visiting arbitrary: k fewer rule: compose_induct)
  case (step name d stock declared visiting)
  show ?case
  proof (cases "kd_extends d")
    case None
    with step.prems(1) show ?thesis
      by (simp add: compose.simps)
  next
    case (Some extends)
    obtain found below inherited where
      new: "name \<notin> set visiting" and found: "compose_base name extends stock declared = Some (found, below)"
      and inner: "compose extends found stock below (bs_insert name visiting) = Some (Inr inherited)"
      and own: "compose_own name d inherited = Inr k"
      using compose_extendsE [OF step.prems(1) Some] .
    have "compose extends found stock below (bs_insert name fewer) = Some (Inr inherited)"
      using step.prems(2) by (intro step.IH [OF Some new found inner]) auto
    with Some new found own step.prems(2) show ?thesis
      by (subst compose.simps) auto
  qed
qed

lemma compose_extends:
  assumes "compose name d stock declared visiting = Some (Inr k)" "kd_extends d = Some extends"
  shows "\<exists>found below inherited. compose_base name extends stock declared = Some (found, below)
    \<and> compose extends found stock below [] = Some (Inr inherited) \<and> compose_own name d inherited = Inr k"
proof -
  obtain found below inherited where "compose_base name extends stock declared = Some (found, below)"
    "compose extends found stock below (bs_insert name visiting) = Some (Inr inherited)" "compose_own name d inherited = Inr k"
    using compose_extendsE [OF assms] .
  then show ?thesis
    using compose_visiting [of extends found stock below _ inherited "[]"] by auto
qed

subsection \<open>Layers and the catalogue\<close>

definition admitted :: "kind_definition \<Rightarrow> bool" where
  "admitted d \<longleftrightarrow> (\<forall>r. \<forall>t\<in>set (definition_rule d r). is_ok (term_of_template t))"

lemma try_fold_unit: "try_fold (\<lambda>x _. f x) xs () = Inr () \<longleftrightarrow> (\<forall>x\<in>set xs. f x = Inr ())"
  by (induction xs) (auto split: sum.splits)

lemma admit_conditions_admitted: "admit_conditions json d = Inr () \<longleftrightarrow> admitted d"
proof -
  have "(case term_of_template t of Inl e \<Rightarrow> Inl (K_Unobserved n r p e) | Inr _ \<Rightarrow> Inr ()) = Inr ()
      \<longleftrightarrow> is_ok (term_of_template t)" for t n r p
    by (cases "term_of_template t") simp_all
  then have "admit_conditions json d = Inr () \<longleftrightarrow> (\<forall>r\<in>set rule_all. \<forall>t\<in>set (definition_rule d r). is_ok (term_of_template t))"
    unfolding admit_conditions_def try_fold_unit by blast
  moreover have "r \<in> set rule_all" for r
    by (cases r) (simp_all add: rule_all_def)
  ultimately show ?thesis
    by (auto simp: admitted_def)
qed

lemma layer_add_Inr:
  "layer_add json d layer = Inr layer' \<longleftrightarrow>
    is_ok (variable_new (kd_name d) []) \<and> CHR ''_'' \<notin> set (kd_name d) \<and> admitted d
    \<and> bm_get layer (kd_name d) = None \<and> layer' = bm_insert (kd_name d) d layer"
  unfolding layer_add_def admit_conditions_admitted [of json, symmetric]
  by (cases "admit_conditions json d") auto

definition layer_inv :: "kind_layer \<Rightarrow> bool" where
  "layer_inv layer \<longleftrightarrow> bm_inv layer \<and> (\<forall>n d. bm_get layer n = Some d \<longrightarrow> kd_name d = n \<and> admitted d)"

lemma layer_from:
  assumes "try_fold (layer_add json) defs layer = Inr layer'" "layer_inv layer"
  shows "layer_inv layer' \<and> (\<forall>d. d \<in> set defs \<or> bm_get layer (kd_name d) = Some d \<longrightarrow> bm_get layer' (kd_name d) = Some d)"
  using assms
proof (induction defs arbitrary: layer)
  case (Cons d defs)
  then obtain middle where "layer_add json d layer = Inr middle" "try_fold (layer_add json) defs middle = Inr layer'"
    by (auto split: sum.splits)
  then have middle: "middle = bm_insert (kd_name d) d layer" "admitted d" "bm_get layer (kd_name d) = None"
    "try_fold (layer_add json) defs middle = Inr layer'"
    by (simp_all add: layer_add_Inr)
  have "layer_inv middle"
    using Cons.prems(2) middle(1,2) by (simp add: layer_inv_def)
  note later = Cons.IH [OF middle(4) this]
  have "bm_get middle (kd_name d') = Some d'" if "d' = d \<or> bm_get layer (kd_name d') = Some d'" for d'
    using that middle(1,3) by (cases "kd_name d' = kd_name d") auto
  with later show ?case
    by auto
qed simp

lemma layer_of_inv:
  assumes "layer_of json defs = Inr layer"
  shows "layer_inv layer" "d \<in> set defs \<Longrightarrow> bm_get layer (kd_name d) = Some d"
  using layer_from [OF assms [unfolded layer_of_def]] by (auto simp: layer_inv_def)

lemma resolve_stock_get:
  assumes "resolve_stock stock rest kinds = Some (Inr cat)" "distinct (map fst rest)"
  shows "(bm_get rest n = None \<longrightarrow> bm_get cat n = bm_get kinds n)
    \<and> (\<forall>d. bm_get rest n = Some d \<longrightarrow> (\<exists>k. compose n d stock [] [] = Some (Inr k) \<and> bm_get cat n = Some k))"
  using assms
proof (induction rest arbitrary: kinds)
  case (Cons entry rest)
  obtain name d where entry: "entry = (name, d)"
    by (cases entry)
  obtain k where k: "compose name d stock [] [] = Some (Inr k)" "resolve_stock stock rest (bm_insert name k kinds) = Some (Inr cat)"
    using Cons.prems(1) by (auto simp: entry bind_Inr)
  have "name \<notin> fst ` set rest"
    using Cons.prems(2) by (simp add: entry)
  then have "bm_get rest name = None"
    by (simp add: map_of_eq_None_iff)
  with Cons.IH [OF k(2)] Cons.prems(2) k(1) show ?case
    by (auto simp: entry)
qed simp

lemma resolve_declared_get:
  assumes "resolve_declared stock declared rest kinds = Some (Inr cat)" "distinct (map fst rest)"
  shows "(bm_get rest n = None \<longrightarrow> bm_get cat n = bm_get kinds n)
    \<and> (\<forall>d. bm_get rest n = Some d \<longrightarrow> (\<exists>k. compose n d stock declared [] = Some (Inr k) \<and> bm_get cat n = Some k))"
  using assms
proof (induction rest arbitrary: kinds)
  case (Cons entry rest)
  obtain name d where entry: "entry = (name, d)"
    by (cases entry)
  obtain k where k: "compose name d stock declared [] = Some (Inr k)"
    "resolve_declared stock declared rest (bm_insert name k kinds) = Some (Inr cat)"
    using Cons.prems(1) by (auto simp: entry bind_Inr split: if_split_asm)
  have "name \<notin> fst ` set rest"
    using Cons.prems(2) by (simp add: entry)
  then have "bm_get rest name = None"
    by (simp add: map_of_eq_None_iff)
  with Cons.IH [OF k(2)] Cons.prems(2) k(1) show ?case
    by (auto simp: entry)
qed simp

text \<open>What a catalogue holds under a name, over its layers.\<close>

definition composed_in :: "kind_layer \<Rightarrow> kind_layer \<Rightarrow> string \<Rightarrow> promise_kind option \<Rightarrow> bool" where
  "composed_in stock declared n entry =
    (case bm_get declared n of
       Some d \<Rightarrow> (\<exists>k. compose n d stock declared [] = Some (Inr k) \<and> entry = Some k)
     | None \<Rightarrow> (case bm_get stock n of
         Some d \<Rightarrow> (\<exists>k. compose n d stock [] [] = Some (Inr k) \<and> entry = Some k)
       | None \<Rightarrow> entry = None))"

lemma catalog_resolve_get:
  assumes "catalog_resolve json stock_defs declared_defs = Some (Inr cat)"
  shows "\<exists>stock declared. layer_of json stock_defs = Inr stock \<and> layer_of json declared_defs = Inr declared
    \<and> (\<forall>n. composed_in stock declared n (bm_get cat n))"
proof -
  obtain stock declared kinds where layers: "layer_of json stock_defs = Inr stock" "layer_of json declared_defs = Inr declared"
    and run: "resolve_stock stock stock [] = Some (Inr kinds)" "resolve_declared stock declared declared kinds = Some (Inr cat)"
    using assms by (auto simp: catalog_resolve_def bind_Inr split: sum.split_asm)
  have "distinct (map fst stock)" "distinct (map fst declared)"
    using layer_of_inv(1) layers by (auto simp: layer_inv_def bm_inv_distinct)
  note got = resolve_declared_get [OF run(2) this(2)] resolve_stock_get [OF run(1) this(1)]
  have "composed_in stock declared n (bm_get cat n)" for n
    using got(1) [of n] got(2) [of n] by (auto simp: composed_in_def split: option.splits)
  with layers show ?thesis
    by blast
qed

lemma compose_admitted:
  assumes "compose name d stock declared visiting = Some (Inr k)" "admitted d"
    and "\<And>n d. bm_get stock n = Some d \<or> bm_get declared n = Some d \<Longrightarrow> admitted d"
  shows "(\<forall>r. \<forall>t\<in>set (promise_rule k r). is_ok (term_of_template t)) \<and> length (kind_subjects k) \<le> 1"
  using assms
proof (induction name d stock declared visiting arbitrary: k rule: compose_induct)
  case (step name d stock declared visiting)
  show ?case
  proof (cases "kd_extends d")
    case None
    then have own: "compose_own name d kind_default = Inr k"
      using step.prems(1) by (simp add: compose.simps)
    have "promise_rule kind_default r = []" for r
      by (cases r) (simp_all add: kind_default_def)
    with compose_own_rules(2,3) [OF own] step.prems(2) show ?thesis
      by (simp add: admitted_def)
  next
    case (Some extends)
    obtain found below inherited where
      new: "name \<notin> set visiting" and found: "compose_base name extends stock declared = Some (found, below)"
      and inner: "compose extends found stock below (bs_insert name visiting) = Some (Inr inherited)"
      and own: "compose_own name d inherited = Inr k"
      using compose_extendsE [OF step.prems(1) Some] .
    have below: "below = declared \<or> below = []" "bm_get stock extends = Some found \<or> bm_get declared extends = Some found"
      using found by (auto simp: compose_base_def Let_def split: option.splits if_splits)
    have "\<forall>r. \<forall>t\<in>set (promise_rule inherited r). is_ok (term_of_template t)"
      using step.IH [OF Some new found inner] step.prems(3) below by fastforce
    with compose_own_rules(2,3) [OF own] step.prems(2) show ?thesis
      by (auto simp: admitted_def)
  qed
qed

lemma catalog_admitted:
  assumes "catalog_resolve json stock_defs declared_defs = Some (Inr cat)" "bm_get cat n = Some k"
  shows "(\<forall>r. \<forall>t\<in>set (promise_rule k r). is_ok (term_of_template t)) \<and> length (kind_subjects k) \<le> 1"
proof -
  obtain stock declared where layers: "layer_of json stock_defs = Inr stock" "layer_of json declared_defs = Inr declared"
    and got: "composed_in stock declared n (Some k)"
    using catalog_resolve_get [OF assms(1)] assms(2) by metis
  have ok: "bm_get stock m = Some d \<or> bm_get declared m = Some d \<Longrightarrow> admitted d" for m d
    using layer_of_inv(1) [OF layers(1)] layer_of_inv(1) [OF layers(2)] by (auto simp: layer_inv_def)
  show ?thesis
  proof (cases "bm_get declared n")
    case None
    then obtain d where "bm_get stock n = Some d" "compose n d stock [] [] = Some (Inr k)"
      using got by (auto simp: composed_in_def split: option.splits)
    then show ?thesis
      using ok by (intro compose_admitted) auto
  next
    case (Some d)
    then show ?thesis
      using got ok by (intro compose_admitted [of n d stock declared "[]"]) (auto simp: composed_in_def)
  qed
qed

lemma extension_rules:
  assumes cat: "catalog_resolve json stock_defs declared_defs = Some (Inr cat)"
    and stock_cat: "catalog_resolve json stock_defs [] = Some (Inr stock_cat)"
    and d: "d \<in> set declared_defs" "kd_extends d = Some extends"
    and k: "bm_get cat (kd_name d) = Some k"
    and kb: "bm_get (if extends = kd_name d then stock_cat else cat) extends = Some kb"
  shows "prefix (promise_rule kb r) (promise_rule k r)"
proof -
  obtain stock declared where layers: "layer_of json stock_defs = Inr stock" "layer_of json declared_defs = Inr declared"
    and got: "\<forall>n. composed_in stock declared n (bm_get cat n)"
    using catalog_resolve_get [OF cat] by blast
  have got': "\<forall>n. composed_in stock [] n (bm_get stock_cat n)"
    using catalog_resolve_get [OF stock_cat] layers(1) by (auto simp: layer_of_def)
  have "compose (kd_name d) d stock declared [] = Some (Inr k)"
    using got [rule_format, of "kd_name d"] layer_of_inv(2) [OF layers(2) d(1)] k by (simp add: composed_in_def)
  then obtain found below inherited where found: "compose_base (kd_name d) extends stock declared = Some (found, below)"
    and inner: "compose extends found stock below [] = Some (Inr inherited)" and own: "compose_own (kd_name d) d inherited = Inr k"
    using compose_extends [OF _ d(2)] by blast
  have "inherited = kb"
  proof (cases "extends = kd_name d")
    case True
    then have "bm_get stock extends = Some found" "below = []"
      using found by (auto simp: compose_base_def Let_def split: option.splits if_splits)
    then show ?thesis
      using got' [rule_format, of extends] inner kb True by (simp add: composed_in_def)
  next
    case False
    then show ?thesis
      using got [rule_format, of extends] found inner kb
      by (auto simp: composed_in_def compose_base_def split: option.splits)
  qed
  with compose_own_rules(1) [OF own] show ?thesis
    by simp
qed

subsection \<open>The stock kinds\<close>

definition bare_template :: "string \<Rightarrow> string \<Rightarrow> operator \<Rightarrow> string \<Rightarrow> template" where
  "bare_template subject path oper lit =
    \<lparr>tp_subject = \<lparr>vr_name = subject, vr_arguments = []\<rparr>, tp_path = [path], tp_operator = oper, tp_literal = lit\<rparr>"

lemma bare_template_parses:
  assumes "json_ok json" "template_ok (bare_template subject path oper lit)" "is_bare_segment path" "is_bare_literal lit"
  shows "stock_template json (''$'' @ subject @ '' .'' @ path @ '' '' @ operator_str oper @ '' '' @ lit)
    = bare_template subject path oper lit"
  using template_complete [OF assms(1,2)] assms(3,4)
  by (simp add: stock_template_def template_print_def variable_print_def comparison_print_def path_print_def
      write_word_def bare_template_def)

lemma stock_canonical:
  assumes "json_ok json"
  shows "stock_template json ''$cr .state != closed'' = bare_template ''cr'' ''state'' NotEqual ''closed''"
    and "stock_template json ''$cr .state == open'' = bare_template ''cr'' ''state'' Equal ''open''"
    and "stock_template json ''$cr .checks == pass'' = bare_template ''cr'' ''checks'' Equal ''pass''"
    and "stock_template json ''$cr .mergeable == true'' = bare_template ''cr'' ''mergeable'' Equal ''true''"
    and "stock_template json ''$cr .state == merged'' = bare_template ''cr'' ''state'' Equal ''merged''"
    and "stock_template json ''$artifact .exists == true'' = bare_template ''artifact'' ''exists'' Equal ''true''"
    and "stock_template json ''$artifact .digest == revision'' = bare_template ''artifact'' ''digest'' Equal ''revision''"
proof -
  have stock: "stock_template json (''$'' @ subject @ '' .'' @ path @ '' '' @ operator_str oper @ '' '' @ lit)
      = bare_template subject path oper lit"
    if "template_ok (bare_template subject path oper lit) \<and> is_bare_segment path \<and> is_bare_literal lit"
    for subject path oper lit
    using bare_template_parses [OF assms] that by blast
  have ok: "template_ok (bare_template ''cr'' ''state'' NotEqual ''closed'') \<and> is_bare_segment ''state'' \<and> is_bare_literal ''closed''"
    "template_ok (bare_template ''cr'' ''state'' Equal ''open'') \<and> is_bare_segment ''state'' \<and> is_bare_literal ''open''"
    "template_ok (bare_template ''cr'' ''checks'' Equal ''pass'') \<and> is_bare_segment ''checks'' \<and> is_bare_literal ''pass''"
    "template_ok (bare_template ''cr'' ''mergeable'' Equal ''true'') \<and> is_bare_segment ''mergeable'' \<and> is_bare_literal ''true''"
    "template_ok (bare_template ''cr'' ''state'' Equal ''merged'') \<and> is_bare_segment ''state'' \<and> is_bare_literal ''merged''"
    "template_ok (bare_template ''artifact'' ''exists'' Equal ''true'') \<and> is_bare_segment ''exists'' \<and> is_bare_literal ''true''"
    "template_ok (bare_template ''artifact'' ''digest'' Equal ''revision'') \<and> is_bare_segment ''digest'' \<and> is_bare_literal ''revision''"
    by code_simp+
  show "stock_template json ''$cr .state != closed'' = bare_template ''cr'' ''state'' NotEqual ''closed''"
    using stock [OF ok(1)] by simp
  show "stock_template json ''$cr .state == open'' = bare_template ''cr'' ''state'' Equal ''open''"
    using stock [OF ok(2)] by simp
  show "stock_template json ''$cr .checks == pass'' = bare_template ''cr'' ''checks'' Equal ''pass''"
    using stock [OF ok(3)] by simp
  show "stock_template json ''$cr .mergeable == true'' = bare_template ''cr'' ''mergeable'' Equal ''true''"
    using stock [OF ok(4)] by simp
  show "stock_template json ''$cr .state == merged'' = bare_template ''cr'' ''state'' Equal ''merged''"
    using stock [OF ok(5)] by simp
  show "stock_template json ''$artifact .exists == true'' = bare_template ''artifact'' ''exists'' Equal ''true''"
    using stock [OF ok(6)] by simp
  show "stock_template json ''$artifact .digest == revision'' = bare_template ''artifact'' ''digest'' Equal ''revision''"
    using stock [OF ok(7)] by simp
qed

section \<open>Properties\<close>

text \<open>
  C19: Composing a catalogue always ends. Whatever the stock and charter definitions (extending
  each other, themselves or nothing known), following the chain of bases returns, and so does resolving
  the catalogue: with the kinds or an error.
\<close>

theorem kinds_resolve_terminates:
  "(\<exists>r. compose name d stock declared visiting = Some r)
    \<and> (\<exists>r. catalog_resolve json stock_defs declared_defs = Some r)"
proof -
  have "\<exists>r. catalog_resolve json stock_defs declared_defs = Some r"
  proof (cases "layer_of json stock_defs"; cases "layer_of json declared_defs")
    fix stock declared
    assume layers: "layer_of json stock_defs = Inr stock" "layer_of json declared_defs = Inr declared"
    obtain r where r: "resolve_stock stock stock [] = Some r"
      using resolve_stock_returns by blast
    show ?thesis
      using resolve_declared_returns by (cases r) (simp_all add: catalog_resolve_def layers r)
  qed (simp_all add: catalog_resolve_def)
  then show ?thesis
    using compose_returns by blast
qed


text \<open>
  C20: A resolved catalogue is well typed: every condition of every rule is one the vocabulary admits,
  with an observation behind it, and all the conditions of a kind are over one submission variable.
  So whatever kinds an admission freezes from it, none of their conditions is reported as retired.
\<close>

theorem catalog_kinds_observed:
  assumes "catalog_resolve json stock_defs declared_defs = Some (Inr cat)"
  shows "(catalog_get cat n = Some k \<longrightarrow>
      (\<forall>t\<in>set (promise_rule k rule). is_ok (term_of_template t)) \<and> length (kind_subjects k) \<le> 1)
    \<and> (catalog_freeze Inr cat used = Inr kinds \<longrightarrow> catalog_retired kinds = [])"
proof -
  have from_cat: "\<forall>n k. (n, k) \<in> set kinds' \<longrightarrow> bm_get cat n = Some k"
    if "try_fold (\<lambda>name kinds. case bm_get cat name of
          None \<Rightarrow> Inl (K_UnknownKind name) | Some k \<Rightarrow> Inr (bm_insert name k kinds)) used [] = Inr kinds'" for kinds'
    by (rule try_fold_invariant [OF that])
      (auto split: option.splits dest: subsetD [OF set_bm_insert_subset])
  have "catalog_retired kinds = []" if "catalog_freeze Inr cat used = Inr kinds"
  proof -
    have "\<forall>n k. (n, k) \<in> set kinds \<longrightarrow> bm_get cat n = Some k"
      using that from_cat by (auto simp: catalog_freeze_def split: sum.splits)
    then show ?thesis
      using catalog_admitted [OF assms] by (fastforce simp: catalog_retired_def filter_empty_conv)
  qed
  then show ?thesis
    using catalog_admitted [OF assms] by (simp add: catalog_get_def)
qed

section \<open>Witnesses\<close>

definition demo_reviewed :: kind_definition where
  "demo_reviewed =
    \<lparr>kd_name = ''reviewed'', kd_extends = Some ''pr'', kd_durable = [],
     kd_ready = [bare_template ''cr'' ''review'' Equal ''approved''], kd_kept = []\<rparr>"

definition demo_catalog :: catalog where
  "demo_catalog = projr (the (catalog_resolve demo_json (stock_kinds demo_json) [demo_reviewed]))"

definition demo_stock_catalog :: catalog where
  "demo_stock_catalog = projr (the (catalog_resolve demo_json (stock_kinds demo_json) []))"

definition demo_observed :: observations where
  "demo_observed observation a =
    (case observation of ChangeRequestState \<Rightarrow> Some ''open'' | ChangeRequestChecks \<Rightarrow> Some ''fail''
     | ChangeRequestReview \<Rightarrow> Some ''approved'' | _ \<Rightarrow> None)"

lemma demo_catalogs:
  "catalog_resolve demo_json (stock_kinds demo_json) [demo_reviewed] = Some (Inr demo_catalog)"
  "catalog_resolve demo_json (stock_kinds demo_json) [] = Some (Inr demo_stock_catalog)"
  by code_simp+


theorem catalog_kinds_observed_witness:
  "catalog_retired [(''reviewed'', the (catalog_get demo_catalog ''reviewed''))] = []"
proof -
  have "catalog_freeze Inr demo_catalog [''reviewed''] = Inr [(''reviewed'', the (catalog_get demo_catalog ''reviewed''))]"
    by code_simp
  then show ?thesis
    using catalog_kinds_observed [OF demo_catalogs(1)] by blast
qed

text \<open>
  A charter kind that tightens a stock kind of its own name is refused as a cycle when that stock kind itself
  extends another: the composition meets the name twice, once for the charter's definition and once
  for the stock's.
\<close>

theorem stock_extension_reported_as_cycle:
  "catalog_resolve demo_json
      [\<lparr>kd_name = ''base'', kd_extends = None, kd_durable = [], kd_ready = [], kd_kept = []\<rparr>,
       \<lparr>kd_name = ''pr'', kd_extends = Some ''base'', kd_durable = [], kd_ready = [], kd_kept = []\<rparr>]
      [\<lparr>kd_name = ''pr'', kd_extends = Some ''pr'', kd_durable = [], kd_ready = [], kd_kept = []\<rparr>]
    = Some (Inl (K_Cycle ''pr''))"
  by code_simp

end
