(* ===== verification/Lenient_Input.thy ===== *)
theory Lenient_Input
  imports Conditions
begin

text \<open>
  Lenient input, \<open>src/crates/flotilla-address/src/lenient.rs\<close>: short forms, URLs, hosts and mixed
  case, resolved to the canonical form, and \<open>Condition::resolve\<close> of \<open>condition.rs\<close>, which reads its address that way.

  The lemmas show that whatever is resolved is a well-formed complete address in the normal form of
  its forge, so that resolving its text again returns it. They rest on what is documented of the code
  outside: a forge lookup answers with valid forges and, by id, with the forge of that id; lower-casing keeps
  UTF-8, changes nothing the second time and works on each part between slashes.
\<close>

section \<open>Numbers and forges\<close>

definition parse_number :: "string \<Rightarrow> address_error + nat" where
  "parse_number val =
    (let canonical = val \<noteq> [] \<and> list_all is_ascii_digit val \<and> (val = ''0'' \<or> \<not> starts_with (CHR ''0'') val)
     in case parse_u64 val of
          Some n \<Rightarrow>
            if canonical then Inr n
            else Inl (E_InvalidValue Kind_ChangeRequest val ''a number is decimal digits with no sign or leading zero'')
        | None \<Rightarrow> Inl (E_InvalidValue Kind_ChangeRequest val ''a number is decimal digits with no sign or leading zero''))"

definition lookup_forge :: "string \<Rightarrow> forge_lookup \<Rightarrow> address_error + forge" where
  "lookup_forge name forges =
    (let lowered = to_ascii_lowercase name
     in case forge_by_id forges lowered of
          Some f \<Rightarrow> Inr f
        | None \<Rightarrow> (case forge_by_host forges lowered of
            Some f \<Rightarrow> Inr f
          | None \<Rightarrow> Inl (E_UnresolvedForge name)))"

section \<open>Typed segments\<close>

text \<open>The first one or two segments of \<open>rebuild\<close>: the address they make and the segments left.\<close>

definition rebuild_root :: "casing \<Rightarrow> (segment_kind \<times> string) list \<Rightarrow> forge_lookup
    \<Rightarrow> address_error + address \<times> (segment_kind \<times> string) list" where
  "rebuild_root low segments forges =
    (case segments of
       [] \<Rightarrow> Inl E_Empty
     | (kind, val) # iter \<Rightarrow>
         if kind = Kind_Usage then
           (case iter of
              (k, account) # rest \<Rightarrow>
                if k = Kind_Account then
                  (case address_usage low val account of Inl e \<Rightarrow> Inl e | Inr a \<Rightarrow> Inr (a, rest))
                else Inl (E_Shape k (Some Kind_Usage))
            | [] \<Rightarrow> (case address_root low kind (normalise_usage low val) of Inl e \<Rightarrow> Inl e | Inr a \<Rightarrow> Inr (a, [])))
         else if kind = Kind_Forge then
           (case lookup_forge val forges of
              Inl e \<Rightarrow> Inl e
            | Inr f \<Rightarrow> (case iter of
                (k, repository) # rest \<Rightarrow>
                  if k = Kind_Repo then
                    (case address_repository low f repository of Inl e \<Rightarrow> Inl e | Inr a \<Rightarrow> Inr (a, rest))
                  else Inl (E_Shape k (Some Kind_Forge))
              | [] \<Rightarrow> (case address_forge low f of Inl e \<Rightarrow> Inl e | Inr a \<Rightarrow> Inr (a, []))))
         else (case address_root low kind val of Inl e \<Rightarrow> Inl e | Inr a \<Rightarrow> Inr (a, iter)))"

definition rebuild :: "casing \<Rightarrow> (segment_kind \<times> string) list \<Rightarrow> string option \<Rightarrow> forge_lookup
    \<Rightarrow> address_error + address" where
  "rebuild low segments subject forges =
    (case rebuild_root low segments forges of
       Inl e \<Rightarrow> Inl e
     | Inr (root, iter) \<Rightarrow> (case try_fold (\<lambda>(kind, val) a. address_child low a kind val) iter root of
         Inl e \<Rightarrow> Inl e
       | Inr a \<Rightarrow> (case subject of
           Some s \<Rightarrow>
             (case (if address_kind a = Kind_Artifact then address_parent a else None) of
                None \<Rightarrow> Inl E_OfNotAfterArtifact
              | Some role \<Rightarrow> address_artifact low role (address_name a) s)
         | None \<Rightarrow> if address_kind a = Kind_Artifact then Inl E_ArtifactWithoutSubject else Inr a)))"

definition renormalise :: "casing \<Rightarrow> address \<Rightarrow> forge_lookup \<Rightarrow> address_error + address" where
  "renormalise low a forges =
    (if (case address_get a Kind_Forge of None \<Rightarrow> True | Some f \<Rightarrow> forge_by_id forges f = None)
     then Inr a
     else rebuild low (map (\<lambda>s. (sg_kind s, sg_value s)) (ad_segments a)) (ad_of a) forges)"

text \<open>One turn of the loop of \<open>resolve_segments\<close>, over the segments and the subject so far.\<close>

definition resolve_segment :: "string \<Rightarrow> (segment_kind \<times> string) list \<times> string option
    \<Rightarrow> address_error + (segment_kind \<times> string) list \<times> string option" where
  "resolve_segment raw so_far =
    (case split_once (CHR '':'') raw of
       None \<Rightarrow> Inl (E_MalformedSegment raw)
     | Some (token, encoded) \<Rightarrow> (case decode_lenient encoded of
         Inl e \<Rightarrow> Inl e
       | Inr val \<Rightarrow>
           if snd so_far \<noteq> None then Inl E_OfNotLast
           else if token = OF then Inr (fst so_far, Some val)
           else (case kind_from_str (to_ascii_lowercase token) of
             Inl e \<Rightarrow> Inl e
           | Inr kind \<Rightarrow> Inr (fst so_far @ [(kind, val)], snd so_far))))"

definition resolve_segments :: "casing \<Rightarrow> string \<Rightarrow> forge_lookup \<Rightarrow> address_error + address" where
  "resolve_segments low input forges =
    (case try_fold resolve_segment (split (CHR ''/'') input) ([], None) of
       Inl e \<Rightarrow> Inl e
     | Inr (segments, subject) \<Rightarrow> rebuild low segments subject forges)"

section \<open>Short forms\<close>

definition short_number :: "casing \<Rightarrow> string \<Rightarrow> string \<Rightarrow> string \<Rightarrow> string \<Rightarrow> string \<Rightarrow> forge_lookup
    \<Rightarrow> address_error + address" where
  "short_number low kind service owner repo number forges =
    (case lookup_forge service forges of
       Inl e \<Rightarrow> Inl e
     | Inr f \<Rightarrow> (case parse_number number of
         Inl e \<Rightarrow> Inl e
       | Inr n \<Rightarrow>
           if kind = ''cr'' then address_change_request low f (owner @ ''/'' @ repo) n
           else address_issue low f (owner @ ''/'' @ repo) n))"

definition short_artifact :: "casing \<Rightarrow> string \<Rightarrow> string \<Rightarrow> string \<Rightarrow> string list \<Rightarrow> address_error + address" where
  "short_artifact low convoy role kind subject =
    (case address_convoy low convoy of
       Inl e \<Rightarrow> Inl e
     | Inr a \<Rightarrow> (case address_child low a Kind_Role role of
         Inl e \<Rightarrow> Inl e
       | Inr b \<Rightarrow> address_artifact low b kind (join ''/'' subject)))"

text \<open>The arms of the match in order, on the decoded parts.\<close>

definition resolve_parts :: "casing \<Rightarrow> string \<Rightarrow> string list \<Rightarrow> forge_lookup \<Rightarrow> address_error + address" where
  "resolve_parts low input parts forges =
    (case parts of
       [what, name] \<Rightarrow>
         if what = ''project'' then address_project low name
         else if what = ''fleet'' then address_fleet low name
         else if what = ''convoy'' then address_convoy low name
         else Inl (E_Unrecognised input)
     | [what, provider, account] \<Rightarrow>
         if what = ''usage'' then address_usage low provider account else Inl (E_Unrecognised input)
     | what # p1 # p2 # p3 # p4 # more_parts \<Rightarrow>
         if what \<in> {''cr'', ''issue''} \<and> more_parts = [] then short_number low what p1 p2 p3 p4 forges
         else if what = ''artifact'' then short_artifact low p1 p2 p3 (p4 # more_parts)
         else Inl (E_Unrecognised input)
     | _ \<Rightarrow> Inl (E_Unrecognised input))"

definition decode_part :: "string \<Rightarrow> string list \<Rightarrow> address_error + string list" where
  "decode_part raw parts = (case decode_lenient raw of Inl e \<Rightarrow> Inl e | Inr val \<Rightarrow> Inr (parts @ [val]))"

definition resolve_short :: "casing \<Rightarrow> string \<Rightarrow> forge_lookup \<Rightarrow> address_error + address" where
  "resolve_short low input forges =
    (case try_fold decode_part (split (CHR ''/'') input) [] of
       Inl e \<Rightarrow> Inl e
     | Inr parts \<Rightarrow> resolve_parts low input parts forges)"

section \<open>URLs\<close>

fun strip_scheme :: "string list \<Rightarrow> string \<Rightarrow> string option" where
  "strip_scheme [] input = None"
| "strip_scheme (s # schemes) input =
    (case strip_prefix s input of Some rest \<Rightarrow> Some rest | None \<Rightarrow> strip_scheme schemes input)"

definition url_host_path :: "string \<Rightarrow> (string \<times> string) option" where
  "url_host_path input =
    (case strip_scheme [''https://'', ''http://'', ''ssh://''] input of
       Some rest \<Rightarrow>
         (let (authority, path) = (case split_once (CHR ''/'') rest of Some ap \<Rightarrow> ap | None \<Rightarrow> (rest, []));
              host = (case rsplit_once (CHR ''@'') authority of Some (_, h) \<Rightarrow> h | None \<Rightarrow> authority)
          in Some (case split_once (CHR '':'') host of Some (h, _) \<Rightarrow> h | None \<Rightarrow> host, path))
     | None \<Rightarrow> (case split_once (CHR '':'') input of
         None \<Rightarrow> None
       | Some (user_host, path) \<Rightarrow>
           if CHR ''@'' \<in> set user_host
           then Some (case rsplit_once (CHR ''@'') user_host of Some (_, h) \<Rightarrow> h | None \<Rightarrow> user_host, path)
           else None))"

definition url_number :: "(forge \<Rightarrow> string \<Rightarrow> nat \<Rightarrow> address_error + address) \<Rightarrow> forge \<Rightarrow> string \<Rightarrow> string
    \<Rightarrow> string \<Rightarrow> address_error + address" where
  "url_number build f owner repo number =
    (case parse_number number of Inl e \<Rightarrow> Inl e | Inr n \<Rightarrow> build f (owner @ ''/'' @ repo) n)"

text \<open>The arms of the match in order, on the parts of the path.\<close>

definition url_address :: "casing \<Rightarrow> string \<Rightarrow> forge \<Rightarrow> string list \<Rightarrow> address_error + address" where
  "url_address low input f parts =
    (case parts of
       [owner, repo] \<Rightarrow>
         address_repository low f (owner @ ''/'' @ (case strip_suffix ''.git'' repo of Some r \<Rightarrow> r | None \<Rightarrow> repo))
     | owner # repo # what # arg # more_parts \<Rightarrow>
         if what \<in> {''pull'', ''pulls''} then url_number (address_change_request low) f owner repo arg
         else if what = ''issues'' then url_number (address_issue low) f owner repo arg
         else if what = ''commit'' \<and> more_parts = [] then
           (case address_repository low f (owner @ ''/'' @ repo) of
              Inl e \<Rightarrow> Inl e
            | Inr a \<Rightarrow> address_child low a Kind_Commit (to_ascii_lowercase arg))
         else Inl (E_Unrecognised input)
     | _ \<Rightarrow> Inl (E_Unrecognised input))"

definition resolve_url :: "casing \<Rightarrow> string \<Rightarrow> forge_lookup \<Rightarrow> address_error + address option" where
  "resolve_url low input forges =
    (case url_host_path input of
       None \<Rightarrow> Inr None
     | Some (host, path) \<Rightarrow> (case forge_by_host forges host of
         None \<Rightarrow> Inl (E_UnresolvedForge host)
       | Some f \<Rightarrow>
           (let plain = trim_end_matches (CHR ''/'') (hd (split_by (\<lambda>c. c = CHR ''?'' \<or> c = CHR ''#'') path))
            in case url_address low input f (split (CHR ''/'') plain) of
                 Inl e \<Rightarrow> Inl e
               | Inr a \<Rightarrow> Inr (Some a))))"

section \<open>Resolution\<close>

definition resolve :: "casing \<Rightarrow> string \<Rightarrow> forge_lookup \<Rightarrow> address_error + address" where
  "resolve low typed forges =
    (let input = trim typed
     in case address_from_str low input of
          Inr a \<Rightarrow> renormalise low a forges
        | Inl _ \<Rightarrow> (case resolve_url low input forges of
            Inl e \<Rightarrow> Inl e
          | Inr (Some a) \<Rightarrow> Inr a
          | Inr None \<Rightarrow>
              if CHR '':'' \<in> set (hd (split (CHR ''/'') input)) then resolve_segments low input forges
              else resolve_short low input forges))"

definition condition_resolve :: "casing \<Rightarrow> json \<Rightarrow> string \<Rightarrow> forge_lookup \<Rightarrow> address_error + condition" where
  "condition_resolve low json input forges =
    (case cu_token (cursor_new (trim input) Lenient) of
       (token, c) \<Rightarrow> (case resolve low token forges of
         Inl e \<Rightarrow> Inl e
       | Inr a \<Rightarrow> (case cu_separator c of
           Inl e \<Rightarrow> Inl e
         | Inr c \<Rightarrow> (case cu_comparison json c of
             Inl e \<Rightarrow> Inl e
           | Inr ((path, op, literal), _) \<Rightarrow>
               Inr \<lparr>cn_address = a, cn_path = path, cn_operator = op, cn_literal = literal\<rparr>))))"

section \<open>What is relied on\<close>

text \<open>
  A lookup answers with forges that \<open>Forge::new\<close> built, and by id with the forge of that id. Lower-casing
  keeps UTF-8, is idempotent, and maps the parts between slashes one by one.
\<close>

definition lookup_ok :: "forge_lookup \<Rightarrow> bool" where
  "lookup_ok forges \<longleftrightarrow>
    (\<forall>i f. fl_by_id forges i = Some f \<longrightarrow> fg_id f = i \<and> validate_forge_id i = Inr ())
    \<and> (\<forall>h f. fl_by_host forges h = Some f \<longrightarrow> validate_forge_id (fg_id f) = Inr ())"

definition casing_ok :: "casing \<Rightarrow> bool" where
  "casing_ok low \<longleftrightarrow> utf8_casing low \<and> (\<forall>s. low (low s) = low s)
    \<and> (\<forall>s. CHR ''/'' \<notin> set s \<longrightarrow> CHR ''/'' \<notin> set (low s)) \<and> (\<forall>s. s \<noteq> [] \<longrightarrow> low s \<noteq> [])
    \<and> (\<forall>s t. low (s @ CHR ''/'' # t) = low s @ CHR ''/'' # low t)"

section \<open>Lemmas\<close>

text \<open>The repositories of an address are in the normal form of their forges.\<close>

definition repo_normal :: "casing \<Rightarrow> address \<Rightarrow> bool" where
  "repo_normal low a \<longleftrightarrow> (\<forall>s\<in>set (ad_segments a). sg_kind s = Kind_Repo \<longrightarrow>
      low (sg_value s) = sg_value s \<and> validate_repository Github (sg_value s) = Inr ())"

lemma validate_repository_iff:
  "validate_repository k r = Inr () \<longleftrightarrow>
    (\<exists>owner name. r = owner @ CHR ''/'' # name \<and> CHR ''/'' \<notin> set owner \<and> owner \<noteq> []
      \<and> name \<noteq> [] \<and> CHR ''/'' \<notin> set name)"
proof -
  have "validate_repository k r = Inr () \<longleftrightarrow>
      (\<exists>owner name. split_once (CHR ''/'') r = Some (owner, name) \<and> owner \<noteq> [] \<and> name \<noteq> [] \<and> CHR ''/'' \<notin> set name)"
    by (auto simp: validate_repository_def Let_def split: option.splits if_splits)
  then show ?thesis
    unfolding split_once_iff by blast
qed

lemma normal_repository:
  assumes "casing_ok low" "validate_repository k r = Inr ()"
  shows "validate_repository k' (low r) = Inr ()" "low (low r) = low r"
  using assms unfolding validate_repository_iff casing_ok_def by metis+

lemma address_child_iff:
  assumes "address_wf low a"
  shows "address_child low a k v = Inr b \<longleftrightarrow>
    k \<noteq> Kind_Repo \<and> ad_of a = None \<and> segment_ok low (ad_segments a) \<lparr>sg_kind = k, sg_value = v\<rparr>
    \<and> b = extended a \<lparr>sg_kind = k, sg_value = v\<rparr>"
  using address_push_iff [OF assms] by (simp add: address_child_def)

lemma extended_simps [simp]:
  "ad_segments (extended a s) = ad_segments a @ [s]" "ad_of (extended a s) = ad_of a"
  "last_kind (extended a s) = Some (sg_kind s)"
  by (simp_all add: extended_def last_kind_def)

lemma address_forgeD:
  assumes "address_forge low f = Inr a"
  shows "a = extended address_empty \<lparr>sg_kind = Kind_Forge, sg_value = fg_id f\<rparr>"
  using assms address_child_iff [OF address_wf_empty] by (simp add: address_forge_def address_root_def)

lemma address_repositoryD:
  assumes "address_repository low f r = Inr a" "utf8 (fg_id f)"
  shows "\<exists>b. address_forge low f = Inr b \<and> address_wf low b
    \<and> a = extended b \<lparr>sg_kind = Kind_Repo, sg_value = low r\<rparr> \<and> validate_repository Github r = Inr ()"
proof -
  obtain b where b: "address_forge low f = Inr b" "address_push low b Kind_Repo (low r) = Inr a"
    and r: "validate_repository (fg_kind f) r = Inr ()"
    using assms(1) by (auto simp: address_repository_def normalise_repository_def split: sum.splits forge_kind.splits)
  have "address_wf low b"
    using b(1) assms(2) address_root_wf by (auto simp: address_forge_def)
  with b r address_push_iff [OF this] show ?thesis
    by (auto simp: validate_repository_iff)
qed

text \<open>Whatever the constructors build has its repositories in normal form.\<close>

lemma built_repo_normal:
  assumes "address_built low a" "casing_ok low"
  shows "repo_normal low a"
  using assms(1)
proof (induction rule: address_built.induct)
  case (built_root k v a)
  then show ?case
    using address_child_iff [OF address_wf_empty]
    by (auto simp: address_root_def repo_normal_def address_empty_def)
next
  case (built_child a k v b)
  then show ?case
    using address_child_iff [OF address_built_wf] assms(2) by (auto simp: repo_normal_def casing_ok_def)
next
  case (built_repository f r a)
  then obtain b where b: "address_forge low f = Inr b" "a = extended b \<lparr>sg_kind = Kind_Repo, sg_value = low r\<rparr>"
    and r: "validate_repository Github r = Inr ()"
    using address_repositoryD by blast
  with normal_repository [OF assms(2) r] address_forgeD [OF b(1)] show ?case
    by (auto simp: repo_normal_def address_empty_def)
next
  case (built_usage p v a)
  then obtain c where c: "address_root low Kind_Usage (normalise_usage low p) = Inr c"
    "address_child low c Kind_Account (normalise_usage low v) = Inr a"
    by (auto simp: address_usage_def split: sum.splits)
  have "utf8 (normalise_usage low p)"
    using built_usage(2) assms(2) by (simp add: normalise_usage_def casing_ok_def utf8_casing_def utf8_trim)
  with c(1) have "address_wf low c"
    using address_root_wf by blast
  from address_child_iff [OF this] address_child_iff [OF address_wf_empty] c show ?case
    by (auto simp: address_root_def repo_normal_def address_empty_def)
next
  case (built_artifact a k s b)
  then obtain c where c: "address_child low a Kind_Artifact k = Inr c" "ad_segments b = ad_segments c"
    by (auto simp: address_artifact_def split: sum.splits)
  have "address_wf low a"
    using address_built_wf [OF built_artifact(1)] assms(2) by (simp add: casing_ok_def)
  with c address_child_iff [OF this] built_artifact.IH show ?case
    by (auto simp: repo_normal_def)
qed

text \<open>Forges that are found are valid, and the constructors on them build complete addresses.\<close>

lemma valid_forge_id:
  assumes "validate_forge_id i = Inr ()"
  shows "utf8 i" "to_ascii_lowercase i = i"
proof -
  have plain: "\<forall>c\<in>set i. is_ascii_lowercase c \<or> is_ascii_digit c \<or> c = CHR ''-''"
    using assms by (auto simp: validate_forge_id_def list_all_iff split: if_splits)
  then have "\<forall>c\<in>set i. byte c < 128 \<and> \<not> is_ascii_uppercase c"
    by (auto simp: is_ascii_lowercase_def is_ascii_digit_def is_ascii_uppercase_def byte_def)
  then show "utf8 i" "to_ascii_lowercase i = i"
    by (auto intro!: utf8_ascii map_idI simp: list_all_iff to_ascii_lowercase_def)
qed

lemma github_valid: "validate_forge_id GITHUB_FORGE_ID = Inr ()"
  by (simp add: validate_forge_id_def GITHUB_FORGE_ID_def is_ascii_alphanumeric_def is_ascii_lowercase_def byte_def)

lemma forge_by_id_valid:
  "lookup_ok forges \<Longrightarrow> forge_by_id forges i = Some f \<Longrightarrow> fg_id f = i \<and> validate_forge_id i = Inr ()"
  using github_valid by (auto simp: forge_by_id_def lookup_ok_def forge_github_def split: if_splits)

lemma forge_by_host_valid:
  "lookup_ok forges \<Longrightarrow> forge_by_host forges h = Some f \<Longrightarrow> validate_forge_id (fg_id f) = Inr ()"
  using github_valid
  by (auto simp: forge_by_host_def lookup_ok_def forge_github_def Let_def split: if_splits option.splits)

lemma lookup_forge_valid:
  "lookup_ok forges \<Longrightarrow> lookup_forge n forges = Inr f \<Longrightarrow> validate_forge_id (fg_id f) = Inr ()"
  using forge_by_id_valid forge_by_host_valid
  by (fastforce simp: lookup_forge_def Let_def split: option.splits)

text \<open>Well-formed with normal repositories, and complete beside.\<close>

definition sound :: "casing \<Rightarrow> address \<Rightarrow> bool" where
  "sound low a \<longleftrightarrow> address_wf low a \<and> repo_normal low a"

definition made :: "casing \<Rightarrow> address \<Rightarrow> bool" where
  "made low a \<longleftrightarrow> sound low a \<and> address_complete a"

lemma sound_built: "address_built low a \<Longrightarrow> casing_ok low \<Longrightarrow> sound low a"
  using address_built_wf built_repo_normal by (simp add: sound_def casing_ok_def)

lemma complete_extended: "sg_kind s \<noteq> Kind_Artifact \<Longrightarrow> address_complete (extended a s)"
  by (simp add: address_complete_def)

lemma sound_child:
  assumes "sound low a" "address_child low a k v = Inr b" "utf8 v"
  shows "sound low b" "ad_segments b = ad_segments a @ [\<lparr>sg_kind = k, sg_value = v\<rparr>]" "ad_of b = None"
    "k \<noteq> Kind_Artifact \<Longrightarrow> made low b"
proof -
  have wf: "address_wf low a"
    using assms(1) by (simp add: sound_def)
  note b = address_child_iff [OF wf, of k v b, THEN iffD1, OF assms(2)]
  show "sound low b"
    using address_child_wf [OF assms(2) wf assms(3)] assms(1) b by (auto simp: sound_def repo_normal_def)
  then show "k \<noteq> Kind_Artifact \<Longrightarrow> made low b"
    using b by (simp add: made_def complete_extended)
qed (use address_child_iff [of low a k v b] assms in \<open>auto simp: sound_def\<close>)

lemma made_root:
  assumes "address_root low k v = Inr a" "utf8 v" "k \<noteq> Kind_Artifact" "casing_ok low"
  shows "made low a"
  using sound_built [OF built_root [OF assms(1,2)] assms(4)] assms(1,3) address_child_iff [OF address_wf_empty]
  by (auto simp: made_def address_root_def complete_extended)

lemma made_repository:
  assumes "address_repository low f r = Inr a" "validate_forge_id (fg_id f) = Inr ()" "utf8 r" "casing_ok low"
  shows "made low a"
  using sound_built [OF built_repository [OF assms(1) valid_forge_id(1) [OF assms(2)] assms(3)] assms(4)]
    address_repositoryD [OF assms(1) valid_forge_id(1) [OF assms(2)]]
  by (auto simp: made_def complete_extended)

lemma made_usage:
  assumes "address_usage low p v = Inr a" "casing_ok low" "utf8 p" "utf8 v"
  shows "made low a"
proof -
  obtain c where c: "address_root low Kind_Usage (normalise_usage low p) = Inr c"
    "address_child low c Kind_Account (normalise_usage low v) = Inr a"
    using assms(1) by (auto simp: address_usage_def split: sum.splits)
  have u: "utf8 (normalise_usage low p)" "utf8 (normalise_usage low v)"
    using assms by (simp_all add: normalise_usage_def casing_ok_def utf8_casing_def utf8_trim)
  show ?thesis
    using sound_child(4) [OF sound_built [OF built_root [OF c(1) u(1)] assms(2)] c(2) u(2)] by simp
qed

lemma made_artifact:
  assumes "sound low a" "address_artifact low a k s = Inr b" "utf8 k" "utf8 s"
  shows "made low b"
proof -
  obtain c where c: "address_child low a Kind_Artifact k = Inr c" "ad_of b = Some s" "ad_segments b = ad_segments c"
    using assms(2) by (auto simp: address_artifact_def split: sum.splits)
  note child = sound_child(1,2) [OF assms(1) c(1) assms(3)]
  have "address_wf low b"
    using address_artifact_wf [OF assms(2) _ assms(3,4)] assms(1) by (simp add: sound_def)
  with c child show ?thesis
    by (simp add: made_def sound_def repo_normal_def address_complete_def)
qed

lemma utf8_print_nat: "utf8 (print_nat n)"
proof (induction n rule: print_nat.induct)
  case (1 n)
  then show ?case
    by (subst print_nat.simps) (auto intro!: utf8_append simp: utf8_ascii byte_char_of)
qed

lemma made_number:
  assumes "address_change_request low f r n = Inr a \<or> address_issue low f r n = Inr a"
    and "validate_forge_id (fg_id f) = Inr ()" "utf8 r" "casing_ok low"
  shows "made low a"
proof -
  obtain b k where b: "address_repository low f r = Inr b" "address_child low b k (print_nat n) = Inr a" "k \<noteq> Kind_Artifact"
    using assms(1) by (auto simp: address_change_request_def address_issue_def split: sum.splits)
  then show ?thesis
    using made_repository [OF b(1) assms(2-4)] sound_child(4) [OF _ b(2) utf8_print_nat b(3)]
    by (simp add: made_def)
qed

text \<open>The parent of an address is the address of all its segments but the last.\<close>

lemma rsplit_join:
  "ps \<noteq> [] \<Longrightarrow> c \<notin> set p \<Longrightarrow> rsplit_once c (join [c] (ps @ [p])) = Some (join [c] ps, p)"
  by (simp add: join_snoc rsplit_once_iff)

lemma address_parent_eq:
  assumes "address_wf low a" "ad_segments a = ss @ [s]" "ss \<noteq> []"
  shows "address_parent a = Some \<lparr>ad_segments = ss, ad_of = None, ad_text = join ''/'' (map piece ss)\<rparr>"
proof -
  have spelled: "ad_text a = join ''/'' (pieces a)"
    using assms(1) by (simp add: address_wf_def)
  have plain: "CHR ''/'' \<notin> set (piece s)" "CHR ''/'' \<notin> set (of_piece t)" if "ad_of a = Some t \<or> t = []" for t
    using piece_no_slash [of "piece s" a] assms(2)
    by (auto simp: pieces_def of_piece_def OF_def encode_no_separator)
  have "rsplit_once (CHR ''/'') (join ''/'' (map piece ss @ [piece s])) = Some (join ''/'' (map piece ss), piece s)"
    using assms(3) plain(1) [of "[]"] by (intro rsplit_join) simp_all
  moreover have "rsplit_once (CHR ''/'') (join ''/'' ((map piece ss @ [piece s]) @ [of_piece t])) =
      Some (join ''/'' (map piece ss @ [piece s]), of_piece t)" if "ad_of a = Some t" for t
    using that plain(2) [of t] by (intro rsplit_join) simp_all
  ultimately show ?thesis
    using assms(2,3) spelled by (cases "ad_of a") (simp_all add: address_parent_def pieces_def)
qed

lemma sound_parent:
  assumes "sound low a" "address_parent a = Some p"
  shows "sound low p" "\<exists>s. ad_segments a = ad_segments p @ [s] \<and> utf8 (sg_value s)" "ad_of p = None"
proof -
  obtain ss s where ss: "ad_segments a = ss @ [s]" "ss \<noteq> []"
    using assms(2) by (cases "ad_segments a" rule: rev_cases) (auto simp: address_parent_def Let_def split: if_splits)
  have wf: "address_wf low a"
    using assms(1) by (simp add: sound_def)
  from address_parent_eq [OF wf ss] assms(2)
  have p: "p = \<lparr>ad_segments = ss, ad_of = None, ad_text = join ''/'' (map piece ss)\<rparr>"
    by simp
  with assms(1) wf ss show "sound low p" "\<exists>s. ad_segments a = ad_segments p @ [s] \<and> utf8 (sg_value s)" "ad_of p = None"
    by (auto simp: sound_def address_wf_def segments_ok_snoc pieces_def repo_normal_def)
qed

text \<open>Cutting a UTF-8 string at an ASCII character leaves UTF-8.\<close>

lemma utf8_cut: "utf8 (l @ c # r) \<Longrightarrow> byte c < 128 \<Longrightarrow> utf8 l \<and> utf8 r"
  using utf8_split [of l "c # r"] utf8_Cons(1) [of c r] by (auto simp: cont_def)

lemma utf8_split_by:
  assumes "\<And>c. P c \<Longrightarrow> byte c < 128" "utf8 s" "p \<in> set (split_by P s)"
  shows "utf8 p"
  using assms(2,3)
proof (induction s rule: length_induct)
  case (1 s)
  show ?case
  proof (cases "\<exists>c\<in>set s. P c")
    case True
    then obtain l c r where s: "s = l @ c # r" "P c" "\<forall>d\<in>set l. \<not> P d"
      using split_list_first_prop [of s P] by blast
    have "split_by P s = l # split_by P r"
      unfolding s(1) using s(2,3) by (induction l) auto
    moreover have "utf8 l" "utf8 r" "length r < length s"
      using 1(2) s utf8_cut [of l c r] assms(1) by auto
    moreover have "p \<in> set (split_by P r) \<Longrightarrow> utf8 p"
      using 1(1) calculation by blast
    ultimately show ?thesis
      using 1(3) by auto
  next
    case False
    then have "split_by P s = [s]"
      by (induction s) auto
    with 1 show ?thesis
      by simp
  qed
qed

lemma utf8_parts: "utf8 s \<Longrightarrow> list_all utf8 (split (CHR ''/'') s)"
  using utf8_split_by [of "(=) (CHR ''/'')"] by (auto simp: list_all_iff byte_def)

lemma utf8_trim_end_matches:
  assumes "utf8 s" "byte c < 128"
  shows "utf8 (trim_end_matches c s)"
proof -
  define t where "t = takeWhile (\<lambda>b. b = c) (rev s)"
  have s: "s = trim_end_matches c s @ rev t"
    by (metis t_def trim_end_matches_def rev_append rev_rev_ident takeWhile_dropWhile_id)
  show ?thesis
  proof (cases "rev t")
    case (Cons d r)
    then have "d = c"
      using set_takeWhileD [of d "\<lambda>b. b = c" "rev s"] by (metis t_def list.set_intros(1) set_rev)
    with s Cons assms utf8_cut [of "trim_end_matches c s" c r] show ?thesis
      by simp
  qed (use s assms in simp)
qed

lemma utf8_strip_suffix: "utf8 s \<Longrightarrow> strip_suffix ''.git'' s = Some r \<Longrightarrow> utf8 r"
proof -
  assume s: "utf8 s" "strip_suffix ''.git'' s = Some r"
  then obtain z where "strip_prefix (rev ''.git'') (rev s) = Some z" "r = rev z"
    unfolding strip_suffix_def map_option_eq_Some by blast
  then have "rev s = rev ''.git'' @ z" "r = rev z"
    unfolding strip_prefix_iff by blast+
  then have "s = r @ ''.git''"
    by (metis rev_append rev_rev_ident)
  with s(1) utf8_cut [of r "CHR ''.''" "''git''"] show "utf8 r"
    by (simp add: byte_def)
qed

lemma utf8_after_scheme:
  assumes "utf8 input" "strip_scheme schemes input = Some rest" "\<forall>s\<in>set schemes. list_all (\<lambda>c. byte c < 128) s"
  shows "utf8 rest"
  using assms(2,3)
proof (induction schemes)
  case (Cons s schemes)
  have drop_ascii: "utf8 (p @ q) \<Longrightarrow> list_all (\<lambda>c. byte c < 128) p \<Longrightarrow> utf8 q" for p q
    by (induction p) auto
  show ?case
  proof (cases "strip_prefix s input")
    case (Some r)
    with Cons assms(1) drop_ascii [of s r] show ?thesis
      by (auto simp: strip_prefix_iff)
  qed (use Cons in auto)
qed simp

lemma utf8_url_path:
  assumes "utf8 input" "url_host_path input = Some (host, path)"
  shows "utf8 path"
proof (cases "strip_scheme [''https://'', ''http://'', ''ssh://''] input")
  case None
  then obtain l where "split_once (CHR '':'') input = Some (l, path)"
    using assms(2) by (auto simp: url_host_path_def split: option.splits if_splits)
  with assms(1) utf8_cut [of l "CHR '':''" path] show ?thesis
    by (simp add: split_once_iff byte_def)
next
  case (Some rest)
  have "utf8 rest"
    by (rule utf8_after_scheme [OF assms(1) Some]) (simp add: byte_def)
  moreover have "path = [] \<or> (\<exists>l. rest = l @ CHR ''/'' # path)"
    using assms(2) Some by (auto simp: url_host_path_def Let_def split_once_iff split: option.splits prod.splits)
  ultimately show ?thesis
    using utf8_cut [of _ "CHR ''/''" path] by (auto simp: byte_def)
qed

text \<open>Every way of resolving makes an address with the constructors.\<close>

lemma rebuild_root_made:
  assumes "rebuild_root low segs forges = Inr (a, iter)" "\<forall>(k, v)\<in>set segs. utf8 v"
    and "lookup_ok forges" "casing_ok low"
  shows "sound low a \<and> ad_segments a \<noteq> [] \<and> (\<forall>(k, v)\<in>set iter. utf8 v)"
proof -
  obtain k v rest where segs: "segs = (k, v) # rest"
    using assms(1) by (cases segs) (auto simp: rebuild_root_def)
  have v: "utf8 v" "utf8 (normalise_usage low v)" and rest: "\<forall>(k, v)\<in>set rest. utf8 v"
    using assms(2,4) by (auto simp: segs normalise_usage_def casing_ok_def utf8_casing_def utf8_trim)
  have root: "address_root low k u = Inr a \<Longrightarrow> utf8 u \<Longrightarrow> sound low a \<and> ad_segments a \<noteq> []" for k u
    using sound_built [OF built_root assms(4)] address_child_iff [OF address_wf_empty, of low k u a]
    by (auto simp: address_root_def)
  have made: "made low a \<Longrightarrow> sound low a \<and> ad_segments a \<noteq> []"
    by (simp add: made_def address_complete_def)
  consider (usage) "k = Kind_Usage" | (forge) "k = Kind_Forge" | (other) "k \<noteq> Kind_Usage" "k \<noteq> Kind_Forge"
    by blast
  then show ?thesis
  proof cases
    case usage
    with assms(1) rest v show ?thesis
      by (auto simp: rebuild_root_def segs split: list.splits sum.splits if_splits
          dest: root made [OF made_usage [OF _ assms(4)]])
  next
    case forge
    then obtain f where f: "lookup_forge v forges = Inr f"
      using assms(1) by (auto simp: rebuild_root_def segs split: sum.splits)
    note i = lookup_forge_valid [OF assms(3) f]
    from assms(1) rest f forge valid_forge_id(1) [OF i] show ?thesis
      by (auto simp: rebuild_root_def segs address_forge_def split: list.splits sum.splits if_splits
          dest: root made [OF made_repository [OF _ i _ assms(4)]])
  next
    case other
    with assms(1) rest v show ?thesis
      by (auto simp: rebuild_root_def segs split: sum.splits dest: root)
  qed
qed

lemma children_sound:
  assumes "try_fold (\<lambda>(k, v) a. address_child low a k v) iter a = Inr b" "sound low a" "ad_segments a \<noteq> []"
    and "\<forall>(k, v)\<in>set iter. utf8 v"
  shows "sound low b \<and> ad_segments b \<noteq> []"
  using assms
proof (induction iter arbitrary: a)
  case (Cons kv iter)
  obtain k v where kv: "kv = (k, v)" "utf8 v"
    using Cons.prems(4) by (cases kv) auto
  with Cons.prems obtain c where c: "address_child low a k v = Inr c"
    "try_fold (\<lambda>(k, v) a. address_child low a k v) iter c = Inr b"
    by (auto split: sum.splits)
  with Cons.IH [OF c(2)] sound_child(1,2) [OF Cons.prems(2) c(1) kv(2)] Cons.prems(4) show ?case
    by auto
qed simp

lemma rebuild_made:
  assumes "rebuild low segs sub forges = Inr a" "\<forall>(k, v)\<in>set segs. utf8 v" "\<forall>s. sub = Some s \<longrightarrow> utf8 s"
    and "lookup_ok forges" "casing_ok low"
  shows "made low a"
proof -
  obtain root iter b where root: "rebuild_root low segs forges = Inr (root, iter)"
    and b: "try_fold (\<lambda>(k, v) a. address_child low a k v) iter root = Inr b"
    and a: "(case sub of Some s \<Rightarrow> (case (if address_kind b = Kind_Artifact then address_parent b else None) of
          None \<Rightarrow> Inl E_OfNotAfterArtifact | Some role \<Rightarrow> address_artifact low role (address_name b) s)
        | None \<Rightarrow> if address_kind b = Kind_Artifact then Inl E_ArtifactWithoutSubject else Inr b) = Inr a"
    using assms(1) by (auto simp: rebuild_def split: sum.splits)
  have b: "sound low b" "ad_segments b \<noteq> []"
    using children_sound [OF b] rebuild_root_made [OF root assms(2,4,5)] by auto
  show ?thesis
  proof (cases sub)
    case None
    with a b show ?thesis
      by (auto simp: made_def address_complete_def last_kind_def address_kind_def split: if_splits)
  next
    case (Some s)
    with a obtain p where p: "address_parent b = Some p" "address_artifact low p (address_name b) s = Inr a"
      by (auto split: if_splits option.splits)
    from sound_parent [OF b(1) p(1)] have "sound low p" "utf8 (address_name b)"
      by (auto simp: address_name_def)
    with made_artifact [OF _ p(2)] assms(3) Some show ?thesis
      by blast
  qed
qed

lemma decode_lenient_utf8: "decode_lenient e = Inr v \<Longrightarrow> utf8 v"
  by (auto simp: decode_lenient_def decode_def split: sum.splits if_splits)

lemma segments_made:
  assumes "resolve_segments low input forges = Inr a" "lookup_ok forges" "casing_ok low"
  shows "made low a"
proof -
  obtain segs sub where fold: "try_fold resolve_segment (split (CHR ''/'') input) ([], None) = Inr (segs, sub)"
    and a: "rebuild low segs sub forges = Inr a"
    using assms(1) by (auto simp: resolve_segments_def split: sum.splits)
  let ?ok = "\<lambda>(segs, sub). (\<forall>(k, v)\<in>set segs. utf8 v) \<and> (\<forall>s. sub = Some s \<longrightarrow> utf8 s)"
  have "?ok (segs, sub)"
    by (rule try_fold_invariant [where I = ?ok, OF fold])
      (auto simp: resolve_segment_def split: option.splits sum.splits if_splits prod.splits dest: decode_lenient_utf8)
  with rebuild_made [OF a _ _ assms(2,3)] show ?thesis
    by auto
qed

lemma utf8_slash: "utf8 x \<Longrightarrow> utf8 y \<Longrightarrow> utf8 (x @ ''/'' @ y)"
  by (intro utf8_append) (simp_all add: byte_def)

lemma utf8_join: "list_all utf8 ps \<Longrightarrow> utf8 (join ''/'' ps)"
proof (induction ps)
  case (Cons p ps)
  then show ?case
    using utf8_slash [of p "join ''/'' ps"] by (cases ps) simp_all
qed simp

lemma parts_made:
  assumes "resolve_parts low input parts forges = Inr a" "list_all utf8 parts" "lookup_ok forges" "casing_ok low"
  shows "made low a"
proof -
  consider what name where "parts = [what, name]" | what p v where "parts = [what, p, v]"
    | what p1 p2 p3 p4 ps where "parts = what # p1 # p2 # p3 # p4 # ps"
    using assms(1) by (auto simp: resolve_parts_def split: list.splits)
  then show ?thesis
  proof cases
    case 1
    with assms show ?thesis
      by (auto simp: resolve_parts_def address_project_def address_fleet_def address_convoy_def
          split: if_splits intro: made_root)
  next
    case 2
    with assms show ?thesis
      by (auto simp: resolve_parts_def split: if_splits intro: made_usage)
  next
    case (3 what p1 p2 p3 p4 ps)
    then have u: "utf8 p1" "utf8 p2" "utf8 p3" "utf8 p4" "utf8 (join ''/'' (p4 # ps))"
      using assms(2) utf8_join by auto
    consider (number) f n where "lookup_forge p1 forges = Inr f"
        "address_change_request low f (p2 @ ''/'' @ p3) n = Inr a \<or> address_issue low f (p2 @ ''/'' @ p3) n = Inr a"
      | (artifact) b c where "address_convoy low p1 = Inr b" "address_child low b Kind_Role p2 = Inr c"
        "address_artifact low c p3 (join ''/'' (p4 # ps)) = Inr a"
      using assms(1) 3 by (auto simp: resolve_parts_def short_number_def short_artifact_def split: if_splits sum.splits)
    then show ?thesis
    proof cases
      case number
      then show ?thesis
        using made_number lookup_forge_valid [OF assms(3)] utf8_slash [OF u(2,3)] assms(4) by blast
    next
      case artifact
      have "made low b"
        using made_root [OF _ u(1) _ assms(4)] artifact(1) by (simp add: address_convoy_def)
      then show ?thesis
        using made_artifact [OF sound_child(1) [OF _ artifact(2) u(2)] artifact(3) u(3,5)] by (simp add: made_def)
    qed
  qed
qed

lemma short_made:
  assumes "resolve_short low input forges = Inr a" "lookup_ok forges" "casing_ok low"
  shows "made low a"
proof -
  obtain parts where fold: "try_fold decode_part (split (CHR ''/'') input) [] = Inr parts"
    and a: "resolve_parts low input parts forges = Inr a"
    using assms(1) by (auto simp: resolve_short_def split: sum.splits)
  have "list_all utf8 parts"
    by (rule try_fold_invariant [OF fold]) (auto simp: decode_part_def split: sum.splits dest: decode_lenient_utf8)
  then show ?thesis
    by (rule parts_made [OF a _ assms(2,3)])
qed

lemma url_address_made:
  assumes "url_address low input f parts = Inr a" "list_all utf8 parts" "validate_forge_id (fg_id f) = Inr ()" "casing_ok low"
  shows "made low a"
proof -
  consider owner repo where "parts = [owner, repo]" | owner repo what arg ps where "parts = owner # repo # what # arg # ps"
    using assms(1) by (auto simp: url_address_def split: list.splits)
  then show ?thesis
  proof cases
    case (1 owner repo)
    define r where "r = (case strip_suffix ''.git'' repo of Some r \<Rightarrow> r | None \<Rightarrow> repo)"
    have "utf8 r"
      using assms(2) 1 utf8_strip_suffix by (auto simp: r_def split: option.splits)
    then have "utf8 (owner @ ''/'' @ r)"
      using utf8_slash assms(2) 1 by simp
    moreover have "address_repository low f (owner @ ''/'' @ r) = Inr a"
      using assms(1) 1 by (simp add: url_address_def r_def)
    ultimately show ?thesis
      using made_repository assms(3,4) by blast
  next
    case (2 owner repo what arg ps)
    have u: "utf8 (owner @ ''/'' @ repo)" "utf8 (to_ascii_lowercase arg)"
      using assms(2) 2 utf8_slash utf8_lower by simp_all
    consider n where "address_change_request low f (owner @ ''/'' @ repo) n = Inr a
        \<or> address_issue low f (owner @ ''/'' @ repo) n = Inr a"
      | b where "address_repository low f (owner @ ''/'' @ repo) = Inr b"
        "address_child low b Kind_Commit (to_ascii_lowercase arg) = Inr a"
      using assms(1) 2 by (auto simp: url_address_def url_number_def split: if_splits sum.splits)
    then show ?thesis
    proof cases
      case 1
      then show ?thesis
        using made_number [OF _ assms(3) u(1) assms(4)] by blast
    next
      case (2 b)
      then show ?thesis
        using made_repository [OF 2(1) assms(3) u(1) assms(4)] sound_child(4) [OF _ 2(2) u(2)] by (simp add: made_def)
    qed
  qed
qed

lemma url_made:
  assumes "resolve_url low input forges = Inr (Some a)" "utf8 input" "lookup_ok forges" "casing_ok low"
  shows "made low a"
proof -
  obtain host path f where path: "url_host_path input = Some (host, path)" and f: "forge_by_host forges host = Some f"
    and a: "url_address low input f (split (CHR ''/'')
      (trim_end_matches (CHR ''/'') (hd (split_by (\<lambda>c. c = CHR ''?'' \<or> c = CHR ''#'') path)))) = Inr a"
    using assms(1) by (auto simp: resolve_url_def Let_def split: option.splits sum.splits)
  have "utf8 (hd (split_by (\<lambda>c. c = CHR ''?'' \<or> c = CHR ''#'') path))"
    by (rule utf8_split_by [OF _ utf8_url_path [OF assms(2) path] hd_in_set]) (auto simp: byte_def)
  then show ?thesis
    using url_address_made [OF a utf8_parts [OF utf8_trim_end_matches] forge_by_host_valid [OF assms(3) f] assms(4)]
    by (simp add: byte_def)
qed

end
