(* ===== verification/Lenient_Normal.thy ===== *)
theory Lenient_Normal
  imports Lenient_Input
begin

text \<open>
  Resolving lenient input gives canonical addresses: what \<open>resolve\<close> returns is well formed, complete and
  in the normal form of its forge, and resolving its text returns it again.
\<close>

text \<open>The segments of an address under a forge: the forge, its repository and one thing of the repository.\<close>

definition repo_things :: "segment_kind set" where
  "repo_things = {Kind_ChangeRequest, Kind_Issue, Kind_Comment, Kind_Commit, Kind_Ref}"

lemma follow_forge [simp]: "may_follow k (Some Kind_Forge) \<longleftrightarrow> k = Kind_Repo"
  by (cases k) (simp_all add: may_follow_def)

lemma follow_repo [simp]: "may_follow k (Some Kind_Repo) \<longleftrightarrow> k \<in> repo_things"
  by (cases k) (simp_all add: may_follow_def repo_things_def)

lemma forge_follows [simp]: "may_follow Kind_Forge p \<longleftrightarrow> p = None"
  by (simp add: may_follow_def)

lemma repo_things_last: "k \<in> repo_things \<Longrightarrow> \<not> may_follow d (Some k)"
  by (cases d) (auto simp: may_follow_def repo_things_def)

lemma repo_things_plain: "Kind_Artifact \<notin> repo_things" "Kind_Repo \<notin> repo_things"
  by (simp_all add: repo_things_def)

lemma segments_follow:
  "segments_ok low before (t # ts) \<Longrightarrow>
    may_follow (sg_kind t) (if before = [] then None else Some (sg_kind (last before)))
    \<and> segments_ok low (before @ [t]) ts"
  by (simp add: segment_ok_def Let_def)

lemma forge_first:
  "segments_ok low before ts \<Longrightarrow> s \<in> set ts \<Longrightarrow> sg_kind s = Kind_Forge \<Longrightarrow> before = [] \<and> (\<exists>us. ts = s # us)"
proof (induction ts arbitrary: before)
  case (Cons t ts)
  note follow = segments_follow [OF Cons.prems(1)]
  show ?case
  proof (cases "s = t")
    case True
    with follow Cons.prems(3) show ?thesis
      by (simp split: if_splits)
  next
    case False
    with Cons.prems Cons.IH [OF follow [THEN conjunct2]] show ?thesis
      by simp
  qed
qed simp

lemma forge_segments:
  assumes "segments_ok low [] ss" "s \<in> set ss" "sg_kind s = Kind_Forge"
  shows "ss = [s] \<or> (\<exists>r. sg_kind r = Kind_Repo \<and> (ss = [s, r] \<or> (\<exists>c. sg_kind c \<in> repo_things \<and> ss = [s, r, c])))"
proof -
  obtain us where us: "ss = s # us"
    using forge_first [OF assms] by blast
  note s = segments_follow [OF assms(1) [unfolded us], THEN conjunct2]
  show ?thesis
  proof (cases us)
    case (Cons r vs)
    note r = segments_follow [OF s [unfolded Cons]]
    then have repo: "sg_kind r = Kind_Repo"
      using assms(3) by simp
    show ?thesis
    proof (cases vs)
      case (Cons c ws)
      note c = segments_follow [OF r [THEN conjunct2, unfolded Cons]]
      then have "sg_kind c \<in> repo_things"
        using repo by simp
      moreover from this have "ws = []"
        using segments_follow [of low _ "hd ws" "tl ws"] c repo_things_last by (cases ws) fastforce+
      ultimately show ?thesis
        using us \<open>us = r # vs\<close> Cons repo by blast
    qed (use us Cons repo in blast)
  qed (use us in blast)
qed

lemma wf_eqI:
  "address_wf low a \<Longrightarrow> address_wf low b \<Longrightarrow> ad_segments a = ad_segments b \<Longrightarrow> ad_of a = ad_of b \<Longrightarrow> a = b"
  by (rule pieces_inj) (simp_all add: pieces_def)

text \<open>An address whose repository is normal is rebuilt as it is under a forge of its id.\<close>

lemma push_segment:
  assumes "address_wf low a" "ad_of a = None" "segments_ok low [] (ad_segments a @ [s])"
  shows "address_push low a (sg_kind s) (sg_value s) = Inr (extended a s)" "address_wf low (extended a s)"
  using address_push_iff [OF assms(1), of "sg_kind s" "sg_value s" "extended a s"] assms
    address_wf_extended(1) [OF assms(1,2), of s]
  by (cases s; auto simp: segments_ok_snoc)+

lemma empty_simps [simp]: "ad_segments address_empty = []" "ad_of address_empty = None"
  by (simp_all add: address_empty_def)

lemma rebuild_same:
  assumes a: "sound low a" "address_complete a" "ad_segments a = s # rest" "sg_kind s = Kind_Forge"
    and f: "lookup_forge (sg_value s) forges = Inr f" "fg_id f = sg_value s"
  shows "rebuild low (map (\<lambda>s. (sg_kind s, sg_value s)) (ad_segments a)) (ad_of a) forges = Inr a"
proof -
  have wf: "address_wf low a" "segments_ok low [] (s # rest)"
    using a by (auto simp: sound_def address_wf_def)
  note shape = forge_segments [OF wf(2) _ a(4)]
  have none: "ad_of a = None" "address_kind a \<noteq> Kind_Artifact"
    using wf(1) a(3,4) shape repo_things_plain by (auto simp: address_wf_def last_kind_def address_kind_def split: option.splits)
  define a1 where "a1 = extended address_empty s"
  have "segments_ok low [] [s]"
    using wf(2) by simp
  with push_segment [OF address_wf_empty, of low s] a(4) f(2)
  have a1: "address_forge low f = Inr a1" "address_wf low a1"
    by (simp_all add: address_forge_def address_root_def address_child_def a1_def)
  have a1s: "ad_segments a1 = [s]" "ad_of a1 = None"
    by (simp_all add: a1_def)
  show ?thesis
  proof (cases rest)
    case Nil
    then have "a1 = a"
      using wf_eqI [OF a1(2) wf(1)] a1s a(3) none(1) by simp
    with Nil a f a1 none show ?thesis
      by (simp add: rebuild_def rebuild_root_def)
  next
    case (Cons r cs)
    define a2 where "a2 = extended a1 r"
    have r: "sg_kind r = Kind_Repo" "low (sg_value r) = sg_value r" "validate_repository Github (sg_value r) = Inr ()"
      using shape Cons a(1,3) by (auto simp: sound_def repo_normal_def)
    have "segments_ok low [] (ad_segments a1 @ [r])"
      using wf(2) Cons a1s by simp
    from push_segment [OF a1(2) a1s(2) this] r(1)
    have a2: "address_push low a1 Kind_Repo (sg_value r) = Inr a2" "address_wf low a2"
      by (simp_all add: a2_def)
    have repo: "address_repository low f (sg_value r) = Inr a2"
      using r(2,3) a1(1) a2(1) by (cases "fg_kind f")
        (simp_all add: address_repository_def normalise_repository_def validate_repository_def)
    show ?thesis
    proof (cases cs)
      case Nil
      then have "a2 = a"
        using wf_eqI [OF a2(2) wf(1)] a1s a(3) none(1) Cons by (simp add: a2_def)
      with Nil Cons a f repo none r show ?thesis
        by (simp add: rebuild_def rebuild_root_def)
    next
      case (Cons c ds)
      have c: "ds = []" "sg_kind c \<noteq> Kind_Repo"
        using shape \<open>rest = r # cs\<close> Cons repo_things_plain by auto
      have a2s: "ad_of a2 = None" "segments_ok low [] (ad_segments a2 @ [c])"
        using wf(2) Cons \<open>rest = r # cs\<close> a1s c by (simp_all add: a2_def)
      note pushed = push_segment [OF a2(2) a2s]
      have "extended a2 c = a"
        using wf_eqI [OF pushed(2) wf(1)] a1s a(3) none(1) Cons \<open>rest = r # cs\<close> c by (simp add: a2_def)
      with pushed(1) c have "address_child low a2 (sg_kind c) (sg_value c) = Inr a"
        by (simp add: address_child_def)
      with Cons \<open>rest = r # cs\<close> c a f repo none r show ?thesis
        by (simp add: rebuild_def rebuild_root_def)
    qed
  qed
qed

lemma renormalise_same:
  assumes "sound low a \<or> (address_wf low a
      \<and> (\<forall>f. address_get a Kind_Forge = Some f \<longrightarrow> forge_by_id forges f = None))"
    and "address_complete a" "lookup_ok forges"
  shows "renormalise low a forges = Inr a"
proof (cases "\<exists>v f. address_get a Kind_Forge = Some v \<and> forge_by_id forges v = Some f")
  case True
  then obtain s f where found: "find (\<lambda>s. sg_kind s = Kind_Forge) (ad_segments a) = Some s"
    and f: "forge_by_id forges (sg_value s) = Some f" and get: "address_get a Kind_Forge = Some (sg_value s)"
    by (auto simp: address_get_def)
  then have s: "s \<in> set (ad_segments a)" "sg_kind s = Kind_Forge" "forge_by_id forges (sg_value s) = Some f"
    by (auto simp: find_Some_iff)
  have sound: "sound low a"
    using assms(1) s(3) get by auto
  then obtain rest where rest: "ad_segments a = s # rest"
    using forge_first [OF _ s(1,2)] by (auto simp: sound_def address_wf_def)
  note id = forge_by_id_valid [OF assms(3) s(3)]
  then have "lookup_forge (sg_value s) forges = Inr f"
    using s(3) valid_forge_id(2) by (simp add: lookup_forge_def)
  from rebuild_same [OF sound assms(2) rest s(2) this] id get s(3) show ?thesis
    by (simp add: renormalise_def)
next
  case False
  then show ?thesis
    by (auto simp: renormalise_def split: option.splits)
qed

text \<open>A canonical text has no whitespace.\<close>

lemma trim_visible:
  assumes "\<And>c. c \<in> set s \<Longrightarrow> 33 \<le> byte c \<and> byte c < 128"
  shows "trim s = s"
proof -
  have none: "whitespace_len s = 0" if "\<forall>c\<in>set s. 33 \<le> byte c \<and> byte c < 128" for s
    using that by (cases s) (auto simp: whitespace_len_def)
  have start: "trim_start s = s" if "\<forall>c\<in>set s. 33 \<le> byte c \<and> byte c < 128" for s
    using none [OF that] by (simp add: trim_start.simps)
  have "trim_end s = s" if "\<forall>c\<in>set s. 33 \<le> byte c \<and> byte c < 128" for s
    using that
  proof (induction s)
    case (Cons b bs)
    with start [of "b # bs"] show ?case
      by simp
  qed simp
  with start assms show ?thesis
    by (simp add: trim_def)
qed

lemma canonical_visible:
  assumes "address_wf low a" "c \<in> set (ad_text a)"
  shows "33 \<le> byte c \<and> byte c < 128"
proof -
  have joined: "c \<in> set (join ''/'' ps) \<Longrightarrow> c = CHR ''/'' \<or> (\<exists>p\<in>set ps. c \<in> set p)" for ps
  proof (induction ps)
    case (Cons p ps)
    then show ?case
      by (cases ps) auto
  qed simp
  have plain: "33 \<le> byte c \<and> byte c < 128" if "c \<in> set (encode v)" for v
    using encode_plain [OF that]
    by (auto simp: is_unreserved_def is_ascii_alphanumeric_def is_ascii_digit_def is_ascii_lowercase_def
        is_ascii_uppercase_def byte_def)
  have kind: "33 \<le> byte c \<and> byte c < 128" if "c \<in> set (kind_str k)" for k
    using kind_str_plain [OF that] by (simp add: is_ascii_lowercase_def)
  have "33 \<le> byte c \<and> byte c < 128" if "p \<in> set (pieces a)" "c \<in> set p" for p
    using that plain kind by (auto simp: pieces_def piece_def of_piece_def OF_def byte_def split: option.splits)
  moreover have "c = CHR ''/'' \<or> (\<exists>p\<in>set (pieces a). c \<in> set p)"
    using assms by (intro joined) (simp add: address_wf_def)
  ultimately show ?thesis
    by (auto simp: byte_def)
qed

lemma resolve_canonical:
  assumes "address_wf low a" "address_complete a"
  shows "resolve low (ad_text a) forges = renormalise low a forges"
  using assms trim_visible [OF canonical_visible [OF assms(1)]] address_from_str_iff [of low "ad_text a" a]
  by (simp add: resolve_def)

lemma resolve_made:
  assumes "resolve low input forges = Inr a" "utf8 input" "lookup_ok forges" "casing_ok low"
  shows "made low a \<or> (address_wf low a \<and> address_complete a
      \<and> (\<forall>f. address_get a Kind_Forge = Some f \<longrightarrow> forge_by_id forges f = None))"
proof (cases "address_from_str low (trim input)")
  case (Inr b)
  then have b: "address_wf low b" "address_complete b" "renormalise low b forges = Inr a"
    using assms(1) address_from_str_iff [of low "trim input" b] by (auto simp: resolve_def Let_def)
  have plain: "\<forall>(k, v)\<in>set (map (\<lambda>s. (sg_kind s, sg_value s)) ss). utf8 v" if "segments_ok low before ss" for before ss
    using that by (induction ss arbitrary: before) auto
  have "\<forall>s. ad_of b = Some s \<longrightarrow> utf8 s"
    using b(1) by (auto simp: address_wf_def)
  with b plain rebuild_made [OF _ _ _ assms(3,4)] show ?thesis
    by (fastforce simp: renormalise_def address_wf_def split: if_splits option.splits)
next
  case (Inl e)
  show ?thesis
  proof (cases "resolve_url low (trim input) forges")
    case (Inr r)
    with assms Inl show ?thesis
      using url_made [OF _ utf8_trim [OF assms(2)] assms(3,4)] segments_made [OF _ assms(3,4)] short_made [OF _ assms(3,4)]
      by (cases r) (auto simp: resolve_def Let_def split: if_splits)
  qed (use assms(1) Inl in \<open>simp add: resolve_def Let_def\<close>)
qed

lemma utf8_token: "utf8 s \<Longrightarrow> utf8 (fst (token_of s))"
proof -
  assume s: "utf8 s"
  have "snd (token_of s) = [] \<or> whitespace_len (snd (token_of s)) > 0"
    by (induction s) (auto simp: split_beta)
  moreover have "\<not> cont (hd r)" if "whitespace_len r > 0" for r
    using that by (cases rule: whitespace_cases) (auto simp: cont_def)
  ultimately have "snd (token_of s) = [] \<or> \<not> cont (hd (snd (token_of s)))"
    by blast
  with utf8_split [of "fst (token_of s)" "snd (token_of s)"] s show ?thesis
    by (simp add: token_of_append)
qed

text \<open>The address of a resolved condition is canonical too, so the condition prints one the strict parser reads.\<close>

lemma condition_resolve_address:
  assumes "condition_resolve low json input forges = Inr k" "utf8 input" "lookup_ok forges" "casing_ok low"
  shows "address_from_str low (ad_text (cn_address k)) = Inr (cn_address k)"
proof -
  have "resolve low (fst (token_of (trim input))) forges = Inr (cn_address k)"
    using assms(1)
    by (auto simp: condition_resolve_def cu_token_def cursor_new_def cu_rest_def Let_def split: sum.splits prod.splits)
  from resolve_made [OF this utf8_token [OF utf8_trim [OF assms(2)]] assms(3,4)] show ?thesis
    by (auto simp: address_from_str_iff made_def sound_def)
qed

section \<open>Property\<close>

text \<open>
  C13: Lenient input resolves to canonical addresses, once and for all. Whatever typed or pasted text resolves to
  is a well-formed complete address, whose text the strict parser reads back, and resolving that
  text again returns the very same address; and canonical text of a forge the lookup does not know, or of
  no forge, resolves to itself.
\<close>

theorem lenient_resolve_canonical:
  assumes "casing_ok low" and "lookup_ok forges" and "utf8 input"
  shows "(resolve low input forges = Inr a \<longrightarrow>
      address_from_str low (ad_text a) = Inr a \<and> resolve low (ad_text a) forges = Inr a)
    \<and> (address_from_str low str = Inr b \<and> (\<forall>f. address_get b Kind_Forge = Some f \<longrightarrow> forge_by_id forges f = None)
        \<longrightarrow> resolve low str forges = Inr b)"
proof -
  have "address_wf low a \<and> address_complete a \<and> renormalise low a forges = Inr a" if "resolve low input forges = Inr a"
    using resolve_made [OF that assms(3,2,1)] renormalise_same [OF _ _ assms(2), of low a]
    by (auto simp: made_def sound_def)
  moreover have "renormalise low b forges = Inr b"
    if "address_wf low b" "address_complete b" "\<forall>f. address_get b Kind_Forge = Some f \<longrightarrow> forge_by_id forges f = None"
    using renormalise_same [OF _ that(2) assms(2)] that by blast
  ultimately show ?thesis
    using resolve_canonical address_from_str_iff by metis
qed

section \<open>Witness\<close>

definition demo_forges :: forge_lookup where
  "demo_forges = \<lparr>
    fl_by_id = (\<lambda>i. if i = ''lab'' then Some \<lparr>fg_id = ''lab'', fg_kind = Forgejo\<rparr> else None),
    fl_by_host = (\<lambda>h. if h = ''git.lab.org'' then Some \<lparr>fg_id = ''lab'', fg_kind = Forgejo\<rparr> else None)\<rparr>"

definition demo_resolved :: address where
  "demo_resolved = \<lparr>
    ad_segments = [\<lparr>sg_kind = Kind_Forge, sg_value = ''lab''\<rparr>, \<lparr>sg_kind = Kind_Repo, sg_value = ''team/repo''\<rparr>,
      \<lparr>sg_kind = Kind_ChangeRequest, sg_value = ''7''\<rparr>],
    ad_of = None, ad_text = ''forge:lab/repo:team%2Frepo/cr:7''\<rparr>"

lemma ascii_lower_idem: "to_ascii_lowercase (to_ascii_lowercase s) = to_ascii_lowercase s"
  by (auto simp: to_ascii_lowercase_def is_ascii_uppercase_def byte_char_of)

lemma casing_ok_ascii: "casing_ok to_ascii_lowercase"
proof -
  have slash: "(if is_ascii_uppercase c then char_of (byte c + 32) else c) = CHR ''/'' \<longleftrightarrow> c = CHR ''/''" for c
  proof (cases "is_ascii_uppercase c")
    case True
    then have "byte (char_of (byte c + 32)) \<noteq> byte (CHR ''/'')" "byte c \<noteq> byte (CHR ''/'')"
      by (auto simp: is_ascii_uppercase_def byte_char_of) (simp_all add: byte_def)
    with True show ?thesis
      by (auto simp: byte_inj)
  qed simp
  have "CHR ''/'' \<in> set (to_ascii_lowercase s) \<longleftrightarrow> CHR ''/'' \<in> set s" for s
    unfolding to_ascii_lowercase_def set_map image_iff using slash by metis
  moreover have "to_ascii_lowercase (s @ CHR ''/'' # t) = to_ascii_lowercase s @ CHR ''/'' # to_ascii_lowercase t" for s t
    using slash [of "CHR ''/''"] by (simp add: to_ascii_lowercase_def)
  moreover have "s \<noteq> [] \<Longrightarrow> to_ascii_lowercase s \<noteq> []" for s
    by (simp add: to_ascii_lowercase_def)
  ultimately show ?thesis
    unfolding casing_ok_def utf8_casing_def by (simp add: utf8_lower ascii_lower_idem)
qed

lemma lookup_ok_demo: "lookup_ok demo_forges"
  by (auto simp: lookup_ok_def demo_forges_def validate_forge_id_def is_ascii_alphanumeric_def is_ascii_lowercase_def
      byte_def split: if_splits)

lemma resolve_demo:
  "resolve to_ascii_lowercase ''  https://git.lab.org/Team/Repo/pulls/7/files?tab=1'' demo_forges = Inr demo_resolved"
  by code_simp

theorem lenient_resolve_canonical_witness:
  "casing_ok to_ascii_lowercase \<and> lookup_ok demo_forges
    \<and> utf8 ''  https://git.lab.org/Team/Repo/pulls/7/files?tab=1''
    \<and> resolve to_ascii_lowercase ''  https://git.lab.org/Team/Repo/pulls/7/files?tab=1'' demo_forges = Inr demo_resolved
    \<and> address_from_str to_ascii_lowercase (ad_text demo_resolved) = Inr demo_resolved
    \<and> resolve to_ascii_lowercase (ad_text demo_resolved) demo_forges = Inr demo_resolved"
proof -
  have u: "utf8 ''  https://git.lab.org/Team/Repo/pulls/7/files?tab=1''"
    by code_simp
  show ?thesis
    using lenient_resolve_canonical [OF casing_ok_ascii lookup_ok_demo u, of demo_resolved] resolve_demo
      casing_ok_ascii lookup_ok_demo u by blast
qed

end
