(* ===== verification/Names.thy ===== *)
theory Names
  imports Lenient_Normal Ordered_Map
begin

text \<open>
  Completion of partial addresses, \<open>src/crates/flotilla-address/src/completion.rs\<close>, and the names of
  the records kept about addressed things, \<open>src/crates/flotilla-address/src/record.rs\<close>.

  SHA-256 is the argument \<open>sha256\<close>, from the bytes hashed to the digest in hexadecimal; no lemma
  needs anything of it. What is shown of hashed names is that distinct keys hash distinct bytes.
\<close>

section \<open>Completion\<close>

datatype completion_error = Ambiguous address "address list"

definition ends_with :: "address \<Rightarrow> address \<Rightarrow> bool" where
  "ends_with candidate part \<longleftrightarrow>
    suffix (ad_segments part) (ad_segments candidate) \<and> ad_of candidate = ad_of part"

lemma parent_shorter: "address_parent a = Some p \<Longrightarrow> length (ad_segments p) < length (ad_segments a)"
  by (auto simp: address_parent_def Let_def split: if_splits option.splits)

function complete_place :: "casing \<Rightarrow> address \<Rightarrow> address \<Rightarrow> address option" where
  "complete_place low part ancestor =
    (if may_follow (sg_kind (hd (ad_segments part))) (Some (address_kind ancestor))
     then (case address_from_str low (ad_text ancestor @ ''/'' @ ad_text part) of Inl _ \<Rightarrow> None | Inr a \<Rightarrow> Some a)
     else (case address_parent ancestor of None \<Rightarrow> None | Some p \<Rightarrow> complete_place low part p))"
  by pat_completeness auto
termination
  by (relation "measure (\<lambda>(low, part, ancestor). length (ad_segments ancestor))") (auto dest: parent_shorter)

declare complete_place.simps [simp del]

definition complete_address :: "casing \<Rightarrow> address \<Rightarrow> address option \<Rightarrow> address list
    \<Rightarrow> completion_error + address" where
  "complete_address low part within candidates =
    (let first = sg_kind (hd (ad_segments part))
     in if \<not> list_ex (\<lambda>parent. may_follow first (Some parent)) kind_all then Inr part
        else (case Option.bind within (complete_place low part) of
            Some placed \<Rightarrow> Inr placed
          | None \<Rightarrow>
              (let matches = fold (\<lambda>c. bm_insert (ad_text c) c) (filter (\<lambda>c. ends_with c part) candidates) []
               in case map snd matches of
                    [] \<Rightarrow> Inr part
                  | [only] \<Rightarrow> Inr only
                  | several \<Rightarrow> Inl (Ambiguous part several))))"

section \<open>Record names\<close>

definition GITHUB_RECORD_SERVICE :: string where
  "GITHUB_RECORD_SERVICE = ''github.com''"

definition hex_lower :: "nat \<Rightarrow> char" where
  "hex_lower n = char_of (if n < 10 then 48 + n else 87 + n)"

definition hex_text :: "string \<Rightarrow> string" where
  "hex_text val = concat (map (\<lambda>c. [hex_lower (byte c div 16), hex_lower (byte c mod 16)]) val)"

text \<open>The source's three \<open>expect\<close>s are \<open>None\<close>: \<open>numbered_address\<close> below shows that none of them fails.\<close>

definition forge_record_name :: "string \<Rightarrow> address \<Rightarrow> string option" where
  "forge_record_name name a =
    (case address_get a Kind_Forge of
       None \<Rightarrow> None
     | Some forge \<Rightarrow>
         (let service = (if forge = GITHUB_FORGE_ID then GITHUB_RECORD_SERVICE else forge)
          in case address_get a Kind_Repo of
               None \<Rightarrow> None
             | Some repository \<Rightarrow> (case address_number a of
                 None \<Rightarrow> None
               | Some number \<Rightarrow>
                   Some (name @ ''-'' @ hex_text service @ ''-'' @ hex_text repository @ ''-'' @ print_nat number))))"

text \<open>\<open>u64::to_be_bytes\<close>, and the bytes hashed for components each led by its length.\<close>

definition be_bytes :: "nat \<Rightarrow> string" where
  "be_bytes n = map (\<lambda>i. char_of (n div 256 ^ i mod 256)) [7, 6, 5, 4, 3, 2, 1, 0]"

definition hash_input :: "string list \<Rightarrow> string" where
  "hash_input components = concat (map (\<lambda>c. be_bytes (length c) @ c) components)"

definition artifact_record_name :: "(string \<Rightarrow> string) \<Rightarrow> address \<Rightarrow> string option" where
  "artifact_record_name sha256 a =
    (case (address_get a Kind_Convoy, address_get a Kind_Role, ad_of a) of
       (Some convoy, Some role, Some subject) \<Rightarrow>
         Some (''artifact-'' @ sha256 (hash_input [convoy, role, address_name a, subject]))
     | _ \<Rightarrow> None)"

definition usage_record_name :: "casing \<Rightarrow> (string \<Rightarrow> string) \<Rightarrow> address \<Rightarrow> string option" where
  "usage_record_name low sha256 a =
    (case address_get a Kind_Usage of
       None \<Rightarrow> None
     | Some provider \<Rightarrow>
         (let nul = char_of (0 :: nat);
              digest = sha256 (''usage-account-v2'' @ [nul] @ low (trim provider) @ [nul] @ low (trim (address_name a)))
          in Some (''usage-'' @ take 54 digest)))"

text \<open>The outer option is whether an \<open>expect\<close> holds, the inner one is the result.\<close>

definition record_name :: "casing \<Rightarrow> (string \<Rightarrow> string) \<Rightarrow> address \<Rightarrow> string option option" where
  "record_name low sha256 a =
    (let kind = address_kind a
     in if kind = Kind_ChangeRequest then map_option Some (forge_record_name ''cr'' a)
        else if kind = Kind_Issue then map_option Some (forge_record_name ''issue'' a)
        else if kind = Kind_Artifact then Some (artifact_record_name sha256 a)
        else if kind = Kind_Account then Some (usage_record_name low sha256 a)
        else if kind \<in> {Kind_Project, Kind_Convoy, Kind_Host} then Some (Some (address_name a))
        else Some None)"

definition message_record_name :: "(string \<Rightarrow> string) \<Rightarrow> string \<Rightarrow> string \<Rightarrow> string \<Rightarrow> string" where
  "message_record_name sha256 receiver sender producer_key =
    ''message-'' @ sha256 (hash_input [receiver, sender, producer_key])"

section \<open>Lemmas on completion\<close>

lemma after_artifact: "\<not> may_follow k (Some Kind_Artifact)"
  by (cases k) (simp_all add: may_follow_def)

lemma joined_pieces:
  assumes "address_wf low p" "address_wf low part" "address_wf low a"
    and "ad_segments p \<noteq> []" "ad_segments part \<noteq> []" "ad_of p = None" "ad_segments a \<noteq> []"
    and "ad_text a = ad_text p @ ''/'' @ ad_text part"
  shows "ad_segments a = ad_segments p @ ad_segments part" "ad_of a = ad_of part"
proof -
  have ne: "pieces p \<noteq> []" "pieces part \<noteq> []" "pieces a \<noteq> []"
    using assms by (simp_all add: pieces_def)
  have "join ''/'' (pieces a) = join ''/'' (pieces p @ pieces part)"
    using assms ne by (simp add: address_wf_def join_append)
  then have "split (CHR ''/'') (join ''/'' (pieces a)) = split (CHR ''/'') (join ''/'' (pieces p @ pieces part))"
    by simp
  then have eq: "pieces a = pieces p @ pieces part"
    using ne piece_no_slash by (subst (asm) (1 2) split_join) auto
  define c where "c = \<lparr>ad_segments = ad_segments p @ ad_segments part, ad_of = ad_of part, ad_text = []\<rparr>"
  have "pieces a = pieces c"
    using eq assms(6) by (simp add: c_def pieces_def)
  from pieces_eqD [OF this] show "ad_segments a = ad_segments p @ ad_segments part" "ad_of a = ad_of part"
    by (simp_all add: c_def)
qed

text \<open>A placed address is the partial one under an ancestor of the context its first segment may follow.\<close>

lemma complete_place_sound:
  assumes "complete_place low part anc = Some a" "sound low anc" "ad_segments anc \<noteq> []"
    and "address_wf low part" "ad_segments part \<noteq> []"
  shows "address_wf low a \<and> address_complete a \<and> ad_of a = ad_of part
    \<and> (\<exists>up. up \<noteq> [] \<and> prefix up (ad_segments anc) \<and> may_follow (sg_kind (hd (ad_segments part))) (Some (sg_kind (last up)))
        \<and> ad_segments a = up @ ad_segments part)"
  using assms
proof (induction low part anc rule: complete_place.induct)
  case (1 low part anc)
  note step = complete_place.simps [of low part anc] and part = 1(5,6)
  show ?case
  proof (cases "may_follow (sg_kind (hd (ad_segments part))) (Some (address_kind anc))")
    case True
    then have parsed: "address_from_str low (ad_text anc @ ''/'' @ ad_text part) = Inr a"
      using 1(2) step by (auto split: sum.splits)
    then have a: "address_wf low a" "address_complete a" "ad_segments a \<noteq> []"
        "ad_text a = ad_text anc @ ''/'' @ ad_text part"
      by (simp_all add: address_from_str_iff address_complete_def)
    have anc: "address_wf low anc" "address_kind anc \<noteq> Kind_Artifact"
      using 1(3) True after_artifact by (auto simp: sound_def)
    then have "ad_of anc = None"
      by (auto simp: address_wf_def last_kind_def address_kind_def split: option.splits if_splits)
    from joined_pieces [OF anc(1) part(1) a(1) 1(4) part(2) this a(3,4)] a True 1(4) show ?thesis
      by (auto simp: address_kind_def)
  next
    case False
    then obtain p where p: "address_parent anc = Some p" "complete_place low part p = Some a"
      using 1(2) step by (auto split: option.splits)
    note up = sound_parent [OF 1(3) p(1)]
    have "ad_segments p \<noteq> []"
      using p(1) by (auto simp: address_parent_def Let_def split: if_splits option.splits)
    note IH = 1(1) [OF False p(1) p(2) up(1) this part]
    have "prefix (ad_segments p) (ad_segments anc)"
      using up(2) by auto
    with IH show ?thesis
      using prefix_order.trans by blast
  qed
qed

lemma matches_subset:
  "set (map snd (fold (\<lambda>c. bm_insert (ad_text c) c) cs m)) \<subseteq> set cs \<union> set (map snd m)"
proof (induction cs arbitrary: m)
  case (Cons c cs)
  have "snd ` set (bm_insert k v m) \<subseteq> insert v (snd ` set m)" for k :: string and v m
    by (induction k v m rule: bm_insert.induct) auto
  from this [of "ad_text c" c m] Cons.IH [of "bm_insert (ad_text c) c m"] show ?case
    by simp blast
qed simp

text \<open>
  Completing returns an address that ends with the partial one: the partial itself, the one placed
  under the context or the only candidate. Several candidates are listed, each ending with it.
\<close>

lemma complete_address_sound:
  assumes "address_wf low part" "address_complete part"
    and "\<forall>c. within = Some c \<longrightarrow> sound low c \<and> ad_segments c \<noteq> []"
    and "\<forall>c\<in>set candidates. address_wf low c \<and> address_complete c"
  shows "(complete_address low part within candidates = Inr a \<longrightarrow>
      address_wf low a \<and> address_complete a \<and> ends_with a part)
    \<and> (complete_address low part within candidates = Inl (Ambiguous p several) \<longrightarrow>
      p = part \<and> 2 \<le> length several \<and> (\<forall>c\<in>set several. c \<in> set candidates \<and> ends_with c part))"
proof -
  let ?m = "map snd (fold (\<lambda>c. bm_insert (ad_text c) c) (filter (\<lambda>c. ends_with c part) candidates) [])"
  have matches: "\<forall>c\<in>set ?m. c \<in> set candidates \<and> ends_with c part"
    using matches_subset [of "filter (\<lambda>c. ends_with c part) candidates" "[]"] by auto
  have itself: "ends_with part part"
    by (simp add: ends_with_def)
  have placed: "address_wf low b \<and> address_complete b \<and> ends_with b part"
    if bound: "Option.bind within (complete_place low part) = Some b" for b
  proof -
    obtain c where c: "within = Some c" "complete_place low part c = Some b"
      using bound by (auto simp: bind_eq_Some_conv)
    have "ad_segments part \<noteq> []"
      using assms(2) by (simp add: address_complete_def)
    from complete_place_sound [OF c(2) _ _ assms(1) this] assms(3) c(1) show ?thesis
      by (auto simp: ends_with_def suffix_def)
  qed
  show ?thesis
  proof (cases "Option.bind within (complete_place low part)")
    case None
    then show ?thesis
      using matches assms itself by (auto simp: complete_address_def Let_def split: list.splits)
  next
    case (Some b)
    then show ?thesis
      using placed [OF Some] assms itself by (auto simp: complete_address_def Let_def)
  qed
qed

section \<open>Lemmas on record names\<close>

lemma follow_number: "may_follow k p \<Longrightarrow> k \<in> {Kind_ChangeRequest, Kind_Issue} \<Longrightarrow> p = Some Kind_Repo"
  by (auto simp: may_follow_def)

lemma number_segments:
  assumes "segments_ok low [] ss" "ss \<noteq> []" "sg_kind (last ss) \<in> {Kind_ChangeRequest, Kind_Issue}"
  obtains f r n where "ss = [f, r, n]" "sg_kind f = Kind_Forge" "sg_kind r = Kind_Repo"
proof -
  obtain xs n where n: "ss = xs @ [n]"
    using assms(2) by (cases ss rule: rev_cases) auto
  have xs: "segments_ok low [] xs" "segment_ok low xs n"
    using assms(1) by (simp_all add: n segments_ok_snoc)
  then have "xs \<noteq> []" "sg_kind (last xs) = Kind_Repo"
    using follow_number assms(3) by (fastforce simp: segment_ok_def Let_def n split: if_splits)+
  then obtain ys r where r: "xs = ys @ [r]" "sg_kind r = Kind_Repo"
    by (cases xs rule: rev_cases) auto
  have ys: "segments_ok low [] ys" "segment_ok low ys r"
    using xs(1) by (simp_all add: r segments_ok_snoc)
  then have "ys \<noteq> []" "sg_kind (last ys) = Kind_Forge"
    using r(2) by (auto simp: segment_ok_def Let_def may_follow_def split: if_splits)
  then obtain zs f where f: "ys = zs @ [f]" "sg_kind f = Kind_Forge"
    by (cases ys rule: rev_cases) auto
  then have "zs = []"
    using ys(1) by (auto simp: segments_ok_snoc segment_ok_def Let_def split: if_splits)
  with n r f that show thesis
    by simp
qed

lemma hex_lower_plain: "n < 16 \<Longrightarrow> hex_lower n \<noteq> CHR ''-''"
proof
  assume "n < 16" "hex_lower n = CHR ''-''"
  then have "byte (hex_lower n) = 45" "n < 16"
    by (simp_all add: byte_def)
  then show False
    by (simp add: hex_lower_def byte_char_of split: if_splits)
qed

lemma hex_lower_inj: "m < 16 \<Longrightarrow> n < 16 \<Longrightarrow> hex_lower m = hex_lower n \<longleftrightarrow> m = n"
  by (auto simp: hex_lower_def byte_inj [symmetric] byte_char_of split: if_splits)

lemma nibbles: "byte c div 16 < 16" "byte c mod 16 < 16"
  using byte_less [of c] by (simp_all add: div_less_iff_less_mult)

lemma hex_text_plain: "CHR ''-'' \<notin> set (hex_text v)"
  by (simp add: hex_text_def hex_lower_plain [OF nibbles(1), THEN not_sym] hex_lower_plain [OF nibbles(2), THEN not_sym])

lemma hex_text_inj: "hex_text v = hex_text w \<longleftrightarrow> v = w"
proof (induction v arbitrary: w)
  case (Cons b v)
  have "hex_lower (byte b div 16) = hex_lower (byte c div 16) \<and> hex_lower (byte b mod 16) = hex_lower (byte c mod 16)
      \<longleftrightarrow> b = c" for c
    using hex_lower_inj [OF nibbles(1) nibbles(1)] hex_lower_inj [OF nibbles(2) nibbles(2)]
      div_mult_mod_eq [of "byte b" 16] div_mult_mod_eq [of "byte c" 16] byte_inj [of b c] by metis
  with Cons show ?case
    by (cases w) (auto simp: hex_text_def)
qed (auto simp: hex_text_def)

lemma dash_inj:
  assumes "a @ CHR ''-'' # x = b @ CHR ''-'' # y" "CHR ''-'' \<notin> set a" "CHR ''-'' \<notin> set b"
  shows "a = b \<and> x = y"
  using assms split_once_iff [of "CHR ''-''" "a @ CHR ''-'' # x"] by (metis option.inject prod.inject)

lemma decimal_snoc: "decimal k (ds @ [d]) = 10 * decimal k ds + (byte d - 48)"
  by (induction ds arbitrary: k) simp_all

lemma decimal_pos: "0 < k \<Longrightarrow> 0 < decimal k ds"
  by (induction ds arbitrary: k) simp_all

lemma print_snoc: "0 < k \<Longrightarrow> e < 10 \<Longrightarrow> print_nat (10 * k + e) = print_nat k @ [char_of (48 + e)]"
  by (subst print_nat.simps) simp

text \<open>A canonical number is the text its value prints.\<close>

lemma print_decimal:
  assumes "ds \<noteq> []" "list_all is_ascii_digit ds" "ds = ''0'' \<or> \<not> starts_with (CHR ''0'') ds"
  shows "print_nat (decimal 0 ds) = ds"
  using assms
proof (induction ds rule: rev_induct)
  case (snoc d ds)
  have d: "48 \<le> byte d" "byte d \<le> 57"
    using snoc.prems(2) by (simp_all add: is_ascii_digit_def)
  then have last: "char_of (48 + (byte d - 48)) = d"
    by simp
  show ?case
  proof (cases ds)
    case Nil
    moreover have "byte d - 48 < 10"
      using d by simp
    ultimately show ?thesis
      using last by (subst print_nat.simps) simp
  next
    case (Cons e es)
    have nz: "e \<noteq> CHR ''0''" "list_all is_ascii_digit ds"
      using snoc.prems Cons by auto
    then have "byte e \<noteq> byte (CHR ''0'')" "48 \<le> byte e"
      using Cons byte_inj by (auto simp: is_ascii_digit_def)
    then have "0 < decimal 0 ds"
      using Cons decimal_pos [of "byte e - 48" es] by (simp add: byte_def)
    moreover have "print_nat (decimal 0 ds) = ds"
      using snoc.IH Cons nz by simp
    ultimately show ?thesis
      using d last print_snoc [of "decimal 0 ds" "byte d - 48"] by (simp add: decimal_snoc)
  qed
qed simp

text \<open>The parts of a change request's or issue's address that its record name spells.\<close>

lemma numbered_address:
  assumes "address_wf low a" "ad_segments a \<noteq> []" "address_kind a \<in> {Kind_ChangeRequest, Kind_Issue}"
  obtains f r n where
    "ad_segments a = [\<lparr>sg_kind = Kind_Forge, sg_value = f\<rparr>, \<lparr>sg_kind = Kind_Repo, sg_value = r\<rparr>,
      \<lparr>sg_kind = address_kind a, sg_value = print_nat n\<rparr>]"
    "ad_of a = None" "validate_forge_id f = Inr ()"
    "forge_record_name p a = Some (p @ ''-'' @ hex_text (if f = GITHUB_FORGE_ID then GITHUB_RECORD_SERVICE else f)
      @ ''-'' @ hex_text r @ ''-'' @ print_nat n)"
proof -
  have ok: "segments_ok low [] (ad_segments a)"
    using assms(1) by (simp add: address_wf_def)
  obtain f r n where segs: "ad_segments a = [f, r, n]" "sg_kind f = Kind_Forge" "sg_kind r = Kind_Repo"
    using number_segments [OF ok assms(2)] assms(3) by (auto simp: address_kind_def)
  have kind: "sg_kind n = address_kind a"
    using segs by (simp add: address_kind_def)
  have none: "ad_of a = None"
    using assms(1,3) segs by (auto simp: address_wf_def last_kind_def address_kind_def split: option.splits)
  have "validate_value low (sg_kind f) (sg_value f) = Inr ()" "validate_value low (sg_kind n) (sg_value n) = Inr ()"
    using ok segs(1) by (simp_all add: segment_ok_def Let_def)
  then have f: "validate_forge_id (sg_value f) = Inr ()"
    and n: "sg_value n \<noteq> []" "list_all is_ascii_digit (sg_value n)"
      "sg_value n = ''0'' \<or> \<not> starts_with (CHR ''0'') (sg_value n)" "parse_u64 (sg_value n) \<noteq> None"
    using segs(2) kind assms(3) by (auto simp: validate_value_def Let_def split: if_splits)
  have "\<not> starts_with (CHR ''+'') (sg_value n)"
    using n(1,2) by (cases "sg_value n") (auto simp: is_ascii_digit_def byte_def)
  with n(4) have num: "parse_u64 (sg_value n) = Some (decimal 0 (sg_value n))"
    by (auto simp: parse_u64_def Let_def split: if_splits)
  have print: "print_nat (decimal 0 (sg_value n)) = sg_value n"
    by (rule print_decimal [OF n(1-3)])
  have number: "address_number a = Some (decimal 0 (sg_value n))"
    using assms(3) num segs(1) by (simp add: address_number_def address_name_def)
  have get: "address_get a Kind_Forge = Some (sg_value f)" "address_get a Kind_Repo = Some (sg_value r)"
    using segs by (simp_all add: address_get_def)
  show thesis
    by (rule that [of "sg_value f" "sg_value r" "decimal 0 (sg_value n)"])
      (use segs kind none f print number get in \<open>auto simp: forge_record_name_def Let_def\<close>)
qed

lemma github_service: "validate_forge_id f = Inr () \<Longrightarrow> f \<noteq> GITHUB_RECORD_SERVICE"
  by (auto simp: validate_forge_id_def GITHUB_RECORD_SERVICE_def is_ascii_lowercase_def is_ascii_digit_def byte_def
      split: if_splits)

lemma service_inj:
  assumes "validate_forge_id f = Inr ()" "validate_forge_id g = Inr ()"
    and "(if f = GITHUB_FORGE_ID then GITHUB_RECORD_SERVICE else f) = (if g = GITHUB_FORGE_ID then GITHUB_RECORD_SERVICE else g)"
  shows "f = g"
  using assms github_service [of f] github_service [of g] by (auto split: if_splits)

text \<open>Bytes hashed for different components differ.\<close>

lemma be_bytes_digits:
  "\<forall>i<k. m div 256 ^ i mod 256 = n div 256 ^ i mod 256 \<Longrightarrow> m mod 256 ^ k = n mod (256 :: nat) ^ k"
proof (induction k)
  case (Suc k)
  have "j mod 256 ^ Suc k = 256 ^ k * (j div 256 ^ k mod 256) + j mod 256 ^ k" for j :: nat
    using mod_mult2_eq [of j "256 ^ k" 256] by (simp add: mult.commute)
  with Suc show ?case
    by simp
qed simp

lemma be_bytes_inj:
  assumes "be_bytes m = be_bytes n" "m \<le> u64_max" "n \<le> u64_max"
  shows "m = n"
proof -
  have "\<forall>i\<in>{0, 1, 2, 3, 4, 5, 6, 7}. m div 256 ^ i mod 256 = n div 256 ^ i mod 256"
    using assms(1) by (simp add: be_bytes_def byte_inj [symmetric]) (simp add: byte_def)
  moreover have "i \<in> {0, 1, 2, 3, 4, 5, 6, 7}" if "i < 8" for i :: nat
    using that by auto
  ultimately have "m mod 256 ^ 8 = n mod 256 ^ 8"
    by (intro be_bytes_digits) blast
  then show ?thesis
    using assms(2,3) by (simp add: u64_max_def)
qed

lemma hash_input_inj:
  assumes "length xs = length ys" "\<forall>x\<in>set xs \<union> set ys. length x \<le> u64_max"
  shows "hash_input xs = hash_input ys \<longleftrightarrow> xs = ys"
  using assms
proof (induction xs ys rule: list_induct2)
  case (Cons x xs y ys)
  have size: "length (be_bytes k) = 8" for k
    by (simp add: be_bytes_def)
  show ?case
  proof
    assume "hash_input (x # xs) = hash_input (y # ys)"
    then have eq: "be_bytes (length x) @ x @ hash_input xs = be_bytes (length y) @ y @ hash_input ys"
      by (simp add: hash_input_def)
    then have "be_bytes (length x) = be_bytes (length y)" "x @ hash_input xs = y @ hash_input ys"
      using size append_eq_append_conv [of "be_bytes (length x)" "be_bytes (length y)"] by auto
    moreover from this have "length x = length y"
      using be_bytes_inj Cons.prems by simp
    ultimately show "x # xs = y # ys"
      using Cons by simp
  qed simp
qed simp

lemma numbered_name_inj:
  assumes "address_wf low a" "address_wf low b" "ad_segments a \<noteq> []" "ad_segments b \<noteq> []"
    and "address_kind a \<in> {Kind_ChangeRequest, Kind_Issue}" "address_kind b \<in> {Kind_ChangeRequest, Kind_Issue}"
    and "forge_record_name p a = forge_record_name q b" "CHR ''-'' \<notin> set p" "CHR ''-'' \<notin> set q"
    and "p = q \<longleftrightarrow> address_kind a = address_kind b"
  shows "a = b"
proof -
  obtain f r n where a: "ad_segments a = [\<lparr>sg_kind = Kind_Forge, sg_value = f\<rparr>,
      \<lparr>sg_kind = Kind_Repo, sg_value = r\<rparr>, \<lparr>sg_kind = address_kind a, sg_value = print_nat n\<rparr>]"
    "ad_of a = None" "validate_forge_id f = Inr ()"
    and name_a: "forge_record_name p a = Some (p @ ''-'' @ hex_text (if f = GITHUB_FORGE_ID then GITHUB_RECORD_SERVICE else f)
      @ ''-'' @ hex_text r @ ''-'' @ print_nat n)"
    by (rule numbered_address [OF assms(1,3,5)])
  obtain g s m where b: "ad_segments b = [\<lparr>sg_kind = Kind_Forge, sg_value = g\<rparr>,
      \<lparr>sg_kind = Kind_Repo, sg_value = s\<rparr>, \<lparr>sg_kind = address_kind b, sg_value = print_nat m\<rparr>]"
    "ad_of b = None" "validate_forge_id g = Inr ()"
    and name_b: "forge_record_name q b = Some (q @ ''-'' @ hex_text (if g = GITHUB_FORGE_ID then GITHUB_RECORD_SERVICE else g)
      @ ''-'' @ hex_text s @ ''-'' @ print_nat m)"
    by (rule numbered_address [OF assms(2,4,6)])
  define u v where "u = (if f = GITHUB_FORGE_ID then GITHUB_RECORD_SERVICE else f)"
    and "v = (if g = GITHUB_FORGE_ID then GITHUB_RECORD_SERVICE else g)"
  have "p @ CHR ''-'' # hex_text u @ CHR ''-'' # hex_text r @ CHR ''-'' # print_nat n
      = q @ CHR ''-'' # hex_text v @ CHR ''-'' # hex_text s @ CHR ''-'' # print_nat m"
    using assms(7) unfolding name_a name_b u_def v_def by simp
  note first = dash_inj [OF this assms(8,9)]
  note second = dash_inj [OF first [THEN conjunct2] hex_text_plain hex_text_plain]
  note third = dash_inj [OF second [THEN conjunct2] hex_text_plain hex_text_plain]
  have "p = q" "u = v" "r = s" "print_nat n = print_nat m"
    using first second third hex_text_inj by blast+
  with service_inj [OF a(3) b(3)] a b assms(10) wf_eqI [OF assms(1,2)] show ?thesis
    by (simp add: u_def v_def)
qed

section \<open>Property\<close>


section \<open>Witness\<close>


text \<open>
  A partial account in mixed case is not placed under the usage of its context, though an account may
  follow it: the joined text is not canonical, and the partial comes back as it was.
\<close>

theorem mixed_case_account_unplaced:
  "(case (address_from_str to_ascii_lowercase ''account:Team'', address_from_str to_ascii_lowercase ''usage:claude'') of
      (Inr part, Inr usage) \<Rightarrow> may_follow (sg_kind (hd (ad_segments part))) (Some (address_kind usage))
        \<and> complete_address to_ascii_lowercase part (Some usage) [] = Inr part
    | _ \<Rightarrow> False)"
  by code_simp

end
