(* ===== verification/Spec2Isabelle.thy ===== *)
theory Spec2Isabelle
  imports Engine Awaiting_Reply Convoy_Home Placements Ensure Kinds Names
begin

text \<open>
  Flotilla runs fleets of coding agents: convoys of work with crews in seats, messages between them, and
  the vessels, hosts and checkouts they run in. This library verifies its core that decides: the
  state-machine engine of the crate \<open>flotilla-state-machines\<close> (directory
  \<open>src/crates/flotilla-state-machines/src\<close>, named by file below), the schema values it stores, and the
  crate \<open>flotilla-address\<close> (directory \<open>src/crates/flotilla-address/src\<close>), which names things. The rest of the
  repository is I/O around that core.

  \<^bold>\<open>The program.\<close> A machine declares labels, edge kinds with their source and target labels, and for
  each edge a gate that checks evidence and an effect that gives the next state and record writes. The
  engine takes a step: it looks the edge up, runs the gate and the effect on a handle that records
  every read, and refuses an effect that leaves its declaration. A home is the single writer of
  the resources of one machine: it admits a request into a resource, applies edges to it, and appends one
  event per edge to a log with versions. The crate's machines are messages, awaited replies, people and
  agent sessions, convoys, lifecycles (vessels among them) and Ensures. Placement leases host capacity to
  vessels beside their home. Promise kinds say when a convoy's promise is kept, as conditions over addresses.

  \<^bold>\<open>Conventions.\<close> A struct is a record, an enum a datatype with the source's constructors, a trait
  a record of functions (\<open>machine\<close>, \<open>log_ops\<close>, \<open>forge_lookup\<close>). Fallible code returns a sum, \<open>Inl\<close> the error; a
  handle or home that is mutated is passed along and returned. \<open>BTreeMap\<close> and \<open>BTreeSet\<close> are sorted
  lists (Ordered_Map). Integers that saturate or clamp do so explicitly (Prelude). A \<open>str\<close> is its UTF-8
  bytes (Text). Code outside the sources is an argument: \<open>str::to_lowercase\<close>, \<open>serde_json\<close> string
  literals, SHA-256, the forge lookup, the writer that freezes a kind. What is relied on of it is a named
  predicate (\<open>utf8_casing\<close>, \<open>casing_ok\<close>, \<open>json_ok\<close>, \<open>lookup_ok\<close>), and each is shown to hold of a concrete function.

  \<^bold>\<open>The theories.\<close>
  \<^item> Prelude, Ordered_Map and Text: arithmetic, results, ordered maps and sets, strings. The locale \<open>ordered_map\<close>
    is the contract of a map, interpreted on the sorted lists.
  \<^item> Records and Reads: \<open>time.rs\<close>, \<open>state.rs\<close> and \<open>records.rs\<close> of \<open>src/crates/flotilla-schema/src\<close>, and
    \<open>read.rs\<close>: timestamps, states with their since, append-only rows, tables, admissions and handles.
  \<^item> Attempt: \<open>attempt.rs\<close>, tallies, backoff and exhaustion.
  \<^item> Machine: \<open>machine.rs\<close> and \<open>code.rs\<close>, the builders, validation with its reachability search, and the step.
  \<^item> Home: \<open>home.rs\<close>, \<open>log.rs\<close> and \<open>record.rs\<close>. The locale \<open>edge_log\<close> is what a home relies on of a log,
    interpreted on the in-memory log; \<open>record_writes\<close> is what it relies on of a machine's record writes;
    \<open>machine_invariant\<close> and \<open>machine_progress\<close> lift what every step keeps to every run of a home.
  \<^item> Engine: the properties of every machine. Message_Home: the properties of messages.
  \<^item> Consumers, Message, Awaiting_Reply, Lifecycle and Ensure: \<open>machines/consumer.rs\<close>, \<open>person.rs\<close>,
    \<open>agent_session.rs\<close>, \<open>message.rs\<close>, \<open>awaiting_reply.rs\<close>, \<open>lifecycle.rs\<close> and \<open>ensure.rs\<close>.
  \<^item> Convoy_Spec, Convoy and Convoy_Machine: \<open>machines/convoy.rs\<close>, its types, its reads and gates, its
    effects, declaration and admission. Convoy_Steps, Convoy_Refinement, Convoy_Invariant and Convoy_Home:
    what its edges do, the specification they implement, and what holds at a home.
  \<^item> Placement and Placements: \<open>placement.rs\<close> and \<open>machines/vessel.rs\<close>.
  \<^item> Kinds: \<open>kinds.rs\<close>.
  \<^item> Encoding, Address, Conditions, Lenient_Input, Lenient_Normal and Names: the address crate, \<open>kind.rs\<close>, \<open>lib.rs\<close>
    and \<open>encoding.rs\<close>; \<open>forge.rs\<close>, \<open>address.rs\<close> and \<open>reference.rs\<close>; \<open>condition.rs\<close>; \<open>lenient.rs\<close>;
    \<open>completion.rs\<close> and \<open>record.rs\<close>.

  \<^bold>\<open>What is shown.\<close>
  \<^item> Engine: a validated declaration is sound, every machine of the crate validates, a step stays within its
    declaration, a home's log walks each resource's history, an edge appends exactly one event, and a failed
    write leaves the resources alone.
  \<^item> Machines: each one's step is accepted exactly on stated evidence (for the convoy as a refinement of a
    rule-by-rule specification), never faults, keeps an invariant, and only moves forward over any later
    writes: ends are final, receivers, promises, recorded fulfillers and floors are kept.
  \<^item> Placement: the rule is applied exactly, no host is overcommitted, the ledger is the view of the live
    vessels and a restart rebuilds it.
  \<^item> Kinds: resolving a catalogue ends, an extension only tightens, every condition has an observation behind it.
  \<^item> Addresses: the strict parser accepts exactly the printed texts, the prefix query selects exactly the
    descendants, conditions and templates round-trip, lenient input resolves to canonical addresses for good, and
    record names keep change requests and issues apart.

  \<^bold>\<open>Bounds.\<close> No definition takes fuel. Loops are structural recursions or recursions with a
  termination proof: the search of Machine by the labels not yet reached, the climb of admission by the
  number of seats as in the source, the parsers by the text left, completion by the ancestors left. The
  composition of kinds follows the chain of bases with no bound of its own and is a \<open>partial_function\<close>;
  \<open>kinds_resolve_terminates\<close> shows that it always returns, by the names not yet visited.

  \<^bold>\<open>Not modelled.\<close>
  \<^item> Of the engine crate: mermaid diagrams, the serde glue of its macros, the CBOR documents of stored log
    entries (\<open>edge_event\<close> of \<open>log.rs\<close>), the column encodings of \<open>stored.rs\<close> and \<open>read.rs\<close>, which macros generate.
    Of the address crate: error messages and serde glue.
  \<^item> The CBOR profile wraps a third-party codec. The schema crates are macros and SQL; the engine store,
    the resource stores and replication are async code over databases and sockets.
  \<^item> The daemon, controllers, messaging, provisioning, forges, terminals, discovery, interfaces and test kits are
    I/O, processes, rendering and scheduling around external services. Their concurrency is the
    runtime's: the model's runs are the sequences of writes one home makes, in any order of edges.
\<close>

section \<open>The machines of the crate\<close>


end
